(* ===== verification/Prelude.thy ===== *)
theory Prelude
  imports Main "HOL-Library.Word"
begin

text \<open>
  Shared vocabulary of the development. Go values are read as follows.

  \<^item> A Go \<^verbatim>\<open>string\<close> or \<^verbatim>\<open>[]byte\<close> is a \<^typ>\<open>string\<close>, a list of bytes. A
    \<^verbatim>\<open>range\<close> loop over a string walks its runes; \<open>runes\<close> decodes UTF-8 the way
    the language does, giving the replacement rune and width one for a bad byte.
  \<^item> A \<^verbatim>\<open>uint64\<close> counter is a \<^typ>\<open>nat\<close> whose increment \<open>inc64\<close> writes the
    wrap-around out; \<open>MaxUint64\<close> is the guard value of the source.
  \<^item> \<^verbatim>\<open>int\<close> and \<^verbatim>\<open>int64\<close> quantities are \<^typ>\<open>int\<close>; the invariants of the
    components bound every such quantity, so that no addition leaves the machine range.
  \<^item> A fallible call returns a sum, \<open>Inl\<close> for the error and \<open>Inr\<close> for the value;
    a nil pointer or a nil error is \<open>None\<close>.
\<close>

section \<open>Collections of facts\<close>

named_theorems go_string \<open>byte-level readings of the string predicates\<close>
named_theorems sys_defs \<open>definitions unfolded in step-by-step invariant proofs\<close>

section \<open>Counters\<close>

definition MaxUint64 :: nat where
  "MaxUint64 = 2 ^ 64 - 1"

definition inc64 :: "nat \<Rightarrow> nat" where
  "inc64 n = (n + 1) mod 2 ^ 64"

text \<open>\<^verbatim>\<open>if c < math.MaxUint64 { c++ }\<close>, the saturating counters of the source.\<close>

definition sat_inc64 :: "nat \<Rightarrow> nat" where
  "sat_inc64 n = (if n < MaxUint64 then inc64 n else n)"

lemma inc64_less [simp]: "n < MaxUint64 \<Longrightarrow> inc64 n = Suc n"
  by (simp add: inc64_def MaxUint64_def)

lemma inc64_neq [simp]: "n \<le> MaxUint64 \<Longrightarrow> n \<noteq> MaxUint64 \<Longrightarrow> inc64 n = Suc n"
  by simp

lemma sat_inc64_le: "n \<le> MaxUint64 \<Longrightarrow> sat_inc64 n \<le> MaxUint64"
  by (auto simp: sat_inc64_def)

lemma sat_inc64_ge: "n \<le> sat_inc64 n"
  by (auto simp: sat_inc64_def)

section \<open>Optional errors\<close>

definition is_err :: "('e + 'a) \<Rightarrow> bool" where
  "is_err r = (case r of Inl _ \<Rightarrow> True | Inr _ \<Rightarrow> False)"

lemma is_err_simps [simp]: "is_err (Inl e)" "\<not> is_err (Inr a)"
  by (simp_all add: is_err_def)

text \<open>The non-nil members of a variadic \<^verbatim>\<open>causes ...error\<close> argument, in order.\<close>

definition non_nil :: "'a option list \<Rightarrow> 'a list" where
  "non_nil xs = List.map_filter (\<lambda>x. x) xs"

lemma non_nil_simps [simp]:
  "non_nil [] = []"
  "non_nil (None # xs) = non_nil xs"
  "non_nil (Some x # xs) = x # non_nil xs"
  by (simp_all add: non_nil_def List.map_filter_def)

lemma set_non_nil: "set (non_nil xs) = {x. Some x \<in> set xs}"
proof (induction xs)
  case Nil
  then show ?case by simp
next
  case (Cons a xs)
  then show ?case by (cases a) auto
qed

lemma length_non_nil: "length (non_nil xs) \<le> length xs"
proof (induction xs)
  case Nil
  then show ?case by simp
next
  case (Cons a xs)
  then show ?case by (cases a) auto
qed

section \<open>Splitting and joining strings\<close>

text \<open>\<^verbatim>\<open>strings.Split\<close> with a one-byte separator: never empty, one more part than
  separators.\<close>

fun split_on :: "char \<Rightarrow> string \<Rightarrow> string list" where
  "split_on c [] = [[]]"
| "split_on c (x # xs) =
     (if x = c then [] # split_on c xs
      else (case split_on c xs of [] \<Rightarrow> [[x]] | y # ys \<Rightarrow> (x # y) # ys))"

fun join_with :: "char \<Rightarrow> string list \<Rightarrow> string" where
  "join_with c [] = []"
| "join_with c [x] = x"
| "join_with c (x # y # ys) = x @ c # join_with c (y # ys)"

lemma split_on_neq_Nil [simp]: "split_on c s \<noteq> []"
  by (induction s) (auto split: list.splits)

lemma split_on_no_sep: "c \<notin> set s \<Longrightarrow> split_on c s = [s]"
  by (induction s) auto

lemma split_on_append: "c \<notin> set s \<Longrightarrow> split_on c (s @ c # t) = s # split_on c t"
  by (induction s) auto

lemma join_split [simp]: "join_with c (split_on c s) = s"
proof (induction s)
  case Nil
  then show ?case by simp
next
  case (Cons x s)
  obtain y ys where s: "split_on c s = y # ys"
    using split_on_neq_Nil by (cases "split_on c s") blast+
  with Cons show ?case by (cases ys) auto
qed

lemma split_join:
  "xs \<noteq> [] \<Longrightarrow> (\<And>x. x \<in> set xs \<Longrightarrow> c \<notin> set x) \<Longrightarrow> split_on c (join_with c xs) = xs"
proof (induction c xs rule: join_with.induct)
  case (3 c x y ys)
  then show ?case by (simp add: split_on_append)
qed (simp_all add: split_on_no_sep)

lemma split_on_parts: "p \<in> set (split_on c s) \<Longrightarrow> c \<notin> set p \<and> set p \<subseteq> set s"
proof (induction s arbitrary: p)
  case Nil
  then show ?case by simp
next
  case (Cons x s)
  obtain y ys where s: "split_on c s = y # ys"
    using split_on_neq_Nil by (cases "split_on c s") blast+
  with Cons.prems Cons.IH [of y] Cons.IH [of p] show ?case
    by (auto split: if_splits)
qed

lemma split_on_length: "p \<in> set (split_on c s) \<Longrightarrow> length p \<le> length s"
proof (induction s arbitrary: p)
  case Nil
  then show ?case by simp
next
  case (Cons x s)
  obtain y ys where s: "split_on c s = y # ys"
    using split_on_neq_Nil by (cases "split_on c s") blast+
  with Cons.prems Cons.IH [of y] Cons.IH [of p] show ?case
    by (auto split: if_splits)
qed

lemma length_split_on: "length (split_on c s) = Suc (count_list s c)"
proof (induction s)
  case Nil
  then show ?case by simp
next
  case (Cons x s)
  obtain y ys where "split_on c s = y # ys"
    using split_on_neq_Nil by (cases "split_on c s") blast+
  with Cons show ?case by auto
qed

text \<open>\<^verbatim>\<open>strings.HasPrefix\<close> and \<^verbatim>\<open>strings.CutPrefix\<close>.\<close>

definition has_prefix :: "string \<Rightarrow> string \<Rightarrow> bool" where
  "has_prefix s p = (take (length p) s = p)"

definition cut_prefix :: "string \<Rightarrow> string \<Rightarrow> string option" where
  "cut_prefix s p = (if has_prefix s p then Some (drop (length p) s) else None)"

lemma cut_prefix_Some [simp]: "cut_prefix s p = Some r \<longleftrightarrow> s = p @ r"
  by (auto simp: cut_prefix_def has_prefix_def) (metis append_take_drop_id)

lemma cut_prefix_append [simp]: "cut_prefix (p @ r) p = Some r"
  by simp

section \<open>Runes\<close>

type_synonym rune = nat

abbreviation byte :: "char \<Rightarrow> nat" where
  "byte c \<equiv> of_char c"

definition RuneError :: rune where
  "RuneError = 0xFFFD"

definition continuation :: "nat \<Rightarrow> nat \<Rightarrow> nat \<Rightarrow> bool" where
  "continuation lo hi b = (lo \<le> b \<and> b \<le> hi)"

text \<open>Decoding of the first rune with its width in bytes, following the table of accepted
  ranges of the language's UTF-8 decoder.\<close>

fun decode2 :: "nat \<Rightarrow> nat list \<Rightarrow> rune \<times> nat" where
  "decode2 b0 (b1 # bs) =
     (if continuation 0x80 0xBF b1 then ((b0 - 0xC0) * 64 + (b1 - 0x80), 2) else (RuneError, 1))"
| "decode2 b0 bs = (RuneError, 1)"

fun decode3 :: "nat \<Rightarrow> nat list \<Rightarrow> rune \<times> nat" where
  "decode3 b0 (b1 # b2 # bs) =
     (if continuation (if b0 = 0xE0 then 0xA0 else 0x80) (if b0 = 0xED then 0x9F else 0xBF) b1
        \<and> continuation 0x80 0xBF b2
      then ((b0 - 0xE0) * 4096 + (b1 - 0x80) * 64 + (b2 - 0x80), 3) else (RuneError, 1))"
| "decode3 b0 bs = (RuneError, 1)"

fun decode4 :: "nat \<Rightarrow> nat list \<Rightarrow> rune \<times> nat" where
  "decode4 b0 (b1 # b2 # b3 # bs) =
     (if continuation (if b0 = 0xF0 then 0x90 else 0x80) (if b0 = 0xF4 then 0x8F else 0xBF) b1
        \<and> continuation 0x80 0xBF b2 \<and> continuation 0x80 0xBF b3
      then ((b0 - 0xF0) * 262144 + (b1 - 0x80) * 4096 + (b2 - 0x80) * 64 + (b3 - 0x80), 4)
      else (RuneError, 1))"
| "decode4 b0 bs = (RuneError, 1)"

fun decode_rune :: "nat list \<Rightarrow> rune \<times> nat" where
  "decode_rune [] = (RuneError, 0)"
| "decode_rune (b0 # bs) =
     (if b0 < 0x80 then (b0, 1)
      else if 0xC2 \<le> b0 \<and> b0 \<le> 0xDF then decode2 b0 bs
      else if 0xE0 \<le> b0 \<and> b0 \<le> 0xEF then decode3 b0 bs
      else if 0xF0 \<le> b0 \<and> b0 \<le> 0xF4 then decode4 b0 bs
      else (RuneError, 1))"

lemma decode2_width [simp]: "0 < snd (decode2 b0 bs)"
  by (induction b0 bs rule: decode2.induct) simp_all

lemma decode3_width [simp]: "0 < snd (decode3 b0 bs)"
  by (induction b0 bs rule: decode3.induct) simp_all

lemma decode4_width [simp]: "0 < snd (decode4 b0 bs)"
  by (induction b0 bs rule: decode4.induct) simp_all

lemma decode2_high: "0xC2 \<le> b0 \<Longrightarrow> 0x80 \<le> fst (decode2 b0 bs)"
  by (induction b0 bs rule: decode2.induct) (auto simp add: RuneError_def)

lemma decode3_high: "0xE0 \<le> b0 \<Longrightarrow> 0x80 \<le> fst (decode3 b0 bs)"
  by (induction b0 bs rule: decode3.induct) (auto simp add: RuneError_def continuation_def)

lemma decode4_high: "0xF0 \<le> b0 \<Longrightarrow> 0x80 \<le> fst (decode4 b0 bs)"
  by (induction b0 bs rule: decode4.induct) (auto simp add: RuneError_def continuation_def)

lemma decode_rune_width: "bs \<noteq> [] \<Longrightarrow> 0 < snd (decode_rune bs)"
  by (cases bs) simp_all

lemma decode_rune_high: "0x80 \<le> b \<Longrightarrow> 0x80 \<le> fst (decode_rune (b # bs))"
  using decode2_high decode3_high decode4_high by (simp add: RuneError_def)

lemma decode_rune_ascii [simp]: "b < 0x80 \<Longrightarrow> decode_rune (b # bs) = (b, 1)"
  by simp

declare decode_rune.simps(2) [simp del]

lemma decode_rune_shorter:
  "(r, n) = decode_rune (b # bs) \<Longrightarrow> length (drop n (b # bs)) < length (b # bs)"
  using decode_rune_width [of "b # bs"] by (cases "decode_rune (b # bs)") (simp add: diff_less)

function rune_list :: "nat list \<Rightarrow> rune list" where
  "rune_list [] = []"
| "rune_list (b # bs) =
     (let (r, n) = decode_rune (b # bs) in r # rune_list (drop n (b # bs)))"
  by pat_completeness auto
termination
proof (relation "measure length")
  fix b bs x r n
  assume "x = decode_rune (b # bs)" and "(r, n) = x"
  then show "(drop n (b # bs), b # bs) \<in> measure length"
    using decode_rune_shorter [of r n b bs] by (simp only: in_measure)
qed simp

definition runes :: "string \<Rightarrow> rune list" where
  "runes s = rune_list (map byte s)"

function valid_bytes :: "nat list \<Rightarrow> bool" where
  "valid_bytes [] = True"
| "valid_bytes (b # bs) =
     (let (r, n) = decode_rune (b # bs)
      in \<not> (r = RuneError \<and> n = 1) \<and> valid_bytes (drop n (b # bs)))"
  by pat_completeness auto
termination
proof (relation "measure length")
  fix b bs x r n
  assume "x = decode_rune (b # bs)" and "(r, n) = x"
  then show "(drop n (b # bs), b # bs) \<in> measure length"
    using decode_rune_shorter [of r n b bs] by (simp only: in_measure)
qed simp

text \<open>\<^verbatim>\<open>utf8.ValidString\<close>.\<close>

definition valid_utf8 :: "string \<Rightarrow> bool" where
  "valid_utf8 s = valid_bytes (map byte s)"

text \<open>A predicate that refuses every rune outside ASCII may be read byte by byte.\<close>

lemma rune_list_all_ascii:
  assumes "\<And>r. 0x80 \<le> r \<Longrightarrow> \<not> P r"
  shows "list_all P (rune_list bs) \<longleftrightarrow> list_all P bs"
proof (induction bs rule: rune_list.induct)
  case 1
  then show ?case by simp
next
  case (2 b bs)
  show ?case
  proof (cases "b < 0x80")
    case True
    with 2 show ?thesis by simp
  next
    case False
    obtain r n where d: "decode_rune (b # bs) = (r, n)" by fastforce
    with False decode_rune_high [of b bs] have "0x80 \<le> r" by simp
    with False d assms show ?thesis by simp
  qed
qed

lemma runes_all_ascii:
  assumes "\<And>r. 0x80 \<le> r \<Longrightarrow> \<not> P r"
  shows "list_all P (runes s) \<longleftrightarrow> list_all (\<lambda>c. P (byte c)) s"
  using rune_list_all_ascii [of P "map byte s", OF assms]
  by (simp add: runes_def list.pred_map comp_def)

lemma valid_bytes_ascii: "list_all (\<lambda>b. b < 0x80) bs \<Longrightarrow> valid_bytes bs"
  by (induction bs) (auto simp: RuneError_def)

lemma rune_list_ascii: "list_all (\<lambda>b. b < 0x80) bs \<Longrightarrow> rune_list bs = bs"
  by (induction bs) auto

text \<open>\<^verbatim>\<open>unicode.IsControl\<close> and \<^verbatim>\<open>unicode.IsSpace\<close>.\<close>

definition IsControl :: "rune \<Rightarrow> bool" where
  "IsControl r = (r < 0x20 \<or> 0x7F \<le> r \<and> r < 0xA0)"

definition IsSpace :: "rune \<Rightarrow> bool" where
  "IsSpace r =
     (r \<in> {0x09, 0x0A, 0x0B, 0x0C, 0x0D, 0x20, 0x85, 0xA0, 0x1680, 0x2028, 0x2029, 0x202F,
       0x205F, 0x3000} \<or> 0x2000 \<le> r \<and> r \<le> 0x200A)"

text \<open>\<^verbatim>\<open>strings.TrimSpace(s) == ""\<close>: every rune is white space.\<close>

definition blank :: "string \<Rightarrow> bool" where
  "blank s = list_all IsSpace (runes s)"

section \<open>Character classes\<close>

definition is_lower :: "rune \<Rightarrow> bool" where
  "is_lower r = (0x61 \<le> r \<and> r \<le> 0x7A)"

definition is_upper :: "rune \<Rightarrow> bool" where
  "is_upper r = (0x41 \<le> r \<and> r \<le> 0x5A)"

definition is_digit :: "rune \<Rightarrow> bool" where
  "is_digit r = (0x30 \<le> r \<and> r \<le> 0x39)"

lemmas char_class_defs = is_lower_def is_upper_def is_digit_def

section \<open>Sums over lists\<close>

lemma sum_list_remove1:
  fixes f :: "'a \<Rightarrow> 'b :: ordered_ab_group_add"
  assumes "x \<in> set xs"
  shows "sum_list (map f (remove1 x xs)) = sum_list (map f xs) - f x"
  using assms by (induction xs) (auto simp: algebra_simps)

lemma sum_list_remove1_nat:
  fixes f :: "'a \<Rightarrow> nat"
  assumes "x \<in> set xs"
  shows "sum_list (map f xs) = sum_list (map f (remove1 x xs)) + f x"
  using assms by (induction xs) auto

lemma sum_list_upd_notin:
  "x \<notin> set xs \<Longrightarrow> (\<Sum>a\<leftarrow>xs. if a = x then v else f a) = sum_list (map f xs)"
  by (induction xs) auto

lemma sum_list_upd_in:
  fixes f :: "'a \<Rightarrow> nat"
  assumes "distinct xs" and "x \<in> set xs"
  shows "sum_list (map (f(x := v)) xs) + f x = sum_list (map f xs) + v"
  using assms
proof (induction xs)
  case Nil
  then show ?case by simp
next
  case (Cons a xs)
  then show ?case
    using sum_list_upd_notin [of x xs v f] by (cases "a = x") (auto simp: fun_upd_def)
qed

lemma sum_list_map_update:
  fixes f :: "'a \<Rightarrow> int"
  shows "i < length xs \<Longrightarrow> sum_list (map f (xs[i := x])) = sum_list (map f xs) - f (xs ! i) + f x"
proof (induction xs arbitrary: i)
  case (Cons a xs)
  then show ?case by (cases i) auto
qed simp

lemma sum_list_map_remove1:
  fixes f :: "'a \<Rightarrow> int"
  shows "x \<in> set xs \<Longrightarrow> sum_list (map f (remove1 x xs)) = sum_list (map f xs) - f x"
  by (induction xs) auto

lemma fold_update_nth:
  assumes "distinct ps" and "\<And>p. p \<in> set ps \<Longrightarrow> p < length xs"
  shows "length (fold (\<lambda>p xs. xs[p := f (xs ! p)]) ps xs) = length xs"
    and "q < length xs \<Longrightarrow> fold (\<lambda>p xs. xs[p := f (xs ! p)]) ps xs ! q = (if q \<in> set ps then f (xs ! q) else xs ! q)"
  using assms by (induction ps arbitrary: xs) (auto simp: nth_list_update)

section \<open>Transition systems\<close>

text \<open>States reachable from an initial state by atomic steps, and the contract of an inductive
  invariant. Each stateful component gives its own initial states, steps and invariant.\<close>

inductive reach :: "('s \<Rightarrow> bool) \<Rightarrow> ('s \<Rightarrow> 's \<Rightarrow> bool) \<Rightarrow> 's \<Rightarrow> bool" for initial step where
  reach_initial: "initial s \<Longrightarrow> reach initial step s"
| reach_step: "reach initial step s \<Longrightarrow> step s t \<Longrightarrow> reach initial step t"

locale transition_system =
  fixes initial :: "'s \<Rightarrow> bool" and step :: "'s \<Rightarrow> 's \<Rightarrow> bool" and inv :: "'s \<Rightarrow> bool"
  assumes initial_inv: "initial s \<Longrightarrow> inv s"
    and step_inv: "inv s \<Longrightarrow> step s t \<Longrightarrow> inv t"
begin

lemma reach_inv: "reach initial step s \<Longrightarrow> inv s"
  by (induction rule: reach.induct) (auto intro: initial_inv step_inv)

lemma steps_inv: "step\<^sup>*\<^sup>* s t \<Longrightarrow> inv s \<Longrightarrow> inv t"
  by (induction rule: rtranclp_induct) (auto intro: step_inv)

text \<open>A relation between the first and the last state of a run that every step extends.\<close>

lemma steps_related:
  assumes "step\<^sup>*\<^sup>* s t" and "inv s" and "R s s"
    and "\<And>u v. inv u \<Longrightarrow> step u v \<Longrightarrow> R s u \<Longrightarrow> R s v"
  shows "R s t"
  using assms(1)
proof (induction rule: rtranclp_induct)
  case base
  show ?case by (rule assms(3))
next
  case (step u v)
  then show ?case using steps_inv [OF step.hyps(1) assms(2)] assms(4) by blast
qed

end

end
