(* ===== verification/Failure_Code.thy ===== *)
theory Failure_Code
  imports Prelude
begin

unbundle bit_operations_syntax

text \<open>
  The numeric identity of a public failure: \<^verbatim>\<open>failure/v1/code.go\<close> (layout, accessors,
  hexadecimal spelling), \<^verbatim>\<open>failure/v1/allocations.go\<close> (facilities and the table of their
  first-party owners) and \<^verbatim>\<open>failure/v1/domains.go\<close> (capability bands). A \<^verbatim>\<open>Code\<close> is a
  32-bit word, a \<^verbatim>\<open>Facility\<close> a 16-bit word, a \<^verbatim>\<open>Domain\<close> a string whose empty value
  means unassigned.
\<close>

type_synonym code = "32 word"
type_synonym facility = "16 word"
type_synonym domain = string

section \<open>Facilities\<close>

abbreviation FirstExtensionFacility :: facility where
  "FirstExtensionFacility \<equiv> 0x400"

abbreviation MaxFacility :: facility where
  "MaxFacility \<equiv> 0x7FF"

abbreviation FacilityFailure :: facility where
  "FacilityFailure \<equiv> 0x001"

abbreviation FacilityI18n :: facility where
  "FacilityI18n \<equiv> 0x003"

abbreviation FacilityResource :: facility where
  "FacilityResource \<equiv> 0x004"

abbreviation FacilityOperation :: facility where
  "FacilityOperation \<equiv> 0x005"

abbreviation FacilitySettings :: facility where
  "FacilitySettings \<equiv> 0x041"

abbreviation FacilityConfigurationData :: facility where
  "FacilityConfigurationData \<equiv> 0x042"

abbreviation FacilityViper :: facility where
  "FacilityViper \<equiv> 0x043"

abbreviation FacilityNacos :: facility where
  "FacilityNacos \<equiv> 0x044"

abbreviation FacilityAssembly :: facility where
  "FacilityAssembly \<equiv> 0x006"

abbreviation FacilityCommandLine :: facility where
  "FacilityCommandLine \<equiv> 0x007"

abbreviation FacilityConfiguration :: facility where
  "FacilityConfiguration \<equiv> 0x045"

abbreviation FacilityProjectCreation :: facility where
  "FacilityProjectCreation \<equiv> 0x00A"

abbreviation FacilityProjectBuild :: facility where
  "FacilityProjectBuild \<equiv> 0x00B"

abbreviation FacilityPostgreSQL :: facility where
  "FacilityPostgreSQL \<equiv> 0x080"

abbreviation FacilityMySQL :: facility where
  "FacilityMySQL \<equiv> 0x081"

abbreviation FacilityDuckDB :: facility where
  "FacilityDuckDB \<equiv> 0x082"

abbreviation FacilityTrino :: facility where
  "FacilityTrino \<equiv> 0x083"

abbreviation FacilityDoris :: facility where
  "FacilityDoris \<equiv> 0x084"

abbreviation FacilityDatabaseControl :: facility where
  "FacilityDatabaseControl \<equiv> 0x085"

abbreviation FacilityMinIO :: facility where
  "FacilityMinIO \<equiv> 0x140"

abbreviation FacilityKafka :: facility where
  "FacilityKafka \<equiv> 0x180"

abbreviation FacilityRedisCache :: facility where
  "FacilityRedisCache \<equiv> 0x100"

abbreviation FacilityRedisMessaging :: facility where
  "FacilityRedisMessaging \<equiv> 0x181"

abbreviation FacilityNetHTTP :: facility where
  "FacilityNetHTTP \<equiv> 0x200"

abbreviation FacilityTLSClient :: facility where
  "FacilityTLSClient \<equiv> 0x201"

abbreviation FacilitySurf :: facility where
  "FacilitySurf \<equiv> 0x202"

abbreviation FacilityHTTPcloak :: facility where
  "FacilityHTTPcloak \<equiv> 0x203"

abbreviation FacilityNuki :: facility where
  "FacilityNuki \<equiv> 0x204"

abbreviation FacilityOTel :: facility where
  "FacilityOTel \<equiv> 0x280"

abbreviation FacilityLogging :: facility where
  "FacilityLogging \<equiv> 0x281"

abbreviation FacilityZap :: facility where
  "FacilityZap \<equiv> 0x282"

abbreviation FacilityZerolog :: facility where
  "FacilityZerolog \<equiv> 0x283"

abbreviation FacilityTemporal :: facility where
  "FacilityTemporal \<equiv> 0x1C0"

abbreviation FacilityWorkflowDeclaration :: facility where
  "FacilityWorkflowDeclaration \<equiv> 0x1C1"

abbreviation FacilityWorkflowCatalog :: facility where
  "FacilityWorkflowCatalog \<equiv> 0x1C2"

abbreviation FacilityWorkflowImplementation :: facility where
  "FacilityWorkflowImplementation \<equiv> 0x1C3"

abbreviation FacilityIceberg :: facility where
  "FacilityIceberg \<equiv> 0x320"

abbreviation FacilityChromedp :: facility where
  "FacilityChromedp \<equiv> 0x300"

abbreviation FacilityMail :: facility where
  "FacilityMail \<equiv> 0x2C0"

abbreviation FacilityLark :: facility where
  "FacilityLark \<equiv> 0x2C1"

abbreviation FacilityWorkflow :: facility where
  "FacilityWorkflow \<equiv> FacilityWorkflowDeclaration"

definition Facility_Valid :: "facility \<Rightarrow> bool" where
  "Facility_Valid facility = (facility > 0 \<and> facility \<le> MaxFacility)"

definition Facility_Extension :: "facility \<Rightarrow> bool" where
  "Facility_Extension facility = (facility \<ge> FirstExtensionFacility \<and> facility \<le> MaxFacility)"

record Allocation =
  alloc_facility :: facility
  alloc_module :: string
  alloc_component :: string

definition Allocations :: "Allocation list" where
  "Allocations =
   [\<lparr>alloc_facility = FacilityFailure, alloc_module = ''fathomry'', alloc_component = ''failure''\<rparr>,
    \<lparr>alloc_facility = FacilityI18n, alloc_module = ''fathomry'', alloc_component = ''i18n''\<rparr>,
    \<lparr>alloc_facility = FacilityResource, alloc_module = ''fathomry'', alloc_component = ''resource''\<rparr>,
    \<lparr>alloc_facility = FacilityOperation, alloc_module = ''fathomry'', alloc_component = ''operation''\<rparr>,
    \<lparr>alloc_facility = FacilitySettings, alloc_module = ''fathomry'', alloc_component = ''settings''\<rparr>,
    \<lparr>alloc_facility = FacilityConfigurationData, alloc_module = ''fathomry'', alloc_component = ''configuration_data''\<rparr>,
    \<lparr>alloc_facility = FacilityViper, alloc_module = ''fathomry'', alloc_component = ''configsource_viper''\<rparr>,
    \<lparr>alloc_facility = FacilityNacos, alloc_module = ''fathomry'', alloc_component = ''configsource_nacos''\<rparr>,
    \<lparr>alloc_facility = FacilityAssembly, alloc_module = ''fathomry'', alloc_component = ''assembly''\<rparr>,
    \<lparr>alloc_facility = FacilityConfiguration, alloc_module = ''fathomry'', alloc_component = ''configuration''\<rparr>,
    \<lparr>alloc_facility = FacilityCommandLine, alloc_module = ''fathomry'', alloc_component = ''command_line''\<rparr>,
    \<lparr>alloc_facility = FacilityProjectCreation, alloc_module = ''fathomry'', alloc_component = ''project_creation''\<rparr>,
    \<lparr>alloc_facility = FacilityPostgreSQL, alloc_module = ''fathomry'', alloc_component = ''database_postgres''\<rparr>,
    \<lparr>alloc_facility = FacilityMySQL, alloc_module = ''fathomry'', alloc_component = ''database_mysql''\<rparr>,
    \<lparr>alloc_facility = FacilityTrino, alloc_module = ''fathomry'', alloc_component = ''database_trino''\<rparr>,
    \<lparr>alloc_facility = FacilityDoris, alloc_module = ''fathomry'', alloc_component = ''database_doris''\<rparr>,
    \<lparr>alloc_facility = FacilityMinIO, alloc_module = ''fathomry'', alloc_component = ''objectstore_minio''\<rparr>,
    \<lparr>alloc_facility = FacilityIceberg, alloc_module = ''fathomry'', alloc_component = ''tableformat_iceberg''\<rparr>,
    \<lparr>alloc_facility = FacilityChromedp, alloc_module = ''fathomry'', alloc_component = ''browser_chromedp''\<rparr>,
    \<lparr>alloc_facility = FacilityKafka, alloc_module = ''fathomry'', alloc_component = ''broker_kafka''\<rparr>,
    \<lparr>alloc_facility = FacilityRedisCache, alloc_module = ''fathomry'', alloc_component = ''cache_redis''\<rparr>,
    \<lparr>alloc_facility = FacilityRedisMessaging, alloc_module = ''fathomry'', alloc_component = ''messaging_redis''\<rparr>,
    \<lparr>alloc_facility = FacilityDuckDB, alloc_module = ''fathomry'', alloc_component = ''database_duckdb''\<rparr>,
    \<lparr>alloc_facility = FacilityNetHTTP, alloc_module = ''fathomry'', alloc_component = ''http_nethttp''\<rparr>,
    \<lparr>alloc_facility = FacilityTLSClient, alloc_module = ''fathomry'', alloc_component = ''http_tlsclient''\<rparr>,
    \<lparr>alloc_facility = FacilitySurf, alloc_module = ''fathomry'', alloc_component = ''http_surf''\<rparr>,
    \<lparr>alloc_facility = FacilityHTTPcloak, alloc_module = ''fathomry'', alloc_component = ''http_httpcloak''\<rparr>,
    \<lparr>alloc_facility = FacilityNuki, alloc_module = ''fathomry'', alloc_component = ''http_nuki''\<rparr>,
    \<lparr>alloc_facility = FacilityOTel, alloc_module = ''fathomry'', alloc_component = ''telemetry_otel''\<rparr>,
    \<lparr>alloc_facility = FacilityLogging, alloc_module = ''fathomry'', alloc_component = ''logging''\<rparr>,
    \<lparr>alloc_facility = FacilityZap, alloc_module = ''fathomry'', alloc_component = ''logging_zap''\<rparr>,
    \<lparr>alloc_facility = FacilityZerolog, alloc_module = ''fathomry'', alloc_component = ''logging_zerolog''\<rparr>,
    \<lparr>alloc_facility = FacilityTemporal, alloc_module = ''fathomry'', alloc_component = ''temporal''\<rparr>,
    \<lparr>alloc_facility = FacilityWorkflowDeclaration, alloc_module = ''fathomry'', alloc_component = ''workflow''\<rparr>,
    \<lparr>alloc_facility = FacilityWorkflowCatalog, alloc_module = ''fathomry'', alloc_component = ''workflow_catalog''\<rparr>,
    \<lparr>alloc_facility = FacilityWorkflowImplementation, alloc_module = ''fathomry'', alloc_component = ''workflow_implementation''\<rparr>,
    \<lparr>alloc_facility = FacilityDatabaseControl, alloc_module = ''fathomry'', alloc_component = ''database_control''\<rparr>,
    \<lparr>alloc_facility = FacilityProjectBuild, alloc_module = ''fathomry'', alloc_component = ''project_build''\<rparr>,
    \<lparr>alloc_facility = FacilityMail, alloc_module = ''fathomry'', alloc_component = ''notification_mail''\<rparr>,
    \<lparr>alloc_facility = FacilityLark, alloc_module = ''fathomry'', alloc_component = ''notification_lark''\<rparr>]"

section \<open>Capability domains\<close>

abbreviation DomainCore :: domain where
  "DomainCore \<equiv> ''core''"

abbreviation DomainConfiguration :: domain where
  "DomainConfiguration \<equiv> ''configuration''"

abbreviation DomainDatabase :: domain where
  "DomainDatabase \<equiv> ''database''"

abbreviation DomainCache :: domain where
  "DomainCache \<equiv> ''cache''"

abbreviation DomainObjectStorage :: domain where
  "DomainObjectStorage \<equiv> ''object_storage''"

abbreviation DomainMessaging :: domain where
  "DomainMessaging \<equiv> ''messaging''"

abbreviation DomainOrchestration :: domain where
  "DomainOrchestration \<equiv> ''orchestration''"

abbreviation DomainNetwork :: domain where
  "DomainNetwork \<equiv> ''network''"

abbreviation DomainObservability :: domain where
  "DomainObservability \<equiv> ''observability''"

abbreviation DomainNotification :: domain where
  "DomainNotification \<equiv> ''notification''"

abbreviation DomainBrowser :: domain where
  "DomainBrowser \<equiv> ''browser''"

abbreviation DomainTableFormat :: domain where
  "DomainTableFormat \<equiv> ''table_format''"

abbreviation DomainApplication :: domain where
  "DomainApplication \<equiv> ''application''"

record DomainRange =
  range_domain :: domain
  range_first :: facility
  range_last :: facility

definition Domains :: "DomainRange list" where
  "Domains =
   [\<lparr>range_domain = DomainCore, range_first = 0x000, range_last = 0x03F\<rparr>,
    \<lparr>range_domain = DomainConfiguration, range_first = 0x040, range_last = 0x07F\<rparr>,
    \<lparr>range_domain = DomainDatabase, range_first = 0x080, range_last = 0x0FF\<rparr>,
    \<lparr>range_domain = DomainCache, range_first = 0x100, range_last = 0x13F\<rparr>,
    \<lparr>range_domain = DomainObjectStorage, range_first = 0x140, range_last = 0x17F\<rparr>,
    \<lparr>range_domain = DomainMessaging, range_first = 0x180, range_last = 0x1BF\<rparr>,
    \<lparr>range_domain = DomainOrchestration, range_first = 0x1C0, range_last = 0x1FF\<rparr>,
    \<lparr>range_domain = DomainNetwork, range_first = 0x200, range_last = 0x27F\<rparr>,
    \<lparr>range_domain = DomainObservability, range_first = 0x280, range_last = 0x2BF\<rparr>,
    \<lparr>range_domain = DomainNotification, range_first = 0x2C0, range_last = 0x2FF\<rparr>,
    \<lparr>range_domain = DomainBrowser, range_first = 0x300, range_last = 0x31F\<rparr>,
    \<lparr>range_domain = DomainTableFormat, range_first = 0x320, range_last = 0x33F\<rparr>,
    \<lparr>range_domain = DomainApplication, range_first = 0x340, range_last = 0x37F\<rparr>]"

fun band_of :: "DomainRange list \<Rightarrow> facility \<Rightarrow> domain" where
  "band_of [] base = []"
| "band_of (band # bands) base =
     (if base \<ge> range_first band \<and> base \<le> range_last band then range_domain band
      else band_of bands base)"

definition Facility_Domain :: "facility \<Rightarrow> domain" where
  "Facility_Domain facility =
     (if \<not> Facility_Valid facility then []
      else band_of Domains
        (if Facility_Extension facility then facility - FirstExtensionFacility else facility))"

section \<open>Codes\<close>

definition ErrorPrefix :: code where
  "ErrorPrefix = 0xA0000000"

text \<open>The constant expression \<^verbatim>\<open>ErrorPrefix | Code(facility)<<16 | number\<close>.\<close>

definition compose_code :: "facility \<Rightarrow> 16 word \<Rightarrow> code" where
  "compose_code facility number = ErrorPrefix OR push_bit 16 (ucast facility) OR ucast number"

definition Code_Valid :: "code \<Rightarrow> bool" where
  "Code_Valid code =
     (code AND 0xF8000000 = ErrorPrefix \<and> code AND 0x07FF0000 \<noteq> 0 \<and> code AND 0xFFFF \<noteq> 0)"

definition Code_Facility :: "code \<Rightarrow> facility" where
  "Code_Facility code =
     (if \<not> Code_Valid code then 0 else ucast (drop_bit 16 code AND 0x7FF))"

definition Code_Number :: "code \<Rightarrow> 16 word" where
  "Code_Number code = (if \<not> Code_Valid code then 0 else ucast (code AND 0xFFFF))"

definition Code_Domain :: "code \<Rightarrow> domain" where
  "Code_Domain code = Facility_Domain (Code_Facility code)"

section \<open>Hexadecimal spelling\<close>

text \<open>\<^verbatim>\<open>strconv.FormatUint(n, 16)\<close> and \<^verbatim>\<open>strings.ToUpper\<close> on its digits.\<close>

definition hex_digit :: "nat \<Rightarrow> char" where
  "hex_digit d = (if d < 10 then char_of (0x30 + d) else char_of (0x57 + d))"

fun format_hex :: "nat \<Rightarrow> string" where
  "format_hex n =
     (if n < 16 then [hex_digit n] else format_hex (n div 16) @ [hex_digit (n mod 16)])"

declare format_hex.simps [simp del]

definition ascii_upper :: "char \<Rightarrow> char" where
  "ascii_upper c = (if is_lower (byte c) then char_of (byte c - 0x20) else c)"

definition Code_String :: "code \<Rightarrow> string" where
  "Code_String code =
     (let digits = map ascii_upper (format_hex (unat code))
      in ''0x'' @ replicate (8 - length digits) (CHR ''0'') @ digits)"

definition Code_Error :: "code \<Rightarrow> string" where
  "Code_Error code = (if \<not> Code_Valid code then ''failure: invalid code'' else Code_String code)"

section \<open>Reading digits back\<close>

text \<open>\<^verbatim>\<open>strconv.ParseUint(digits, base, 32)\<close> on digits of the base: the value, or a range
  error beyond 32 bits.\<close>

definition digit_value :: "char \<Rightarrow> nat" where
  "digit_value c =
     (let b = byte c in
      if is_digit b then b - 0x30
      else if 0x61 \<le> b \<and> b \<le> 0x66 then b - 0x57
      else b - 0x37)"

definition digits_value :: "nat \<Rightarrow> string \<Rightarrow> nat" where
  "digits_value base digits = foldl (\<lambda>acc c. acc * base + digit_value c) 0 digits"

definition ParseUint32 :: "nat \<Rightarrow> string \<Rightarrow> nat option" where
  "ParseUint32 base digits =
     (let n = digits_value base digits in if n < 2 ^ 32 then Some n else None)"

definition accepted_digit :: "nat \<Rightarrow> rune \<Rightarrow> bool" where
  "accepted_digit base r =
     (is_digit r \<or> base = 16 \<and> (0x61 \<le> r \<and> r \<le> 0x66 \<or> 0x41 \<le> r \<and> r \<le> 0x46))"

section \<open>The bit layout\<close>

lemma layout_masks:
  "(0xF8000000 :: code) = push_bit 27 (mask 5)"
  "(0x07FF0000 :: code) = push_bit 16 (mask 11)"
  "(0xFFFF :: code) = mask 16"
  "(0x7FF :: code) = mask 11"
  by (simp_all add: mask_eq_exp_minus_1)

lemma prefix_bits: "bit ErrorPrefix k \<longleftrightarrow> k = 29 \<or> k = 31"
proof -
  have e: "ErrorPrefix = push_bit 29 1 OR push_bit 31 1"
    by (simp add: ErrorPrefix_def)
  show ?thesis
    unfolding e by (auto simp only: bit_or_iff bit_push_bit_iff bit_1_iff) auto
qed

lemma nonzero_bit: "(x :: 'a::len word) \<noteq> 0 \<longleftrightarrow> (\<exists>k. bit x k)"
  by (auto simp: bit_eq_iff intro: bit_imp_le_length)

lemma number_bits: "bit (n :: 16 word) k \<Longrightarrow> k < 16"
  using bit_imp_le_length [of n k] by simp

lemma facility_bits: "f \<le> MaxFacility \<Longrightarrow> bit f k \<Longrightarrow> k < 11"
proof (rule ccontr)
  assume f: "f \<le> MaxFacility" and b: "bit f k" and k: "\<not> k < 11"
  have "unat (f div 2048) = 0"
    using f by (simp add: word_le_nat_alt unat_div_distrib)
  then have "drop_bit 11 f = 0" by (simp add: drop_bit_eq_div unat_eq_zero)
  moreover from b k have "bit (drop_bit 11 f) (k - 11)" by (simp add: bit_drop_bit_eq)
  ultimately show False by simp
qed

lemma compose_code_fields:
  "compose_code f n AND 0xFFFF = ucast n"
  "f \<le> MaxFacility \<Longrightarrow> compose_code f n AND 0x07FF0000 = push_bit 16 (ucast f)"
  "f \<le> MaxFacility \<Longrightarrow> compose_code f n AND 0xF8000000 = ErrorPrefix"
  "f \<le> MaxFacility \<Longrightarrow> ucast (drop_bit 16 (compose_code f n) AND 0x7FF) = f"
  unfolding compose_code_def layout_masks
  by (rule bit_word_eqI, auto simp: bit_simps prefix_bits dest: number_bits facility_bits)+

lemma compose_code_split:
  assumes "code AND 0xF8000000 = ErrorPrefix"
  shows "compose_code (ucast (drop_bit 16 code AND 0x7FF)) (ucast (code AND 0xFFFF)) = code"
proof (rule bit_word_eqI)
  fix k
  assume k: "k < LENGTH(32)"
  from assms have "bit (code AND 0xF8000000) k = bit ErrorPrefix k" by simp
  then have "27 \<le> k \<Longrightarrow> bit code k \<longleftrightarrow> k = 29 \<or> k = 31"
    using k unfolding layout_masks by (auto simp: bit_simps prefix_bits)
  with k show "bit (compose_code (ucast (drop_bit 16 code AND 0x7FF)) (ucast (code AND 0xFFFF))) k
      = bit code k"
    unfolding compose_code_def layout_masks
    by (cases "27 \<le> k") (auto simp: bit_simps prefix_bits)
qed

lemma ucast_number [simp]: "ucast (ucast n :: code) = (n :: 16 word)"
  by (rule bit_word_eqI) (auto simp: bit_simps dest: number_bits)

lemma facility_field_le: "(ucast (drop_bit 16 (code :: code) AND 0x7FF) :: facility) \<le> MaxFacility"
proof -
  have "drop_bit 16 code AND 0x7FF \<le> 0x7FF" by (rule word_and_le1)
  then have "unat (drop_bit 16 code AND 0x7FF) \<le> 2047" by (simp add: word_le_nat_alt)
  then show ?thesis
    by (simp add: word_le_nat_alt unsigned_ucast_eq) (rule le_trans [OF take_bit_nat_less_eq_self])
qed

lemma facility_field_nonzero:
  assumes "(code :: code) AND 0x07FF0000 \<noteq> 0"
  shows "(ucast (drop_bit 16 code AND 0x7FF) :: facility) \<noteq> 0"
proof -
  from assms obtain k where "16 \<le> k" "k - 16 < 11" "bit code k"
    unfolding layout_masks nonzero_bit by (auto simp: bit_simps)
  then have "bit (ucast (drop_bit 16 code AND 0x7FF) :: facility) (k - 16)"
    unfolding layout_masks by (simp add: bit_simps)
  then show ?thesis unfolding nonzero_bit by blast
qed

lemma number_field_nonzero:
  "(code :: code) AND 0xFFFF \<noteq> 0 \<Longrightarrow> (ucast (code AND 0xFFFF) :: 16 word) \<noteq> 0"
  unfolding layout_masks nonzero_bit by (auto simp: bit_simps)

lemma shifted_facility_nonzero:
  assumes "(f :: facility) \<noteq> 0"
  shows "push_bit 16 (ucast f) \<noteq> (0 :: code)"
proof -
  from assms obtain k where "bit f k" "k < 16"
    unfolding nonzero_bit using number_bits by blast
  then have "bit (push_bit 16 (ucast f) :: code) (k + 16)" by (simp add: bit_simps)
  then show ?thesis unfolding nonzero_bit by blast
qed

lemma number_nonzero: "(n :: 16 word) \<noteq> 0 \<Longrightarrow> (ucast n :: code) \<noteq> 0"
  by (metis ucast_number unsigned_0)

lemma compose_code_valid [simp]:
  "Facility_Valid f \<Longrightarrow> n \<noteq> 0 \<Longrightarrow> Code_Valid (compose_code f n)"
  using shifted_facility_nonzero [of f]
  by (auto simp: Code_Valid_def Facility_Valid_def compose_code_fields number_nonzero)

lemma Code_Facility_compose [simp]:
  "Facility_Valid f \<Longrightarrow> n \<noteq> 0 \<Longrightarrow> Code_Facility (compose_code f n) = f"
  using compose_code_fields(4) [of f n] compose_code_valid [of f n]
  by (simp add: Code_Facility_def Facility_Valid_def)

lemma Code_Number_compose [simp]:
  "Facility_Valid f \<Longrightarrow> n \<noteq> 0 \<Longrightarrow> Code_Number (compose_code f n) = n"
  by (simp add: Code_Number_def compose_code_fields)

lemma Code_fields_valid:
  assumes "Code_Valid code"
  shows "Facility_Valid (Code_Facility code)" and "Code_Number code \<noteq> 0"
  using assms facility_field_nonzero [of code] facility_field_le [of code]
    number_field_nonzero [of code]
  by (auto simp: Code_Facility_def Code_Number_def Facility_Valid_def Code_Valid_def
      word_neq_0_conv)

lemma compose_code_fields_id [simp]:
  "Code_Valid code \<Longrightarrow> compose_code (Code_Facility code) (Code_Number code) = code"
  using compose_code_split [of code]
  by (simp add: Code_Facility_def Code_Number_def Code_Valid_def)

section \<open>Hexadecimal digits\<close>

lemma hex_digit_value: "d < 16 \<Longrightarrow> digit_value (ascii_upper (hex_digit d)) = d"
  by (auto simp: digit_value_def ascii_upper_def hex_digit_def char_class_defs Let_def)

lemma hex_digit_accepted: "d < 16 \<Longrightarrow> accepted_digit 16 (byte (ascii_upper (hex_digit d)))"
  by (auto simp: accepted_digit_def ascii_upper_def hex_digit_def char_class_defs)

lemma digits_value_append:
  "digits_value b (xs @ [c]) = digits_value b xs * b + digit_value c"
  by (simp add: digits_value_def)

lemma digits_value_zeros: "digits_value b (replicate k (CHR ''0'') @ xs) = digits_value b xs"
proof (induction k)
  case 0
  then show ?case by simp
next
  case (Suc k)
  then show ?case by (simp add: digits_value_def digit_value_def char_class_defs)
qed

lemma format_hex_value: "digits_value 16 (map ascii_upper (format_hex n)) = n"
proof (induction n rule: format_hex.induct)
  case (1 n)
  show ?case
  proof (cases "n < 16")
    case True
    then show ?thesis
      by (simp add: format_hex.simps [of n] digits_value_def hex_digit_value)
  next
    case False
    with 1 show ?thesis
      by (simp add: format_hex.simps [of n] digits_value_append hex_digit_value)
  qed
qed

lemma format_hex_accepted:
  "list_all (\<lambda>c. accepted_digit 16 (byte c)) (map ascii_upper (format_hex n))"
proof (induction n rule: format_hex.induct)
  case (1 n)
  then show ?case
    by (cases "n < 16") (simp_all add: format_hex.simps [of n] hex_digit_accepted)
qed

lemma format_hex_length: "n < 16 ^ Suc k \<Longrightarrow> length (format_hex n) \<le> Suc k"
proof (induction k arbitrary: n)
  case 0
  then show ?case by (simp add: format_hex.simps [of n])
next
  case (Suc k)
  then have "n div 16 < 16 ^ Suc k" by (simp add: less_mult_imp_div_less)
  then show ?case using Suc.IH [of "n div 16"] by (simp add: format_hex.simps [of n])
qed

lemma format_hex_code_length: "length (format_hex (unat (code :: code))) \<le> 8"
  using format_hex_length [of "unat code" 7] unsigned_less [of code] by simp

lemma format_hex_nonempty [simp]: "format_hex n \<noteq> []"
  by (simp add: format_hex.simps [of n])

text \<open>The digits after the prefix: eight of them, accepted, worth the code.\<close>

lemma Code_String_digits:
  obtains digits where "Code_String code = ''0x'' @ digits" and "length digits = 8"
    and "list_all (\<lambda>c. accepted_digit 16 (byte c)) digits"
    and "digits_value 16 digits = unat code"
proof
  let ?d = "map ascii_upper (format_hex (unat code))"
  let ?digits = "replicate (8 - length ?d) (CHR ''0'') @ ?d"
  show "Code_String code = ''0x'' @ ?digits"
    by (simp add: Code_String_def Let_def)
  show "length ?digits = 8"
    using format_hex_code_length [of code] by simp
  show "list_all (\<lambda>c. accepted_digit 16 (byte c)) ?digits"
    using format_hex_accepted [of "unat code"]
    by (auto simp: list_all_iff accepted_digit_def char_class_defs)
  show "digits_value 16 ?digits = unat code"
    by (simp add: digits_value_zeros format_hex_value)
qed

section \<open>Bands and owners\<close>

lemma band_of_Domains: "band_of Domains base \<noteq> [] \<longleftrightarrow> base \<le> 0x37F"
  by (simp add: Domains_def word_le_nat_alt)

lemma Facility_Domain_assigned:
  "Facility_Domain f \<noteq> [] \<longleftrightarrow> 0 < f \<and> f \<le> 0x37F \<or> 0x400 \<le> f \<and> f \<le> 0x77F"
proof (cases "Facility_Extension f")
  case True
  then have "f - 0x400 \<le> 0x37F \<longleftrightarrow> f \<le> 0x77F"
    by (auto simp: Facility_Extension_def word_le_nat_alt unat_sub)
  with True show ?thesis
    by (auto simp: Facility_Domain_def band_of_Domains Facility_Valid_def Facility_Extension_def
        word_le_nat_alt word_less_nat_alt)
next
  case False
  then show ?thesis
    by (auto simp: Facility_Domain_def band_of_Domains Facility_Valid_def Facility_Extension_def
        word_le_nat_alt word_less_nat_alt)
qed

lemma Facility_Domain_mirror:
  assumes "0 < f" and "f < FirstExtensionFacility"
  shows "Facility_Domain (f + FirstExtensionFacility) = Facility_Domain f"
proof -
  from assms have u: "unat (f + 0x400) = unat f + 0x400"
    by (subst unat_add_lem [THEN iffD1]) (auto simp: word_less_nat_alt)
  from assms have "Facility_Extension (f + 0x400)" "Facility_Valid (f + 0x400)"
      "\<not> Facility_Extension f" "Facility_Valid f"
    by (auto simp: Facility_Extension_def Facility_Valid_def word_le_nat_alt word_less_nat_alt u)
  then show ?thesis by (simp add: Facility_Domain_def)
qed

lemma Allocations_assigned:
  "list_all (\<lambda>a. Facility_Domain (alloc_facility a) \<noteq> [] \<and> alloc_facility a < FirstExtensionFacility)
     Allocations"
  by (simp add: Facility_Domain_assigned Allocations_def)

lemma Allocations_facilities: "distinct (map alloc_facility Allocations)"
  by (simp add: Allocations_def)

lemma Allocations_owners: "distinct (map (\<lambda>a. (alloc_module a, alloc_component a)) Allocations)"
  by (simp add: Allocations_def)

end
