(* ===== verification/Failure_Error.thy ===== *)
theory Failure_Error
  imports Failure_Code
begin

text \<open>
  Declarations and occurrences of public failures: \<^verbatim>\<open>failure/v1/options.go\<close> (declaration
  syntax), \<^verbatim>\<open>failure/v1/definitions.go\<close> (the package's own declarations),
  \<^verbatim>\<open>failure/v1/error.go\<close> and \<^verbatim>\<open>failure/v1/details.go\<close> (occurrences, causes, matching)
  and the checked constructors and text codec of \<^verbatim>\<open>failure/v1/code.go\<close>.
\<close>

section \<open>Declarations\<close>

abbreviation MaxIdentifierBytes :: nat where
  "MaxIdentifierBytes \<equiv> 192"

abbreviation MaxMessageBytes :: nat where
  "MaxMessageBytes \<equiv> 512"

abbreviation MaxDescriptionBytes :: nat where
  "MaxDescriptionBytes \<equiv> 4096"

abbreviation MaxCauses :: nat where
  "MaxCauses \<equiv> 32"

record Contract =
  contract_id :: string
  contract_version :: "32 word"

record Definition =
  def_code :: code
  def_identifier :: string
  def_module :: string
  def_component :: string
  def_revision :: "32 word"
  def_message :: string
  def_description :: string
  def_details :: Contract

record Location =
  loc_operation :: string
  loc_instance :: string

record Diagnostic =
  diag_definition :: Definition
  diag_location :: Location
  diag_cause_count :: nat

abbreviation ErrCode :: code where
  "ErrCode \<equiv> compose_code FacilityFailure 0x0001"

abbreviation ErrDefinition :: code where
  "ErrDefinition \<equiv> compose_code FacilityFailure 0x0002"

abbreviation ErrLocation :: code where
  "ErrLocation \<equiv> compose_code FacilityFailure 0x0003"

abbreviation ErrDetails :: code where
  "ErrDetails \<equiv> compose_code FacilityFailure 0x0004"

abbreviation ErrLimit :: code where
  "ErrLimit \<equiv> compose_code FacilityFailure 0x0005"

abbreviation ErrCatalog :: code where
  "ErrCatalog \<equiv> compose_code FacilityFailure 0x0006"

abbreviation ErrSerialization :: code where
  "ErrSerialization \<equiv> compose_code FacilityFailure 0x0007"

section \<open>Declaration syntax\<close>

definition instance_rune :: "rune \<Rightarrow> bool" where
  "instance_rune r =
     (is_lower r \<or> is_upper r \<or> is_digit r \<or> r = 0x2E \<or> r = 0x5F \<or> r = 0x2D)"

definition instanceLabel :: "string \<Rightarrow> bool" where
  "instanceLabel value = (length value \<le> 128 \<and> list_all instance_rune (runes value))"

definition label_rune :: "rune \<Rightarrow> bool" where
  "label_rune r = (is_lower r \<or> is_digit r \<or> r = 0x5F \<or> r = 0x2D)"

definition label :: "string \<Rightarrow> nat \<Rightarrow> bool" where
  "label value maximum =
     (case value of
        [] \<Rightarrow> False
      | c # rest \<Rightarrow>
          length value \<le> maximum \<and> is_lower (byte c) \<and> list_all label_rune (runes rest))"

definition namespace :: "string \<Rightarrow> nat \<Rightarrow> bool" where
  "namespace value maximum =
     (length value \<noteq> 0 \<and> length value \<le> maximum \<and>
      list_all (\<lambda>part. label part maximum) (split_on (CHR ''.'') value))"

definition Identifier_Valid :: "string \<Rightarrow> bool" where
  "Identifier_Valid identifier =
     (namespace identifier MaxIdentifierBytes \<and> CHR ''.'' \<in> set identifier)"

definition safeText :: "string \<Rightarrow> nat \<Rightarrow> bool \<Rightarrow> bool" where
  "safeText value maximum multiline =
     (value \<noteq> [] \<and> length value \<le> maximum \<and> valid_utf8 value \<and> \<not> blank value \<and>
      list_all (\<lambda>r. \<not> (IsControl r \<and> \<not> (multiline \<and> (r = 0x0A \<or> r = 0x09)))) (runes value))"

fun allocated_to :: "Allocation list \<Rightarrow> facility \<Rightarrow> Definition \<Rightarrow> bool" where
  "allocated_to [] f d = False"
| "allocated_to (a # as) f d =
     (if f = alloc_facility a then def_module d = alloc_module a \<and> def_component d = alloc_component a
      else allocated_to as f d)"

definition ownsFacility :: "Definition \<Rightarrow> bool" where
  "ownsFacility d =
     (let f = Code_Facility (def_code d) in
      if Facility_Domain f = [] then False
      else if Facility_Extension f then
        def_module d \<noteq> ''fathomry'' \<and> \<not> has_prefix (def_module d) ''fathomry.''
      else allocated_to Allocations f d)"

definition validateDefinition :: "Definition \<Rightarrow> code" where
  "validateDefinition d =
     (if \<not> Code_Valid (def_code d) then ErrCode
      else if \<not> namespace (def_module d) 128 \<or> \<not> namespace (def_component d) 64 \<or>
        \<not> Identifier_Valid (def_identifier d) \<or> def_revision d = 0 \<or> \<not> ownsFacility d \<or>
        \<not> safeText (def_message d) MaxMessageBytes False \<or>
        def_description d \<noteq> [] \<and> \<not> safeText (def_description d) MaxDescriptionBytes True
      then ErrDefinition
      else
        (let prefix = def_module d @ ''.'' @ def_component d @ ''.'' in
         case cut_prefix (def_identifier d) prefix of
           None \<Rightarrow> ErrDefinition
         | Some reason \<Rightarrow>
             if \<not> label reason 64 then ErrDefinition
             else if contract_id (def_details d) = [] then
               (if contract_version (def_details d) \<noteq> 0 then ErrDefinition else 0)
             else
               (case cut_prefix (contract_id (def_details d)) prefix of
                  None \<Rightarrow> ErrDefinition
                | Some name \<Rightarrow>
                    if \<not> Identifier_Valid (contract_id (def_details d)) \<or> \<not> label name 64 \<or>
                      contract_version (def_details d) = 0
                    then ErrDefinition else 0)))"

definition Definition_Valid :: "Definition \<Rightarrow> bool" where
  "Definition_Valid d = (validateDefinition d = 0)"

definition Location_Valid :: "Location \<Rightarrow> bool" where
  "Location_Valid l =
     ((loc_operation l = [] \<or> namespace (loc_operation l) 64) \<and>
      (loc_instance l = [] \<or> instanceLabel (loc_instance l)))"

definition definitionBytes :: "Definition \<Rightarrow> nat" where
  "definitionBytes d =
     64 + length (def_identifier d) + length (def_module d) + length (def_component d) +
     length (def_message d) + length (def_description d) + length (contract_id (def_details d))"

section \<open>The package's own declarations\<close>

definition builtin_text :: "code \<Rightarrow> string \<times> string \<times> string" where
  "builtin_text code =
     (if code = ErrCode then
        (''invalid_code'', ''The public error code is invalid.'',
         ''Use the 32-bit customer-failure layout with a nonzero facility and local number, or its unsigned decimal/hexadecimal spelling.'')
      else if code = ErrDefinition then
        (''invalid_definition'', ''The error definition is invalid or conflicts with another definition.'',
         ''Codes and symbols must be unique, first-party allocations must match their owners, and each catalog facility must identify exactly one module/component.'')
      else if code = ErrLocation then
        (''invalid_location'', ''The error location is invalid.'',
         ''Operation and instance labels must be bounded non-secret identifiers; empty labels explicitly mean unspecified.'')
      else if code = ErrDetails then
        (''invalid_details'', ''The error detail contract or copy function is invalid.'',
         ''Declare the component-owned detail contract and provide its explicit copy function; failure does not prescribe the detail field types.'')
      else if code = ErrLimit then
        (''limit_exceeded'', ''The error contract exceeds a supported bound.'',
         ''The rejected definition set, cause slots or shared metadata exceeded an explicit count or byte allowance.'')
      else if code = ErrCatalog then
        (''invalid_catalog'', ''The error definition catalog is not prepared.'',
         ''Prepare an explicit catalog before querying it; no global registry or fallback catalog is selected.'')
      else if code = ErrSerialization then
        (''runtime_serialization'', ''Runtime error serialization is unsupported.'',
         ''Native Go causes and runtime details do not define a portable or durable error protocol.'')
      else ([], [], []))"

definition builtin :: "code \<Rightarrow> Definition" where
  "builtin code =
     (case builtin_text code of (name, message, description) \<Rightarrow>
        \<lparr>def_code = code, def_identifier = ''fathomry.failure.'' @ name,
         def_module = ''fathomry'', def_component = ''failure'', def_revision = 1,
         def_message = message, def_description = description,
         def_details = \<lparr>contract_id = [], contract_version = 0\<rparr>\<rparr>)"

definition Definitions_failure :: "Definition list" where
  "Definitions_failure =
     map builtin [ErrCode, ErrDefinition, ErrLocation, ErrDetails, ErrLimit, ErrCatalog,
       ErrSerialization]"

section \<open>Occurrences\<close>

text \<open>
  The Go \<^verbatim>\<open>error\<close> values the packages handle: a foreign error with whatever it unwraps to,
  a bare \<^verbatim>\<open>Code\<close>, a \<^verbatim>\<open>*failure.Error\<close> (its frozen diagnostic and cause slots), a
  \<^verbatim>\<open>*failure.Detailed[T]\<close> (the same core and its details), nil and zero handles of these
  types, and the result of \<^verbatim>\<open>errors.Join\<close>.
\<close>

datatype (dead 'd) go_error =
    Native nat "'d go_error list"
  | CodeError code
  | Failure Diagnostic "'d go_error list"
  | Detailed Diagnostic "'d go_error list" 'd
  | NilFailure
  | ZeroFailure
  | NilDetailed
  | Joined "'d go_error list"

abbreviation no_location :: Location where
  "no_location \<equiv> \<lparr>loc_operation = [], loc_instance = []\<rparr>"

definition reject :: "code \<Rightarrow> 'd go_error" where
  "reject code =
     Failure \<lparr>diag_definition = builtin code, diag_location = no_location, diag_cause_count = 0\<rparr> []"

definition New :: "Definition \<Rightarrow> Location \<Rightarrow> 'd go_error option list \<Rightarrow> 'd go_error + 'd go_error"
  where
  "New d l causes =
     (let problem = validateDefinition d in
      if problem \<noteq> 0 then Inl (reject problem)
      else if \<not> Location_Valid l then Inl (reject ErrLocation)
      else if length causes > MaxCauses then Inl (reject ErrLimit)
      else
        (let kept = non_nil causes in
         Inr (Failure
           \<lparr>diag_definition = d, diag_location = l, diag_cause_count = length kept\<rparr> kept)))"

definition NewDetailed ::
  "Definition \<Rightarrow> Location \<Rightarrow> 'd \<Rightarrow> ('d \<Rightarrow> 'd) option \<Rightarrow> 'd go_error option list
     \<Rightarrow> 'd go_error + 'd go_error" where
  "NewDetailed d l details clone causes =
     (case clone of
        None \<Rightarrow> Inl (reject ErrDetails)
      | Some copy \<Rightarrow>
          if contract_id (def_details d) = [] then Inl (reject ErrDetails)
          else
            (case New d l causes of
               Inl err \<Rightarrow> Inl err
             | Inr (Failure diagnostic kept) \<Rightarrow> Inr (Detailed diagnostic kept (copy details))
             | Inr core \<Rightarrow> Inr core))"

text \<open>\<^verbatim>\<open>Detailed.Details\<close>; the copy function retained by the occurrence is an argument.\<close>

definition Detailed_Details :: "('d \<Rightarrow> 'd) \<Rightarrow> 'd go_error \<Rightarrow> 'd option" where
  "Detailed_Details clone err =
     (case err of Detailed _ _ details \<Rightarrow> Some (clone details) | _ \<Rightarrow> None)"

text \<open>\<^verbatim>\<open>Inspect\<close>: the core of a directly supplied occurrence, never one found inside it.\<close>

definition Inspect :: "'d go_error \<Rightarrow> (Diagnostic \<times> 'd go_error list) option" where
  "Inspect err =
     (case err of
        Failure diagnostic causes \<Rightarrow> Some (diagnostic, causes)
      | Detailed diagnostic causes _ \<Rightarrow> Some (diagnostic, causes)
      | _ \<Rightarrow> None)"

definition zero_definition :: Definition where
  "zero_definition =
     \<lparr>def_code = 0, def_identifier = [], def_module = [], def_component = [], def_revision = 0,
      def_message = [], def_description = [],
      def_details = \<lparr>contract_id = [], contract_version = 0\<rparr>\<rparr>"

definition Error_Diagnostic :: "'d go_error \<Rightarrow> Diagnostic" where
  "Error_Diagnostic err =
     (case err of
        Failure diagnostic _ \<Rightarrow> diagnostic
      | _ \<Rightarrow> \<lparr>diag_definition = zero_definition, diag_location = no_location,
             diag_cause_count = 0\<rparr>)"

definition Error_Is :: "'d go_error \<Rightarrow> 'd go_error \<Rightarrow> bool" where
  "Error_Is err target =
     (case (err, target) of
        (Failure diagnostic _, CodeError code) \<Rightarrow>
          Code_Valid code \<and> code = def_code (diag_definition diagnostic)
      | _ \<Rightarrow> False)"

definition Error_Unwrap :: "'d go_error \<Rightarrow> 'd go_error list" where
  "Error_Unwrap err = (case err of Failure _ causes \<Rightarrow> causes | _ \<Rightarrow> [])"

definition Error_text :: "'d go_error \<Rightarrow> string option" where
  "Error_text err =
     (let shown = (\<lambda>d. Code_String (def_code d) @ '' ('' @ def_identifier d @ ''): '' @ def_message d)
      in case err of
           Failure diagnostic _ \<Rightarrow> Some (shown (diag_definition diagnostic))
         | Detailed diagnostic _ _ \<Rightarrow> Some (shown (diag_definition diagnostic))
         | NilFailure \<Rightarrow> Some ''<nil>''
         | NilDetailed \<Rightarrow> Some ''<nil>''
         | ZeroFailure \<Rightarrow> Some ''failure: invalid occurrence''
         | CodeError code \<Rightarrow> Some (Code_Error code)
         | _ \<Rightarrow> None)"

text \<open>\<^verbatim>\<open>errors.Is(err, code)\<close>: equality with the target, the occurrence's own
  \<^verbatim>\<open>Is\<close>, then everything it unwraps to.\<close>

fun errors_is :: "code \<Rightarrow> 'd go_error \<Rightarrow> bool" where
  "errors_is c (Native _ wrapped) = list_ex (errors_is c) wrapped"
| "errors_is c (CodeError code) = (code = c)"
| "errors_is c (Failure diagnostic causes) =
     (Error_Is (Failure diagnostic causes) (CodeError c) \<or> list_ex (errors_is c) causes)"
| "errors_is c (Detailed diagnostic causes _) =
     (Error_Is (Failure diagnostic causes) (CodeError c) \<or> list_ex (errors_is c) causes)"
| "errors_is c NilFailure = False"
| "errors_is c ZeroFailure = False"
| "errors_is c NilDetailed = False"
| "errors_is c (Joined errs) = list_ex (errors_is c) errs"

text \<open>\<^verbatim>\<open>errors.Join\<close>: nil when every argument is nil.\<close>

definition errors_join :: "'d go_error option list \<Rightarrow> 'd go_error option" where
  "errors_join errs = (if non_nil errs = [] then None else Some (Joined (non_nil errs)))"

text \<open>The code of a directly supplied occurrence, zero for anything else.\<close>

definition own_code :: "'d go_error \<Rightarrow> code" where
  "own_code err =
     (case Inspect err of None \<Rightarrow> 0 | Some (diagnostic, _) \<Rightarrow> def_code (diag_definition diagnostic))"

datatype log_value = LogString string | LogInt int | LogGroup "(string \<times> log_value) list"

text \<open>\<^verbatim>\<open>LogValue\<close> of a core or detailed occurrence, nil and zero handles included;
  \<open>None\<close> for errors that have no such method.\<close>

definition LogValue :: "'d go_error \<Rightarrow> log_value option" where
  "LogValue err =
     (case Inspect err of
        None \<Rightarrow>
          (if err \<in> {NilFailure, ZeroFailure, NilDetailed} then map_option LogString (Error_text err)
           else None)
      | Some (value, _) \<Rightarrow>
          Some (LogGroup
            [(''code'', LogString (Code_String (def_code (diag_definition value)))),
             (''identifier'', LogString (def_identifier (diag_definition value))),
             (''module'', LogString (def_module (diag_definition value))),
             (''component'', LogString (def_component (diag_definition value))),
             (''operation'', LogString (loc_operation (diag_location value))),
             (''instance'', LogString (loc_instance (diag_location value))),
             (''message'', LogString (def_message (diag_definition value))),
             (''cause_count'', LogInt (int (diag_cause_count value)))]))"

text \<open>Occurrences have no implicit JSON form.\<close>

definition Error_MarshalJSON :: "'d go_error \<Rightarrow> 'd go_error + string" where
  "Error_MarshalJSON err = Inl (reject ErrSerialization)"

definition Error_UnmarshalJSON :: "'d go_error \<Rightarrow> string \<Rightarrow> 'd go_error option" where
  "Error_UnmarshalJSON err data = Some (reject ErrSerialization)"

section \<open>Checked codes and their text form\<close>

definition MakeCode :: "facility \<Rightarrow> 16 word \<Rightarrow> 'd go_error + code" where
  "MakeCode facility number =
     (if \<not> Facility_Valid facility \<or> number = 0 then Inl (reject ErrCode)
      else Inr (compose_code facility number))"

definition ParseCode :: "string \<Rightarrow> 'd go_error + code" where
  "ParseCode text =
     (let (base, digits, limit) =
        (if has_prefix text ''0x'' \<or> has_prefix text ''0X'' then (16, drop 2 text, 8)
         else (10 :: nat, text, 10 :: nat))
      in if length digits = 0 \<or> length digits > limit then Inl (reject ErrCode)
         else if \<not> list_all (accepted_digit base) (runes digits) then Inl (reject ErrCode)
         else
           (case ParseUint32 base digits of
              None \<Rightarrow> Inl (reject ErrCode)
            | Some number \<Rightarrow>
                if \<not> Code_Valid (of_nat number) then Inl (reject ErrCode)
                else Inr (of_nat number)))"

definition MarshalText :: "code \<Rightarrow> 'd go_error + string" where
  "MarshalText code = (if \<not> Code_Valid code then Inl (reject ErrCode) else Inr (Code_String code))"

text \<open>The receiver is a pointer, possibly nil; the result is the error and the receiver's
  content afterwards.\<close>

definition UnmarshalText :: "code option \<Rightarrow> string \<Rightarrow> 'd go_error option \<times> code option" where
  "UnmarshalText receiver text =
     (if receiver = None \<or> length text > 10 then (Some (reject ErrCode), receiver)
      else
        (case ParseCode text of
           Inl err \<Rightarrow> (Some err, receiver)
         | Inr value \<Rightarrow> (None, Some value)))"

text \<open>\<^verbatim>\<open>MarshalJSON\<close>: the JSON form of text without escapes is the quoted text.\<close>

definition MarshalJSON :: "code \<Rightarrow> 'd go_error + string" where
  "MarshalJSON code =
     (if \<not> Code_Valid code then Inl (reject ErrCode)
      else Inr ([CHR 0x22] @ Code_String code @ [CHR 0x22]))"

text \<open>\<^verbatim>\<open>UnmarshalJSON\<close>; decoding a JSON string is the library's
  (\<^verbatim>\<open>json.Unmarshal\<close>) and comes as an argument.\<close>

definition UnmarshalJSON ::
  "(string \<Rightarrow> string option) \<Rightarrow> code option \<Rightarrow> string \<Rightarrow> 'd go_error option \<times> code option" where
  "UnmarshalJSON json_string receiver data =
     (if receiver = None \<or> length data > 64 then (Some (reject ErrCode), receiver)
      else
        (case json_string data of
           None \<Rightarrow> (Some (reject ErrCode), receiver)
         | Some text \<Rightarrow> UnmarshalText receiver text))"

section \<open>Reading the syntax byte by byte\<close>

lemma runes_all_bytes [go_string]:
  "list_all label_rune (runes s) \<longleftrightarrow> list_all (\<lambda>c. label_rune (byte c)) s"
  "list_all instance_rune (runes s) \<longleftrightarrow> list_all (\<lambda>c. instance_rune (byte c)) s"
  "list_all (accepted_digit b) (runes s) \<longleftrightarrow> list_all (\<lambda>c. accepted_digit b (byte c)) s"
  by (rule runes_all_ascii,
      simp add: label_rune_def instance_rune_def accepted_digit_def char_class_defs)+

lemma label_bytes [go_string]:
  "label value maximum =
     (case value of
        [] \<Rightarrow> False
      | c # rest \<Rightarrow> length value \<le> maximum \<and> is_lower (byte c) \<and>
          list_all (\<lambda>c. label_rune (byte c)) rest)"
  by (simp add: label_def runes_all_bytes split: list.split)

lemma instanceLabel_bytes [go_string]:
  "instanceLabel value = (length value \<le> 128 \<and> list_all (\<lambda>c. instance_rune (byte c)) value)"
  by (simp add: instanceLabel_def runes_all_bytes)

lemmas label_syntax = namespace_def Identifier_Valid_def label_bytes label_rune_def
  instance_rune_def instanceLabel_bytes char_class_defs

lemma label_runes: "label s m \<Longrightarrow> c \<in> set s \<Longrightarrow> label_rune (byte c)"
  by (auto simp: label_bytes list_all_iff label_rune_def split: list.splits)

lemma safeText_ascii:
  assumes "s \<noteq> []" and "length s \<le> m" and "byte (hd s) \<noteq> 0x20"
    and "list_all (\<lambda>c. 0x20 \<le> byte c \<and> byte c < (0x7F :: nat)) s"
  shows "safeText s m ml"
proof -
  let ?bs = "map byte s"
  have asc: "list_all (\<lambda>b. b < 0x80) ?bs"
    using assms(4) by (auto simp: list_all_iff)
  then have r: "runes s = ?bs" and v: "valid_utf8 s"
    by (simp_all add: runes_def valid_utf8_def rune_list_ascii valid_bytes_ascii)
  have "\<not> IsSpace (byte (hd s))"
    using assms(1,3,4) by (cases s) (auto simp: IsSpace_def)
  then have "\<not> blank s"
    using assms(1) unfolding blank_def r by (cases s) auto
  moreover have "list_all (\<lambda>r. \<not> IsControl r) ?bs"
    using assms(4) by (auto simp: list_all_iff IsControl_def)
  ultimately show ?thesis
    using assms(1,2) v by (auto simp: safeText_def r list_all_iff)
qed

lemma label_namespace:
  assumes "label s m"
  shows "namespace s m"
proof -
  have "CHR ''.'' \<notin> set s"
    using label_runes [OF assms, of "CHR ''.''"] by (auto simp: label_rune_def char_class_defs)
  with assms show ?thesis
    by (auto simp: namespace_def split_on_no_sep label_bytes split: list.splits)
qed

lemma split_on_covers:
  "c \<in> set s \<Longrightarrow> c = sep \<or> (\<exists>p \<in> set (split_on sep s). c \<in> set p)"
proof (induction s)
  case Nil
  then show ?case by simp
next
  case (Cons x s)
  obtain y ys where "split_on sep s = y # ys"
    using split_on_neq_Nil by (cases "split_on sep s") blast+
  with Cons show ?case by auto
qed

text \<open>A dotted namespace is also an instance label, so that a declared operation name can
  stand wherever a location allows one.\<close>

lemma namespace_bytes:
  assumes "namespace s m"
  shows "list_all (\<lambda>c. instance_rune (byte c)) s"
proof -
  have "instance_rune (byte c)" if "c \<in> set s" for c
    using split_on_covers [OF that, of "CHR ''.''"] assms label_runes [of _ m c]
    by (auto simp: namespace_def list_all_iff label_rune_def instance_rune_def)
  then show ?thesis by (simp add: list_all_iff)
qed

section \<open>Declarations\<close>

lemma Definition_ValidI:
  assumes "def_code d = compose_code f n" and "0 < f" and "f \<le> 0x37F" and "n \<noteq> 0"
    and "allocated_to Allocations f d"
    and "namespace (def_module d) 128" and "namespace (def_component d) 64"
    and "def_identifier d = def_module d @ ''.'' @ def_component d @ ''.'' @ reason"
    and "label reason 64" and "Identifier_Valid (def_identifier d)"
    and "def_revision d \<noteq> 0" and "safeText (def_message d) MaxMessageBytes False"
    and "def_description d = [] \<or> safeText (def_description d) MaxDescriptionBytes True"
    and "contract_id (def_details d) = [] \<and> contract_version (def_details d) = 0 \<or>
         contract_id (def_details d) = def_module d @ ''.'' @ def_component d @ ''.'' @ name \<and>
         label name 64 \<and> Identifier_Valid (contract_id (def_details d)) \<and>
         contract_version (def_details d) \<noteq> 0"
  shows "Definition_Valid d"
proof -
  have f: "Facility_Valid f" "\<not> Facility_Extension f"
    using assms(2,3) by (auto simp: Facility_Valid_def Facility_Extension_def word_le_nat_alt)
  have "ownsFacility d"
    using assms(1-5) f Facility_Domain_assigned [of f] by (simp add: ownsFacility_def Let_def)
  moreover have id: "cut_prefix (def_identifier d) (def_module d @ ''.'' @ def_component d @ ''.'')
      = Some reason"
    using assms(8) by simp
  moreover have "\<not> (def_description d \<noteq> [] \<and> \<not> safeText (def_description d) MaxDescriptionBytes True)"
    using assms(13) by blast
  moreover have "Code_Valid (def_code d)" using assms(1,4) f by simp
  ultimately have base: "validateDefinition d =
      (if contract_id (def_details d) = [] then
         (if contract_version (def_details d) \<noteq> 0 then ErrDefinition else 0)
       else
         (case cut_prefix (contract_id (def_details d))
             (def_module d @ ''.'' @ def_component d @ ''.'') of
            None \<Rightarrow> ErrDefinition
          | Some name \<Rightarrow>
              if \<not> Identifier_Valid (contract_id (def_details d)) \<or> \<not> label name 64 \<or>
                contract_version (def_details d) = 0
              then ErrDefinition else 0))"
    using assms(6,7,9-12) unfolding validateDefinition_def Let_def id by auto
  show ?thesis
  proof (cases "contract_id (def_details d) = []")
    case True
    with assms(14) have "contract_version (def_details d) = 0" by auto
    with True base show ?thesis by (simp add: Definition_Valid_def)
  next
    case False
    with assms(14) have c: "contract_id (def_details d) =
        (def_module d @ ''.'' @ def_component d @ ''.'') @ name" by auto
    show ?thesis
      unfolding Definition_Valid_def base using False assms(14)
      by (subst c, subst cut_prefix_append) auto
  qed
qed

lemma compose_code_nonzero [simp]: "Facility_Valid f \<Longrightarrow> n \<noteq> 0 \<Longrightarrow> compose_code f n \<noteq> 0"
  using compose_code_valid [of f n] by (auto simp: Code_Valid_def)

lemma FacilityFailure_valid [simp]: "Facility_Valid FacilityFailure"
  by (simp add: Facility_Valid_def)

lemma validateDefinition_codes: "validateDefinition d \<in> {0, ErrCode, ErrDefinition}"
  by (auto simp: validateDefinition_def Let_def split: option.splits)

lemma Definition_Valid_code: "Definition_Valid d \<Longrightarrow> Code_Valid (def_code d)"
  by (auto simp: Definition_Valid_def validateDefinition_def split: if_splits)

lemma builtin_simps [simp]:
  "def_code (builtin c) = c" "def_module (builtin c) = ''fathomry''"
  "def_component (builtin c) = ''failure''" "def_revision (builtin c) = 1"
  "def_identifier (builtin c) = ''fathomry.failure.'' @ fst (builtin_text c)"
  "def_message (builtin c) = fst (snd (builtin_text c))"
  "def_description (builtin c) = snd (snd (builtin_text c))"
  "def_details (builtin c) = \<lparr>contract_id = [], contract_version = 0\<rparr>"
  by (simp_all add: builtin_def split: prod.split)

lemma compose_code_eq_iff [simp]:
  "Facility_Valid f \<Longrightarrow> m \<noteq> 0 \<Longrightarrow> n \<noteq> 0 \<Longrightarrow> compose_code f m = compose_code f n \<longleftrightarrow> m = n"
  by (metis Code_Number_compose)

lemma allocated_failure:
  "def_module d = ''fathomry'' \<Longrightarrow> def_component d = ''failure'' \<Longrightarrow>
   allocated_to Allocations FacilityFailure d"
  by (simp add: Allocations_def)

section \<open>Building and matching occurrences\<close>

lemma own_code_simps [simp]:
  "own_code (Failure diagnostic causes) = def_code (diag_definition diagnostic)"
  "own_code (Detailed diagnostic causes details) = def_code (diag_definition diagnostic)"
  "own_code (reject c) = c"
  by (simp_all add: own_code_def Inspect_def reject_def)

lemma New_accepts:
  assumes "Definition_Valid d" and "Location_Valid l" and "length causes \<le> MaxCauses"
  shows "New d l causes =
    Inr (Failure \<lparr>diag_definition = d, diag_location = l,
      diag_cause_count = length (non_nil causes)\<rparr> (non_nil causes))"
  using assms by (simp add: New_def Definition_Valid_def Let_def)

lemma New_cases:
  "New d l causes = Inr err \<longleftrightarrow>
     Definition_Valid d \<and> Location_Valid l \<and> length causes \<le> MaxCauses \<and>
     err = Failure \<lparr>diag_definition = d, diag_location = l,
       diag_cause_count = length (non_nil causes)\<rparr> (non_nil causes)"
  by (auto simp: New_def Definition_Valid_def Let_def)

lemma New_rejects:
  "New d l causes = Inl err \<Longrightarrow> err \<in> reject ` {ErrCode, ErrDefinition, ErrLocation, ErrLimit}"
  using validateDefinition_codes [of d] by (auto simp: New_def Let_def split: if_splits)

lemma NewDetailed_accepts:
  assumes "Definition_Valid d" and "Location_Valid l" and "length causes \<le> MaxCauses"
    and "contract_id (def_details d) \<noteq> []"
  shows "NewDetailed d l details (Some clone) causes =
    Inr (Detailed \<lparr>diag_definition = d, diag_location = l,
      diag_cause_count = length (non_nil causes)\<rparr> (non_nil causes) (clone details))"
  using assms by (simp add: NewDetailed_def New_accepts)

lemma errors_is_Failure:
  "Code_Valid (def_code (diag_definition diagnostic)) \<Longrightarrow>
   errors_is c (Failure diagnostic causes) \<longleftrightarrow>
     c = def_code (diag_definition diagnostic) \<or> list_ex (errors_is c) causes"
  by (auto simp: Error_Is_def)

section \<open>Declarations of the framework's own components\<close>

text \<open>Printable ASCII text and labels are decided bit by bit, which evaluates declarations of
  realistic size quickly.\<close>

fun plain_char :: "char \<Rightarrow> bool" where
  "plain_char (Char b0 b1 b2 b3 b4 b5 b6 b7) =
     (\<not> b7 \<and> (b5 \<or> b6) \<and> \<not> (b0 \<and> b1 \<and> b2 \<and> b3 \<and> b4 \<and> b5 \<and> b6))"

definition plain_text :: "string \<Rightarrow> nat \<Rightarrow> bool" where
  "plain_text s m =
     (case s of [] \<Rightarrow> False | c # _ \<Rightarrow> c \<noteq> CHR '' '' \<and> length s \<le> m \<and> list_all plain_char s)"

lemma plain_char_byte: "plain_char c \<Longrightarrow> 0x20 \<le> byte c \<and> byte c < (0x7F :: nat)"
  by (cases c) (auto simp: of_char_def split: if_splits)

lemma plain_text_safe: "plain_text s m \<Longrightarrow> safeText s m ml"
proof (cases s)
  case (Cons c cs)
  assume plain: "plain_text s m"
  then have "byte c \<noteq> (of_char (CHR '' '') :: nat)"
    using Cons by (simp add: plain_text_def del: of_char_Char)
  then show ?thesis
    using plain Cons
    by (intro safeText_ascii) (auto simp: plain_text_def list_all_iff dest: plain_char_byte)
qed (simp add: plain_text_def)

lemma label_no_dot: "label s m \<Longrightarrow> CHR ''.'' \<notin> set s"
  using label_runes [of s m "CHR ''.''"] by (auto simp: label_rune_def char_class_defs)

lemma label_length: "label s m \<Longrightarrow> length s \<le> m"
  by (auto simp: label_bytes split: list.splits)

lemma label_mono: "label s m \<Longrightarrow> m \<le> n \<Longrightarrow> label s n"
  by (auto simp: label_bytes split: list.splits)

lemma owned_identifier:
  assumes "label module 32" "label component 32" "label name 64"
  shows "Identifier_Valid (module @ ''.'' @ component @ ''.'' @ name)"
proof -
  have "split_on (CHR ''.'') (module @ ''.'' @ component @ ''.'' @ name) = [module, component, name]"
    using assms [THEN label_no_dot] by (simp add: split_on_append split_on_no_sep)
  moreover have "list_all (\<lambda>part. label part MaxIdentifierBytes) [module, component, name]"
    using assms by (auto intro: label_mono)
  ultimately show ?thesis
    using assms [THEN label_length] by (simp add: Identifier_Valid_def namespace_def)
qed

lemma owned_definition_valid:
  assumes "def_code d = compose_code f n" and "0 < f" and "f \<le> 0x37F" and "n \<noteq> 0"
    and "allocated_to Allocations f d" and "def_module d = ''fathomry''"
    and "label (def_component d) 32" and "label reason 64"
    and "def_identifier d = def_module d @ ''.'' @ def_component d @ ''.'' @ reason"
    and "def_revision d \<noteq> 0" and "plain_text (def_message d) MaxMessageBytes"
    and "def_description d = [] \<or> plain_text (def_description d) MaxDescriptionBytes"
    and "contract_id (def_details d) = [] \<and> contract_version (def_details d) = 0 \<or>
         contract_id (def_details d) = def_module d @ ''.'' @ def_component d @ ''.'' @ name \<and>
         label name 64 \<and> contract_version (def_details d) \<noteq> 0"
  shows "Definition_Valid d"
proof (rule Definition_ValidI [OF assms(1-5) _ _ assms(9, 8) _ assms(10)])
  have module: "label (def_module d) 32" by (simp add: assms(6) label_syntax)
  show "namespace (def_module d) 128" "namespace (def_component d) 64"
    using label_mono [OF module, of 128] label_mono [OF assms(7), of 64]
    by (simp_all add: label_namespace)
  show "Identifier_Valid (def_identifier d)"
    unfolding assms(9) by (rule owned_identifier [OF module assms(7, 8)])
  show "safeText (def_message d) MaxMessageBytes False"
    and "def_description d = [] \<or> safeText (def_description d) MaxDescriptionBytes True"
    using assms(11, 12) by (auto intro: plain_text_safe)
  show "contract_id (def_details d) = [] \<and> contract_version (def_details d) = 0 \<or>
      contract_id (def_details d) = def_module d @ ''.'' @ def_component d @ ''.'' @ name \<and>
      label name 64 \<and> Identifier_Valid (contract_id (def_details d)) \<and>
      contract_version (def_details d) \<noteq> 0"
    using assms(13) owned_identifier [OF module assms(7)] by auto
qed


definition plain_entry :: "string \<times> string \<times> string \<Rightarrow> bool" where
  "plain_entry entry =
     (case entry of (name, message, description) \<Rightarrow>
        label name 64 \<and> plain_text message MaxMessageBytes \<and>
        (description = [] \<or> plain_text description MaxDescriptionBytes))"

abbreviation no_contract :: Contract where
  "no_contract \<equiv> \<lparr>contract_id = [], contract_version = 0\<rparr>"

text \<open>
  The contract every component of the framework keeps towards this package: it declares codes of
  one facility that is allocated to it, each with a name, a message and a description of its own, in
  a function \<open>definition_of\<close> from codes to declarations. Its occurrences are then never turned
  into another error on construction, as long as the location is valid.
\<close>

locale declarations =
  fixes component :: string and owned :: facility and contract :: Contract
    and codes :: "code list" and text_of :: "code \<Rightarrow> string \<times> string \<times> string"
    and definition_of :: "code \<Rightarrow> Definition"
  assumes declared: "c \<in> set codes \<Longrightarrow> definition_of c =
      \<lparr>def_code = c, def_identifier = ''fathomry.'' @ component @ ''.'' @ fst (text_of c),
       def_module = ''fathomry'', def_component = component, def_revision = 1,
       def_message = fst (snd (text_of c)), def_description = snd (snd (text_of c)),
       def_details = contract\<rparr>"
    and numbered: "list_all (\<lambda>c. Code_Number c \<noteq> 0 \<and> compose_code owned (Code_Number c) = c) codes"
    and first_party: "0 < owned" "owned \<le> 0x37F"
    and allocated: "def_module d = ''fathomry'' \<Longrightarrow> def_component d = component \<Longrightarrow>
      allocated_to Allocations owned d"
    and named: "label component 32"
    and entries: "list_all (\<lambda>c. plain_entry (text_of c)) codes"
    and contracted: "contract = no_contract \<or>
      contract = \<lparr>contract_id = ''fathomry.'' @ component @ ''.details'', contract_version = 1\<rparr>"
    and distinct_codes: "distinct codes"
    and distinct_names: "distinct (map (\<lambda>c. fst (text_of c)) codes)"
begin

lemma definition_of_code: "c \<in> set codes \<Longrightarrow> def_code (definition_of c) = c"
  by (simp add: declared)

lemma declared_valid:
  assumes "c \<in> set codes"
  shows "Definition_Valid (definition_of c)"
proof (rule owned_definition_valid [where f = owned and n = "Code_Number c" and
      reason = "fst (text_of c)" and name = "''details''"])
  have "plain_entry (text_of c)" using entries assms by (auto simp: list_all_iff)
  then show "label (fst (text_of c)) 64"
    and "plain_text (def_message (definition_of c)) MaxMessageBytes"
    and "def_description (definition_of c) = [] \<or>
      plain_text (def_description (definition_of c)) MaxDescriptionBytes"
    by (simp_all add: declared [OF assms] plain_entry_def split: prod.splits)
  show "def_code (definition_of c) = compose_code owned (Code_Number c)" "Code_Number c \<noteq> 0"
    using numbered assms by (simp_all add: declared [OF assms] list_all_iff)
  have "label ''details'' 64" by (simp add: label_syntax)
  then show "contract_id (def_details (definition_of c)) = [] \<and>
      contract_version (def_details (definition_of c)) = 0 \<or>
      contract_id (def_details (definition_of c)) = def_module (definition_of c) @ ''.'' @
        def_component (definition_of c) @ ''.'' @ ''details'' \<and>
      label ''details'' 64 \<and> contract_version (def_details (definition_of c)) \<noteq> 0"
    using contracted by (auto simp: declared [OF assms])
qed (use first_party named allocated in \<open>simp_all add: declared [OF assms]\<close>)

lemma occurrence:
  assumes "c \<in> set codes" and "Location_Valid l" and "length causes \<le> MaxCauses"
  shows "New (definition_of c) l causes =
    Inr (Failure \<lparr>diag_definition = definition_of c, diag_location = l,
      diag_cause_count = length (non_nil causes)\<rparr> (non_nil causes))"
  using assms by (intro New_accepts declared_valid)

lemma detailed_occurrence:
  assumes "c \<in> set codes" and "Location_Valid l" and "length causes \<le> MaxCauses"
    and "contract \<noteq> no_contract"
  shows "NewDetailed (definition_of c) l details (Some clone) causes =
    Inr (Detailed \<lparr>diag_definition = definition_of c, diag_location = l,
      diag_cause_count = length (non_nil causes)\<rparr> (non_nil causes) (clone details))"
  using assms contracted by (intro NewDetailed_accepts declared_valid) (auto simp: declared)

end

interpretation failure: declarations "''failure''" FacilityFailure no_contract
  "[ErrCode, ErrDefinition, ErrLocation, ErrDetails, ErrLimit, ErrCatalog, ErrSerialization]"
  builtin_text builtin
proof unfold_locales
  show "list_all (\<lambda>c. plain_entry (builtin_text c))
      [ErrCode, ErrDefinition, ErrLocation, ErrDetails, ErrLimit, ErrCatalog, ErrSerialization]"
    by (simp add: builtin_text_def plain_entry_def plain_text_def label_syntax)
  show "distinct (map (\<lambda>c. fst (builtin_text c))
      [ErrCode, ErrDefinition, ErrLocation, ErrDetails, ErrLimit, ErrCatalog, ErrSerialization])"
    by (simp add: builtin_text_def)
qed (simp_all only: allocated_failure, simp_all add: builtin_def label_syntax split: prod.split)

section \<open>The text codec\<close>

lemma ParseCode_String:
  "ParseCode (Code_String code) = (if Code_Valid code then Inr code else Inl (reject ErrCode))"
proof -
  obtain digits where s: "Code_String code = ''0x'' @ digits" and len: "length digits = 8"
    and acc: "list_all (\<lambda>c. accepted_digit 16 (byte c)) digits"
    and val: "digits_value 16 digits = unat code"
    by (rule Code_String_digits)
  have "ParseUint32 16 digits = Some (unat code)"
    using unsigned_less [of code] by (simp add: ParseUint32_def val Let_def)
  then show ?thesis
    using len acc by (auto simp: s ParseCode_def has_prefix_def runes_all_bytes)
qed

lemma ParseCode_valid: "ParseCode text = Inr code \<Longrightarrow> Code_Valid code"
  by (auto simp: ParseCode_def Let_def split: if_splits option.splits)

lemma ParseCode_error: "ParseCode text = Inl err \<Longrightarrow> err = reject ErrCode"
  by (auto simp: ParseCode_def Let_def split: if_splits option.splits)

lemma Code_String_length: "length (Code_String code) = 10"
  by (rule Code_String_digits [of code]) simp

lemma UnmarshalText_String:
  "UnmarshalText (Some r) (Code_String code) =
     (if Code_Valid code then (None, Some code) else (Some (reject ErrCode), Some r))"
  by (simp add: UnmarshalText_def Code_String_length ParseCode_String)

section \<open>Properties\<close>

text \<open>C17: the checked constructor \<^verbatim>\<open>MakeCode\<close> is a bijection between admissible
  facility/number pairs and codes of the accepted bit layout. It returns a code exactly when
  that code is valid and its two fields are the given facility and number; no overflow is masked
  into another code.
\<close>

theorem MakeCode_bijective:
  "MakeCode facility number = Inr code \<longleftrightarrow>
     Code_Valid code \<and> Code_Facility code = facility \<and> Code_Number code = number"
  using Code_fields_valid [of code] compose_code_fields_id [of code]
  by (auto simp: MakeCode_def)

text \<open>C18: the text form of a code is lossless. Every code spells to ten bytes that
  \<^verbatim>\<open>ParseCode\<close> and \<^verbatim>\<open>UnmarshalText\<close> read back to the same code when its layout is
  valid; otherwise both refuse with \<^verbatim>\<open>ErrCode\<close> and the receiver keeps its old value.
\<close>

theorem code_text_roundtrip:
  "length (Code_String code) = 10 \<and>
   ParseCode (Code_String code) = (if Code_Valid code then Inr code else Inl (reject ErrCode)) \<and>
   MarshalText code = (if Code_Valid code then Inr (Code_String code) else Inl (reject ErrCode)) \<and>
   UnmarshalText (Some r) (Code_String code) =
     (if Code_Valid code then (None, Some code) else (Some (reject ErrCode), Some r))"
  by (simp add: Code_String_length ParseCode_String UnmarshalText_String MarshalText_def)

text \<open>C19: an occurrence built by \<^verbatim>\<open>New\<close> keeps every non-nil cause in order within the
  cause bound, exposes the given definition and location, and \<^verbatim>\<open>errors.Is\<close> finds
  exactly the declared code or a code that some supplied cause matches.
\<close>

theorem New_occurrence:
  assumes "New d l causes = Inr err"
  shows "Inspect err = Some (\<lparr>diag_definition = d, diag_location = l,
        diag_cause_count = length (non_nil causes)\<rparr>, non_nil causes) \<and>
    length (non_nil causes) \<le> MaxCauses \<and>
    (errors_is c err \<longleftrightarrow>
       c = def_code d \<or> (\<exists>cause. Some cause \<in> set causes \<and> errors_is c cause))"
proof -
  from assms have e: "err = Failure \<lparr>diag_definition = d, diag_location = l,
      diag_cause_count = length (non_nil causes)\<rparr> (non_nil causes)"
    and v: "Definition_Valid d" and l: "length causes \<le> MaxCauses"
    by (simp_all add: New_cases)
  show ?thesis
    using Definition_Valid_code [OF v] l length_non_nil [of causes]
    by (auto simp: e Inspect_def Error_Is_def list_ex_iff set_non_nil)
qed

theorem New_occurrence_witness:
  "Inspect (Failure \<lparr>diag_definition = builtin ErrLimit, diag_location = no_location,
        diag_cause_count = 1\<rparr> [CodeError ErrCode] :: nat go_error)
     = Some (\<lparr>diag_definition = builtin ErrLimit, diag_location = no_location,
        diag_cause_count = 1\<rparr>, [CodeError ErrCode]) \<and>
   errors_is ErrCode (Failure \<lparr>diag_definition = builtin ErrLimit, diag_location = no_location,
        diag_cause_count = 1\<rparr> [CodeError ErrCode] :: nat go_error)"
proof -
  have "New (builtin ErrLimit) no_location [None, Some (CodeError ErrCode)] =
      Inr (Failure \<lparr>diag_definition = builtin ErrLimit, diag_location = no_location,
        diag_cause_count = 1\<rparr> [CodeError ErrCode] :: nat go_error)"
    using New_accepts [of "builtin ErrLimit" no_location "[None, Some (CodeError ErrCode)]"]
      failure.declared_valid [of ErrLimit] by (simp add: Location_Valid_def)
  from New_occurrence [OF this, of ErrCode] show ?thesis by simp
qed

end
