(* ===== verification/Failure_Catalog.thy ===== *)
theory Failure_Catalog
  imports Failure_Error "HOL-Library.List_Lexorder" "HOL-Library.Char_ord"
    "HOL-Library.Product_Lexorder" "HOL-Library.Multiset"
begin

text \<open>
  The immutable definition atlas of \<^verbatim>\<open>failure/v1/catalog.go\<close>: admission of a complete set of
  declarations by \<^verbatim>\<open>Prepare\<close> and the numeric, symbolic and component queries. A
  \<^verbatim>\<open>*Catalog\<close> is an optional record, \<open>None\<close> for a nil or unprepared handle.
\<close>

section \<open>Preparation\<close>

abbreviation MaxDefinitions :: nat where
  "MaxDefinitions \<equiv> 4096"

abbreviation MaxCatalogBytes :: int where
  "MaxCatalogBytes \<equiv> 4 * 2 ^ 20"

type_synonym componentKey = "string \<times> string"

definition owner_of :: "Definition \<Rightarrow> componentKey" where
  "owner_of d = (def_module d, def_component d)"

definition facility_of :: "Definition \<Rightarrow> facility" where
  "facility_of d = Code_Facility (def_code d)"

record Catalog =
  cat_codes :: "code \<rightharpoonup> Definition"
  cat_identifiers :: "string \<rightharpoonup> code"
  cat_ordered :: "code list"

text \<open>The local variables of the admission loop.\<close>

record admission =
  adm_codes :: "code \<Rightarrow> bool"
  adm_identifiers :: "string \<Rightarrow> bool"
  adm_facilities :: "facility \<rightharpoonup> componentKey"
  adm_owners :: "componentKey \<rightharpoonup> facility"
  adm_total :: int

definition no_admission :: admission where
  "no_admission =
     \<lparr>adm_codes = (\<lambda>_. False), adm_identifiers = (\<lambda>_. False), adm_facilities = Map.empty,
      adm_owners = Map.empty, adm_total = 0\<rparr>"

definition differs :: "'v option \<Rightarrow> 'v \<Rightarrow> bool" where
  "differs found value = (case found of None \<Rightarrow> False | Some existing \<Rightarrow> existing \<noteq> value)"

definition admit :: "admission \<Rightarrow> Definition \<Rightarrow> 'd go_error + admission" where
  "admit st d =
     (let problem = validateDefinition d; facility = facility_of d; owner = owner_of d;
          cost = int (definitionBytes d)
      in if problem \<noteq> 0 then Inl (reject problem)
         else if adm_codes st (def_code d) \<or> adm_identifiers st (def_identifier d)
         then Inl (reject ErrDefinition)
         else if differs (adm_facilities st facility) owner then Inl (reject ErrDefinition)
         else if differs (adm_owners st owner) facility then Inl (reject ErrDefinition)
         else if cost > MaxCatalogBytes - adm_total st then Inl (reject ErrLimit)
         else Inr (st
           \<lparr>adm_codes := (adm_codes st)(def_code d := True),
            adm_identifiers := (adm_identifiers st)(def_identifier d := True),
            adm_facilities := (adm_facilities st)(facility \<mapsto> owner),
            adm_owners := (adm_owners st)(owner \<mapsto> facility),
            adm_total := adm_total st + cost\<rparr>))"

fun admit_all :: "admission \<Rightarrow> Definition list \<Rightarrow> 'd go_error + admission" where
  "admit_all st [] = Inr st"
| "admit_all st (d # ds) = (case admit st d of Inl err \<Rightarrow> Inl err | Inr st' \<Rightarrow> admit_all st' ds)"

fun publish_all :: "Catalog \<Rightarrow> Definition list \<Rightarrow> Catalog" where
  "publish_all cat [] = cat"
| "publish_all cat (d # ds) =
     publish_all (cat
       \<lparr>cat_codes := (cat_codes cat)(def_code d \<mapsto> d),
        cat_identifiers := (cat_identifiers cat)(def_identifier d \<mapsto> def_code d),
        cat_ordered := cat_ordered cat @ [def_code d]\<rparr>) ds"

definition Prepare :: "Definition list \<Rightarrow> 'd go_error + Catalog" where
  "Prepare ds =
     (if length ds > MaxDefinitions then Inl (reject ErrLimit)
      else
        (case admit_all no_admission ds of
           Inl err \<Rightarrow> Inl err
         | Inr _ \<Rightarrow>
             (let cat = publish_all \<lparr>cat_codes = Map.empty, cat_identifiers = Map.empty,
                 cat_ordered = []\<rparr> ds
              in Inr (cat\<lparr>cat_ordered := sort (cat_ordered cat)\<rparr>))))"

section \<open>Queries\<close>

text \<open>Reading a missing map key gives the zero declaration.\<close>

definition entry_of :: "Catalog \<Rightarrow> code \<Rightarrow> Definition" where
  "entry_of cat code = (case cat_codes cat code of None \<Rightarrow> zero_definition | Some d \<Rightarrow> d)"

definition Lookup :: "Catalog option \<Rightarrow> code \<Rightarrow> 'd go_error + Definition option" where
  "Lookup catalog code =
     (case catalog of
        None \<Rightarrow> Inl (reject ErrCatalog)
      | Some cat \<Rightarrow>
          if \<not> Code_Valid code then Inl (reject ErrCode) else Inr (cat_codes cat code))"

definition LookupIdentifier :: "Catalog option \<Rightarrow> string \<Rightarrow> 'd go_error + Definition option" where
  "LookupIdentifier catalog identifier =
     (case catalog of
        None \<Rightarrow> Inl (reject ErrCatalog)
      | Some cat \<Rightarrow>
          if \<not> Identifier_Valid identifier then Inl (reject ErrDefinition)
          else
            (case cat_identifiers cat identifier of
               None \<Rightarrow> Inr None
             | Some code \<Rightarrow> Inr (Some (entry_of cat code))))"

definition Catalog_Inspect :: "Catalog option \<Rightarrow> 'd go_error + Definition list" where
  "Catalog_Inspect catalog =
     (case catalog of
        None \<Rightarrow> Inl (reject ErrCatalog)
      | Some cat \<Rightarrow> Inr (map (entry_of cat) (cat_ordered cat)))"

definition InComponent ::
  "Catalog option \<Rightarrow> string \<Rightarrow> string \<Rightarrow> 'd go_error + Definition list \<times> bool" where
  "InComponent catalog module component =
     (case catalog of
        None \<Rightarrow> Inl (reject ErrCatalog)
      | Some cat \<Rightarrow>
          if \<not> namespace module 128 \<or> \<not> namespace component 64 then Inl (reject ErrDefinition)
          else
            (let result = filter (\<lambda>d. def_module d = module \<and> def_component d = component)
                 (map (entry_of cat) (cat_ordered cat))
             in Inr (result, result \<noteq> [])))"

record Component =
  comp_domain :: domain
  comp_facility :: facility
  comp_module :: string
  comp_name :: string
  comp_codes :: "code list"

definition grouped :: "Catalog \<Rightarrow> componentKey \<Rightarrow> code list" where
  "grouped cat key = filter (\<lambda>code. owner_of (entry_of cat code) = key) (cat_ordered cat)"

definition component_of :: "Catalog \<Rightarrow> componentKey \<Rightarrow> Component" where
  "component_of cat key =
     \<lparr>comp_domain = Code_Domain (hd (grouped cat key)),
      comp_facility = Code_Facility (hd (grouped cat key)),
      comp_module = fst key, comp_name = snd key, comp_codes = grouped cat key\<rparr>"

text \<open>
  \<^verbatim>\<open>Components\<close> ranges over a Go map, whose iteration order is unspecified: the order in
  which the keys come is an argument, an enumeration of the keys of the grouping.
\<close>

definition component_keys :: "Catalog \<Rightarrow> componentKey set" where
  "component_keys cat = (owner_of \<circ> entry_of cat) ` set (cat_ordered cat)"

definition Components ::
  "Catalog option \<Rightarrow> componentKey list \<Rightarrow> 'd go_error + Component list" where
  "Components catalog order =
     (case catalog of
        None \<Rightarrow> Inl (reject ErrCatalog)
      | Some cat \<Rightarrow>
          Inr (sort_key (\<lambda>c. (comp_module c, comp_name c)) (map (component_of cat) order)))"


section \<open>What admission accepts\<close>

text \<open>The contract of \<^verbatim>\<open>Prepare\<close>, free of its bookkeeping.\<close>

definition coherent :: "Definition list \<Rightarrow> bool" where
  "coherent ds \<longleftrightarrow>
     list_all Definition_Valid ds \<and> distinct (map def_code ds) \<and> distinct (map def_identifier ds) \<and>
     (\<forall>d \<in> set ds. \<forall>e \<in> set ds. facility_of d = facility_of e \<longleftrightarrow> owner_of d = owner_of e) \<and>
     (\<Sum>d\<leftarrow>ds. int (definitionBytes d)) \<le> MaxCatalogBytes"

definition tracks :: "Definition list \<Rightarrow> admission \<Rightarrow> bool" where
  "tracks ds st \<longleftrightarrow>
     adm_codes st = (\<lambda>c. c \<in> def_code ` set ds) \<and>
     adm_identifiers st = (\<lambda>i. i \<in> def_identifier ` set ds) \<and>
     (\<forall>f k. adm_facilities st f = Some k \<longleftrightarrow> (\<exists>d \<in> set ds. facility_of d = f \<and> owner_of d = k)) \<and>
     (\<forall>f k. adm_owners st k = Some f \<longleftrightarrow> (\<exists>d \<in> set ds. facility_of d = f \<and> owner_of d = k)) \<and>
     adm_total st = (\<Sum>d\<leftarrow>ds. int (definitionBytes d))"

lemma tracks_Nil: "tracks [] no_admission"
  by (simp add: tracks_def no_admission_def)

lemma differs_iff: "differs m v \<longleftrightarrow> (\<exists>w. m = Some w \<and> w \<noteq> v)"
  by (auto simp: differs_def split: option.splits)

lemma tracks_conflicts:
  assumes "tracks ds st"
  shows "differs (adm_facilities st (facility_of d)) (owner_of d) \<longleftrightarrow>
      (\<exists>e \<in> set ds. facility_of e = facility_of d \<and> owner_of e \<noteq> owner_of d)"
    and "differs (adm_owners st (owner_of d)) (facility_of d) \<longleftrightarrow>
      (\<exists>e \<in> set ds. owner_of e = owner_of d \<and> facility_of e \<noteq> facility_of d)"
proof -
  have "adm_facilities st f = Some k \<longleftrightarrow> (\<exists>d \<in> set ds. facility_of d = f \<and> owner_of d = k)"
    and "adm_owners st k = Some f \<longleftrightarrow> (\<exists>d \<in> set ds. facility_of d = f \<and> owner_of d = k)" for f k
    using assms unfolding tracks_def by (simp_all del: split_paired_All)
  then show "differs (adm_facilities st (facility_of d)) (owner_of d) \<longleftrightarrow>
      (\<exists>e \<in> set ds. facility_of e = facility_of d \<and> owner_of e \<noteq> owner_of d)"
    and "differs (adm_owners st (owner_of d)) (facility_of d) \<longleftrightarrow>
      (\<exists>e \<in> set ds. owner_of e = owner_of d \<and> facility_of e \<noteq> facility_of d)"
    by (auto simp: differs_iff simp del: split_paired_Ex split_paired_All)
qed

lemma coherent_snoc:
  "coherent (ds @ [d]) \<longleftrightarrow>
     coherent ds \<and> Definition_Valid d \<and> def_code d \<notin> def_code ` set ds \<and>
     def_identifier d \<notin> def_identifier ` set ds \<and>
     (\<forall>e \<in> set ds. facility_of e = facility_of d \<longleftrightarrow> owner_of e = owner_of d) \<and>
     (\<Sum>e\<leftarrow>ds. int (definitionBytes e)) + int (definitionBytes d) \<le> MaxCatalogBytes"
  by (auto simp: coherent_def)

lemma admit_Inr:
  assumes "tracks ds st" and "coherent ds"
  shows "(\<exists>st'. admit st d = (Inr st' :: 'd go_error + admission)) \<longleftrightarrow> coherent (ds @ [d])"
proof -
  have "adm_codes st (def_code d) \<longleftrightarrow> def_code d \<in> def_code ` set ds"
    and "adm_identifiers st (def_identifier d) \<longleftrightarrow> def_identifier d \<in> def_identifier ` set ds"
    and "adm_total st = (\<Sum>e\<leftarrow>ds. int (definitionBytes e))"
    using assms(1) by (simp_all add: tracks_def)
  then show ?thesis
    unfolding coherent_snoc admit_def Let_def tracks_conflicts [OF assms(1)]
    using assms(2) by (auto simp: Definition_Valid_def simp del: image_iff)
qed

lemma admit_tracks:
  assumes "tracks ds st" and "coherent (ds @ [d])" and "admit st d = Inr st'"
  shows "tracks (ds @ [d]) st'"
proof -
  from assms(3) have st': "st' = st
      \<lparr>adm_codes := (adm_codes st)(def_code d := True),
       adm_identifiers := (adm_identifiers st)(def_identifier d := True),
       adm_facilities := (adm_facilities st)(facility_of d \<mapsto> owner_of d),
       adm_owners := (adm_owners st)(owner_of d \<mapsto> facility_of d),
       adm_total := adm_total st + int (definitionBytes d)\<rparr>"
    by (auto simp: admit_def Let_def split: if_splits)
  from assms(2) have own: "\<forall>e \<in> set ds. facility_of e = facility_of d \<longleftrightarrow> owner_of e = owner_of d"
    by (simp add: coherent_snoc)
  show ?thesis
    using assms(1) own unfolding tracks_def st'
    by (auto simp: fun_eq_iff simp del: split_paired_All)
qed

lemma sum_costs_nonneg: "0 \<le> (\<Sum>d\<leftarrow>ds. int (definitionBytes d))"
  by (induction ds) auto

lemma coherent_prefix: "coherent (ds @ es) \<Longrightarrow> coherent ds"
  using sum_costs_nonneg [of es] by (auto simp: coherent_def)

lemma admit_all_Inr:
  "tracks ds st \<Longrightarrow> coherent ds \<Longrightarrow>
   (\<exists>st'. admit_all st es = (Inr st' :: 'd go_error + admission)) \<longleftrightarrow> coherent (ds @ es)"
proof (induction es arbitrary: ds st)
  case Nil
  then show ?case by simp
next
  case (Cons e es)
  show ?case
  proof (cases "admit st e :: 'd go_error + admission")
    case (Inl err)
    then have "\<not> coherent (ds @ [e])" using admit_Inr [where 'd = 'd, OF Cons.prems, of e] by simp
    with Inl show ?thesis using coherent_prefix [of "ds @ [e]" es] by auto
  next
    case (Inr st')
    then have c: "coherent (ds @ [e])" using admit_Inr [where 'd = 'd, OF Cons.prems, of e] by blast
    with Cons.prems Inr have "tracks (ds @ [e]) st'" by (blast intro: admit_tracks)
    from Cons.IH [OF this c] Inr show ?thesis by simp
  qed
qed

lemma coherent_Nil [simp]: "coherent []"
  by (simp add: coherent_def)

lemma Definition_Valid_identifier: "Definition_Valid d \<Longrightarrow> Identifier_Valid (def_identifier d)"
  by (auto simp: Definition_Valid_def validateDefinition_def split: if_splits)

section \<open>What publication stores\<close>

lemma find_None_distinct: "f x \<notin> f ` set xs \<Longrightarrow> List.find (\<lambda>y. f y = f x) xs = None"
  by (induction xs) auto

lemma publish_all_ordered: "cat_ordered (publish_all cat ds) = cat_ordered cat @ map def_code ds"
  by (induction ds arbitrary: cat) auto

lemma publish_all_codes:
  "distinct (map def_code ds) \<Longrightarrow>
   cat_codes (publish_all cat ds) c =
     (case List.find (\<lambda>d. def_code d = c) ds of None \<Rightarrow> cat_codes cat c | Some d \<Rightarrow> Some d)"
proof (induction ds arbitrary: cat)
  case Nil
  then show ?case by simp
next
  case (Cons d ds)
  moreover have "List.find (\<lambda>e. def_code e = def_code d) ds = None"
    using Cons.prems by (intro find_None_distinct) simp
  ultimately show ?case by (auto split: option.splits)
qed

lemma publish_all_identifiers:
  "distinct (map def_identifier ds) \<Longrightarrow>
   cat_identifiers (publish_all cat ds) i =
     (case List.find (\<lambda>d. def_identifier d = i) ds of
        None \<Rightarrow> cat_identifiers cat i | Some d \<Rightarrow> Some (def_code d))"
proof (induction ds arbitrary: cat)
  case Nil
  then show ?case by simp
next
  case (Cons d ds)
  moreover have "List.find (\<lambda>e. def_identifier e = def_identifier d) ds = None"
    using Cons.prems by (intro find_None_distinct) simp
  ultimately show ?case by (auto split: option.splits)
qed

lemma find_distinct:
  "distinct (map f xs) \<Longrightarrow> x \<in> set xs \<Longrightarrow> List.find (\<lambda>y. f y = f x) xs = Some x"
  by (induction xs) auto

text \<open>The content of a prepared catalog, as a function of the admitted declarations.\<close>

lemma Prepare_content:
  assumes "Prepare ds = Inr cat"
  shows "coherent ds" and "length ds \<le> MaxDefinitions"
    and "cat_ordered cat = sort (map def_code ds)"
    and "cat_codes cat c = List.find (\<lambda>d. def_code d = c) ds"
    and "cat_identifiers cat i =
      map_option def_code (List.find (\<lambda>d. def_identifier d = i) ds)"
proof -
  from assms obtain st where st: "admit_all no_admission ds = (Inr st :: 'a go_error + admission)"
    and len: "length ds \<le> MaxDefinitions"
    and cat: "cat = (let c = publish_all \<lparr>cat_codes = Map.empty, cat_identifiers = Map.empty,
         cat_ordered = []\<rparr> ds in c\<lparr>cat_ordered := sort (cat_ordered c)\<rparr>)"
    by (auto simp: Prepare_def Let_def split: if_splits sum.splits)
  show ok: "coherent ds"
    using admit_all_Inr [OF tracks_Nil, of ds] st by auto
  then have dc: "distinct (map def_code ds)" and di: "distinct (map def_identifier ds)"
    by (simp_all add: coherent_def)
  show "length ds \<le> MaxDefinitions" by (rule len)
  show "cat_ordered cat = sort (map def_code ds)"
    by (simp add: cat Let_def publish_all_ordered)
  show "cat_codes cat c = List.find (\<lambda>d. def_code d = c) ds"
    by (simp add: cat Let_def publish_all_codes [OF dc] split: option.split)
  show "cat_identifiers cat i = map_option def_code (List.find (\<lambda>d. def_identifier d = i) ds)"
    by (simp add: cat Let_def publish_all_identifiers [OF di] split: option.split)
qed

lemma entry_of_prepared:
  assumes "Prepare ds = Inr cat" and "d \<in> set ds"
  shows "entry_of cat (def_code d) = d"
  using Prepare_content [OF assms(1)] find_distinct [of def_code ds d] assms(2)
  by (simp add: entry_of_def coherent_def)

lemma prepared_entries:
  assumes "Prepare ds = Inr cat"
  shows "mset (map (entry_of cat) (cat_ordered cat)) = mset ds"
    and "map def_code (map (entry_of cat) (cat_ordered cat)) = sort (map def_code ds)"
proof -
  note c = Prepare_content [OF assms]
  have id: "map (entry_of cat) (map def_code ds) = ds"
    using entry_of_prepared [OF assms] by (simp add: map_idI)
  have "mset (map (entry_of cat) (cat_ordered cat)) = image_mset (entry_of cat) (mset (map def_code ds))"
    by (simp add: c(3))
  also have "\<dots> = mset (map (entry_of cat) (map def_code ds))" by (simp only: mset_map)
  finally show "mset (map (entry_of cat) (cat_ordered cat)) = mset ds" unfolding id .
  have "def_code (entry_of cat x) = x" if "x \<in> set (cat_ordered cat)" for x
    using that entry_of_prepared [OF assms] by (auto simp: c(3))
  then show "map def_code (map (entry_of cat) (cat_ordered cat)) = sort (map def_code ds)"
    unfolding map_map c(3) by (intro map_idI) simp
qed

lemma sort_key_image: "sort_key f (map g xs) = map g (sort_key (\<lambda>x. f (g x)) xs)"
proof -
  have "insort_key f (g x) (map g ys) = map g (insort_key (\<lambda>x. f (g x)) x ys)" for x ys
    by (induction ys) auto
  then show ?thesis by (induction xs) auto
qed

lemma sort_distinct: "distinct xs \<Longrightarrow> sort xs = sorted_list_of_set (set xs)"
  by (simp add: sorted_list_of_set_sort_remdups distinct_remdups_id)

lemma owner_facility_prepared:
  assumes "Prepare ds = Inr cat" and "x \<in> set (cat_ordered cat)" and "y \<in> set (cat_ordered cat)"
  shows "Code_Facility x = Code_Facility y \<longleftrightarrow> owner_of (entry_of cat x) = owner_of (entry_of cat y)"
proof -
  note c = Prepare_content [OF assms(1)]
  from assms(2, 3) obtain d e where de: "d \<in> set ds" "x = def_code d" "e \<in> set ds" "y = def_code e"
    by (auto simp: c(3))
  then have "facility_of d = facility_of e \<longleftrightarrow> owner_of d = owner_of e"
    using c(1) by (auto simp: coherent_def)
  then show ?thesis
    using entry_of_prepared [OF assms(1)] de by (simp add: facility_of_def)
qed

lemma Prepare_accepts:
  assumes "length ds \<le> MaxDefinitions" and "coherent ds"
  shows "\<exists>cat. Prepare ds = (Inr cat :: 'd go_error + Catalog)"
  using admit_all_Inr [where 'd = 'd, OF tracks_Nil coherent_Nil, of ds] assms
  by (auto simp: Prepare_def Let_def)

context declarations
begin

lemma facility_declared: "c \<in> set codes \<Longrightarrow> facility_of (definition_of c) = owned"
proof -
  assume c: "c \<in> set codes"
  have "Facility_Valid owned"
    using first_party by (auto simp: Facility_Valid_def word_le_nat_alt word_less_nat_alt)
  then have "Code_Facility (compose_code owned (Code_Number c)) = owned"
    by (intro Code_Facility_compose) (use numbered c in \<open>auto simp: list_all_iff\<close>)
  then show ?thesis
    using numbered c by (simp add: facility_of_def definition_of_code list_all_iff)
qed

lemma distinct_identifiers: "distinct (map def_identifier (map definition_of codes))"
proof -
  have "map def_identifier (map definition_of codes) =
      map (\<lambda>n. ''fathomry.'' @ component @ ''.'' @ n) (map (\<lambda>c. fst (text_of c)) codes)"
    by (simp add: declared)
  moreover have "inj_on (\<lambda>n. ''fathomry.'' @ component @ ''.'' @ n) A" for A
    by (simp add: inj_on_def)
  ultimately show ?thesis
    using distinct_names distinct_map by metis
qed

lemma coherent_declared:
  assumes "(\<Sum>c\<leftarrow>codes. int (definitionBytes (definition_of c))) \<le> MaxCatalogBytes"
  shows "coherent (map definition_of codes)"
  unfolding coherent_def
proof (intro conjI)
  show "distinct (map def_code (map definition_of codes))"
    using distinct_codes definition_of_code by (simp add: map_idI)
  show "list_all Definition_Valid (map definition_of codes)"
    using declared_valid by (simp add: list_all_iff)
qed (use assms distinct_identifiers facility_declared in
  \<open>simp_all add: owner_of_def declared comp_def\<close>)

end

lemma coherent_builtin: "coherent Definitions_failure"
  unfolding Definitions_failure_def
  by (rule failure.coherent_declared) (simp add: builtin_text_def definitionBytes_def)

lemma Prepare_builtin: "\<exists>cat. Prepare Definitions_failure = (Inr cat :: 'd go_error + Catalog)"
  by (intro Prepare_accepts coherent_builtin) (simp add: Definitions_failure_def)

section \<open>Properties of the catalog\<close>

text \<open>C1: preparation accepts a set of declarations exactly when there are at most
  \<^verbatim>\<open>MaxDefinitions\<close> of them, each is valid, codes and identifiers are unique, facilities and
  (module, component) owners correspond one to one, and their text fits the byte budget.\<close>

theorem Prepare_admits_exactly:
  "(\<exists>cat. Prepare ds = (Inr cat :: 'd go_error + Catalog)) \<longleftrightarrow> length ds \<le> MaxDefinitions \<and> coherent ds"
  using Prepare_accepts [of ds] Prepare_content(1, 2) [of ds] by blast

lemma lookup_prepared:
  assumes "Prepare ds = (Inr cat :: 'd go_error + Catalog)"
  shows "d \<in> set ds \<Longrightarrow> Lookup (Some cat) (def_code d) = (Inr (Some d) :: 'd go_error + _)"
    and "d \<in> set ds \<Longrightarrow> LookupIdentifier (Some cat) (def_identifier d) = (Inr (Some d) :: 'd go_error + _)"
    and "x \<notin> def_code ` set ds \<Longrightarrow>
      Lookup (Some cat) x = (if Code_Valid x then Inr None else Inl (reject ErrCode) :: 'd go_error + _)"
    and "i \<notin> def_identifier ` set ds \<Longrightarrow>
      LookupIdentifier (Some cat) i = (if Identifier_Valid i then Inr None else Inl (reject ErrDefinition) :: 'd go_error + _)"
proof -
  note c = Prepare_content [OF assms]
  have distinct: "distinct (map def_code ds)" "distinct (map def_identifier ds)"
    using c(1) by (simp_all add: coherent_def)
  {
    assume d: "d \<in> set ds"
    then have valid: "Definition_Valid d" using c(1) by (auto simp: coherent_def list_all_iff)
    show "Lookup (Some cat) (def_code d) = (Inr (Some d) :: 'd go_error + _)"
      using Definition_Valid_code [OF valid] find_distinct [OF distinct(1) d]
      by (simp add: Lookup_def c(4))
    show "LookupIdentifier (Some cat) (def_identifier d) = (Inr (Some d) :: 'd go_error + _)"
      using Definition_Valid_identifier [OF valid] find_distinct [OF distinct(2) d]
        entry_of_prepared [OF assms d]
      by (simp add: LookupIdentifier_def c(5))
  }
  show "Lookup (Some cat) x = (if Code_Valid x then Inr None else Inl (reject ErrCode) :: 'd go_error + _)"
    if "x \<notin> def_code ` set ds"
    using that by (auto simp: Lookup_def c(4) find_None_iff)
  show "LookupIdentifier (Some cat) i = (if Identifier_Valid i then Inr None else Inl (reject ErrDefinition) :: 'd go_error + _)"
    if "i \<notin> def_identifier ` set ds"
  proof -
    have "List.find (\<lambda>d. def_identifier d = i) ds = None"
      using that by (auto simp: find_None_iff)
    then show ?thesis by (simp add: LookupIdentifier_def c(5))
  qed
qed

lemma in_component_prepared:
  assumes "Prepare ds = (Inr cat :: 'd go_error + Catalog)" and "namespace module 128" and "namespace component 64"
  shows "\<exists>es. InComponent (Some cat) module component = (Inr (es, es \<noteq> []) :: 'd go_error + _) \<and>
    mset es = filter_mset (\<lambda>d. def_module d = module \<and> def_component d = component) (mset ds) \<and>
    sorted_wrt (<) (map def_code es)"
proof -
  let ?P = "\<lambda>d. def_module d = module \<and> def_component d = component" and ?all = "map (entry_of cat) (cat_ordered cat)"
  have "distinct (map def_code ds)" using Prepare_content(1) [OF assms(1)] by (simp add: coherent_def)
  then have "sorted_wrt (<) (map def_code ?all)"
    unfolding prepared_entries(2) [OF assms(1)] by (simp add: strict_sorted_iff)
  from sorted_wrt_filter [OF iffD1 [OF sorted_wrt_map this]] have "sorted_wrt (<) (map def_code (filter ?P ?all))"
    by (rule iffD2 [OF sorted_wrt_map])
  moreover have "mset (filter ?P ?all) = filter_mset ?P (mset ds)"
    by (simp only: mset_filter prepared_entries(1) [OF assms(1)])
  ultimately show ?thesis using assms(2, 3) unfolding InComponent_def Let_def by auto
qed

text \<open>The codes of one owner, and what they have in common.\<close>

lemma component_prepared:
  assumes "Prepare ds = (Inr cat :: 'd go_error + Catalog)" and "key \<in> owner_of ` set ds"
  shows "sorted_wrt (<) (grouped cat key)" and "set (grouped cat key) = def_code ` {d \<in> set ds. owner_of d = key}"
    and "\<forall>code \<in> set (grouped cat key). Code_Facility code = Code_Facility (hd (grouped cat key))"
proof -
  note c = Prepare_content [OF assms(1)]
  have "distinct (map def_code ds)" using c(1) by (simp add: coherent_def)
  then show "sorted_wrt (<) (grouped cat key)"
    unfolding grouped_def c(3) by (intro sorted_wrt_filter) (simp add: strict_sorted_iff)
  show codes: "set (grouped cat key) = def_code ` {d \<in> set ds. owner_of d = key}"
    using entry_of_prepared [OF assms(1)] by (auto simp: grouped_def c(3))
  have "grouped cat key \<noteq> []" using assms(2) codes by auto
  then have "hd (grouped cat key) \<in> set (grouped cat key)" by simp
  then show "\<forall>code \<in> set (grouped cat key). Code_Facility code = Code_Facility (hd (grouped cat key))"
    using owner_facility_prepared [OF assms(1)] unfolding grouped_def by auto
qed

lemma components_prepared:
  assumes "Prepare ds = (Inr cat :: 'd go_error + Catalog)" and "distinct order" and "set order = owner_of ` set ds"
  shows "Components (Some cat) order =
    (Inr (map (component_of cat) (sorted_list_of_set (owner_of ` set ds))) :: 'd go_error + _)"
proof -
  have "(comp_module (component_of cat k), comp_name (component_of cat k)) = k" for k
    by (simp add: component_of_def)
  then show ?thesis using sort_distinct [OF assms(2)] assms(3) by (simp add: Components_def sort_key_image)
qed

text \<open>C16: a prepared catalog answers every query from exactly the declarations it was prepared from. A declared
  code or identifier finds its own declaration, an undeclared well-formed one finds nothing, a malformed one is
  refused. \<^verbatim>\<open>Inspect\<close> lists each declaration once, in increasing code order, and \<^verbatim>\<open>InComponent\<close> exactly those of
  the named owner, in the same order, with a flag that tells whether there are any; a malformed owner is
  refused. \<^verbatim>\<open>Components\<close>, in whatever order the grouping map is traversed, lists every owner once in (module, name)
  order, with all and only its codes, in order, and the one domain and facility that they share.\<close>

theorem catalog_answers:
  assumes "Prepare ds = (Inr cat :: 'd go_error + Catalog)"
  shows "(\<forall>d. d \<in> set ds \<longrightarrow>
       Lookup (Some cat) (def_code d) = (Inr (Some d) :: 'd go_error + _) \<and>
       LookupIdentifier (Some cat) (def_identifier d) = (Inr (Some d) :: 'd go_error + _)) \<and>
     (\<forall>c. c \<notin> def_code ` set ds \<longrightarrow>
       Lookup (Some cat) c = (if Code_Valid c then Inr None else Inl (reject ErrCode) :: 'd go_error + _)) \<and>
     (\<forall>i. i \<notin> def_identifier ` set ds \<longrightarrow>
       LookupIdentifier (Some cat) i = (if Identifier_Valid i then Inr None else Inl (reject ErrDefinition) :: 'd go_error + _)) \<and>
     (\<exists>es. Catalog_Inspect (Some cat) = (Inr es :: 'd go_error + _) \<and> mset es = mset ds \<and>
       sorted_wrt (<) (map def_code es)) \<and>
     (\<forall>module component.
       if namespace module 128 \<and> namespace component 64
       then \<exists>es. InComponent (Some cat) module component = (Inr (es, es \<noteq> []) :: 'd go_error + _) \<and>
         mset es = filter_mset (\<lambda>d. def_module d = module \<and> def_component d = component) (mset ds) \<and>
         sorted_wrt (<) (map def_code es)
       else InComponent (Some cat) module component = (Inl (reject ErrDefinition) :: 'd go_error + _)) \<and>
     (\<forall>order. distinct order \<and> set order = owner_of ` set ds \<longrightarrow>
       (\<exists>cs. Components (Some cat) order = (Inr cs :: 'd go_error + _) \<and>
         map (\<lambda>c. (comp_module c, comp_name c)) cs = sorted_list_of_set (owner_of ` set ds) \<and>
         (\<forall>c \<in> set cs. sorted_wrt (<) (comp_codes c) \<and>
            set (comp_codes c) = def_code ` {d \<in> set ds. owner_of d = (comp_module c, comp_name c)} \<and>
            (\<forall>code \<in> set (comp_codes c). Code_Domain code = comp_domain c \<and> Code_Facility code = comp_facility c))))"
proof (intro conjI allI impI)
  note c = Prepare_content(1) [OF assms]
  have "sorted_wrt (<) (sort (map def_code ds))"
    using c by (simp add: strict_sorted_iff coherent_def)
  then show "\<exists>es. Catalog_Inspect (Some cat) = (Inr es :: 'd go_error + _) \<and> mset es = mset ds \<and>
       sorted_wrt (<) (map def_code es)"
    using prepared_entries [OF assms] by (simp add: Catalog_Inspect_def)
  show "if namespace module 128 \<and> namespace component 64
      then \<exists>es. InComponent (Some cat) module component = (Inr (es, es \<noteq> []) :: 'd go_error + _) \<and>
        mset es = filter_mset (\<lambda>d. def_module d = module \<and> def_component d = component) (mset ds) \<and>
        sorted_wrt (<) (map def_code es)
      else InComponent (Some cat) module component = (Inl (reject ErrDefinition) :: 'd go_error + _)" for module component
    by (cases "namespace module 128 \<and> namespace component 64")
      (use in_component_prepared [OF assms, of module component] in simp, auto simp: InComponent_def)
  show "\<exists>cs. Components (Some cat) order = (Inr cs :: 'd go_error + _) \<and>
      map (\<lambda>c. (comp_module c, comp_name c)) cs = sorted_list_of_set (owner_of ` set ds) \<and>
      (\<forall>c \<in> set cs. sorted_wrt (<) (comp_codes c) \<and>
         set (comp_codes c) = def_code ` {d \<in> set ds. owner_of d = (comp_module c, comp_name c)} \<and>
         (\<forall>code \<in> set (comp_codes c). Code_Domain code = comp_domain c \<and> Code_Facility code = comp_facility c))"
    if "distinct order \<and> set order = owner_of ` set ds" for order
    using components_prepared [OF assms, of order] that component_prepared [OF assms]
    by (auto simp: component_of_def Code_Domain_def comp_def)
qed (simp_all only: lookup_prepared(1, 2) [OF assms], rule lookup_prepared(3) [OF assms], assumption,
  rule lookup_prepared(4) [OF assms], assumption)

theorem catalog_answers_witness:
  "\<exists>cat. Prepare Definitions_failure = (Inr cat :: nat go_error + Catalog) \<and>
     Lookup (Some cat) ErrLimit = (Inr (Some (builtin ErrLimit)) :: nat go_error + _)"
proof -
  obtain cat where cat: "Prepare Definitions_failure = (Inr cat :: nat go_error + Catalog)"
    using Prepare_builtin by blast
  have "builtin ErrLimit \<in> set Definitions_failure" by (simp add: Definitions_failure_def)
  with conjunct1 [OF catalog_answers [OF cat]] cat show ?thesis by (metis builtin_simps(1))
qed

end
