(* ===== verification/Details.thy ===== *)
theory Details
  imports Failure_Catalog
begin

text \<open>
  The detail payloads that the framework's components attach to their occurrences
  (\<^verbatim>\<open>resource/v1/definitions.go\<close>, \<^verbatim>\<open>adapters/v1/error.go\<close>) and the error type of the
  components, which is \<^typ>\<open>'d go_error\<close> at these payloads.
\<close>

record resource_details =
  resource_scope :: string
  resource_target :: nat
  resource_generation :: nat
  resource_pending :: bool

record operation_details =
  operation_sequence :: nat
  operation_parent :: nat
  operation_pending :: bool

datatype details = ResourceDetails resource_details | OperationDetails operation_details

type_synonym gerr = "details go_error"

text \<open>The standard library's end-of-input error.\<close>

abbreviation io_EOF :: gerr where
  "io_EOF \<equiv> Native 2 []"

end
