(* ===== verification/Settings_Read.thy ===== *)
theory Settings_Read
  imports Details
begin

text \<open>
  Reading one selected subtree of a settings snapshot: \<^verbatim>\<open>settings/v1/definitions.go\<close> (the
  package's declarations) and \<^verbatim>\<open>settings/v1/read.go\<close> (JSON-pointer paths and their traversal).
  A Go value is a finite tree whose pointers are addresses into a heap, so that cyclic data is a
  value like any other; its type is carried as the name that identifies it.
\<close>

section \<open>Declarations\<close>

abbreviation settings_ErrSnapshot :: code where
  "settings_ErrSnapshot \<equiv> compose_code FacilitySettings 0x0001"

abbreviation settings_ErrCopy :: code where
  "settings_ErrCopy \<equiv> compose_code FacilitySettings 0x0002"

abbreviation settings_ErrType :: code where
  "settings_ErrType \<equiv> compose_code FacilitySettings 0x0003"

abbreviation settings_ErrPath :: code where
  "settings_ErrPath \<equiv> compose_code FacilitySettings 0x0004"

abbreviation settings_ErrStore :: code where
  "settings_ErrStore \<equiv> compose_code FacilitySettings 0x0005"

abbreviation settings_ErrUnconfigured :: code where
  "settings_ErrUnconfigured \<equiv> compose_code FacilitySettings 0x0006"

abbreviation settings_ErrConfigured :: code where
  "settings_ErrConfigured \<equiv> compose_code FacilitySettings 0x0007"

abbreviation settings_ErrSerialization :: code where
  "settings_ErrSerialization \<equiv> compose_code FacilitySettings 0x0008"

definition settings_text :: "code \<Rightarrow> string \<times> string \<times> string" where
  "settings_text code =
     (if code = settings_ErrSnapshot then
        (''invalid_snapshot'', ''The settings snapshot is not prepared.'',
         ''Prepare data with its owner-defined copy function before reading or publishing it.'')
      else if code = settings_ErrCopy then
        (''invalid_copy'', ''The settings copy function is missing.'',
         ''Supply an explicit synchronous, bounded and concurrency-safe copy function that isolates mutable data.'')
      else if code = settings_ErrType then
        (''type_mismatch'', ''The selected settings type does not match the requested operation.'',
         ''Use the exact declared Go type and traverse only explicitly named fields, string-keyed maps, arrays or slices.'')
      else if code = settings_ErrPath then
        (''invalid_path'', ''The settings selection path is invalid or ambiguous.'',
         ''Use bounded slash tokens with tilde escaping and unique explicit JSON field names; traversal must terminate within its bound.'')
      else if code = settings_ErrStore then
        (''invalid_store'', ''The settings store is not initialized.'',
         ''Create a typed store before publishing snapshots to its data domain.'')
      else if code = settings_ErrUnconfigured then
        (''not_configured'', ''No settings snapshot is available.'',
         ''Publish a prepared snapshot before capturing its reader, and explicitly configure the application before accessing its default.'')
      else if code = settings_ErrConfigured then
        (''already_configured'', ''The application settings reader is already configured.'',
         ''Publish through the original store, or use an independent reader for another data domain; the process default cannot be replaced.'')
      else if code = settings_ErrSerialization then
        (''runtime_serialization'', ''Settings runtime handle serialization is unsupported.'',
         ''Explicitly copy data for serialization; readers, stores and snapshot handles are not portable data contracts.'')
      else ([], [], []))"

abbreviation settings_codes :: "code list" where
  "settings_codes \<equiv>
     [settings_ErrSnapshot, settings_ErrCopy, settings_ErrType, settings_ErrPath, settings_ErrStore, settings_ErrUnconfigured, settings_ErrConfigured, settings_ErrSerialization]"

definition settings_definition :: "code \<Rightarrow> Definition" where
  "settings_definition code =
     (case settings_text code of (name, message, description) \<Rightarrow>
        \<lparr>def_code = code, def_identifier = ''fathomry.settings.'' @ name,
         def_module = ''fathomry'', def_component = ''settings'', def_revision = 1,
         def_message = message, def_description = description, def_details = no_contract\<rparr>)"

definition Definitions_settings :: "Definition list" where
  "Definitions_settings = map settings_definition settings_codes"

definition settings_reject :: "code \<Rightarrow> string \<Rightarrow> gerr" where
  "settings_reject code operation =
     (case New (settings_definition code) \<lparr>loc_operation = operation, loc_instance = []\<rparr> [] of
        Inl err \<Rightarrow> err
      | Inr occurrence \<Rightarrow> occurrence)"

section \<open>Paths\<close>

abbreviation MaxPathBytes :: nat where
  "MaxPathBytes \<equiv> 4096"

abbreviation MaxPathSegments :: nat where
  "MaxPathSegments \<equiv> 64"

abbreviation MaxDereferences :: nat where
  "MaxDereferences \<equiv> 64"

abbreviation slash :: char where
  "slash \<equiv> CHR ''/''"

abbreviation tilde :: char where
  "tilde \<equiv> CHR ''~''"

text \<open>The inner loop: every tilde is followed by \<open>0\<close> or \<open>1\<close>.\<close>

fun escapes_ok :: "string \<Rightarrow> bool" where
  "escapes_ok [] = True"
| "escapes_ok (c # s) =
     (if c = tilde then
        (case s of
           [] \<Rightarrow> False
         | d # s' \<Rightarrow> (d = CHR ''0'' \<or> d = CHR ''1'') \<and> escapes_ok s')
      else escapes_ok s)"

text \<open>\<^verbatim>\<open>strings.ReplaceAll\<close> for a two-byte pattern and a one-byte replacement.\<close>

fun replace_pair :: "char \<Rightarrow> char \<Rightarrow> char \<Rightarrow> string \<Rightarrow> string" where
  "replace_pair a b new [] = []"
| "replace_pair a b new [x] = [x]"
| "replace_pair a b new (x # y # s) =
     (if x = a \<and> y = b then new # replace_pair a b new s else x # replace_pair a b new (y # s))"

definition unescape :: "string \<Rightarrow> string" where
  "unescape token = replace_pair tilde (CHR ''0'') tilde (replace_pair tilde (CHR ''1'') slash token)"

definition parsePath :: "string \<Rightarrow> gerr + string list" where
  "parsePath path =
     (if length path > MaxPathBytes \<or> \<not> valid_utf8 path \<or>
         path \<noteq> [] \<and> hd path \<noteq> slash \<or> count_list path slash > MaxPathSegments
      then Inl (settings_reject settings_ErrPath ''read'')
      else if path = [] then Inr []
      else
        (let tokens = split_on slash (tl path) in
         if \<not> list_all escapes_ok tokens then Inl (settings_reject settings_ErrPath ''read'')
         else Inr (map unescape tokens)))"

section \<open>Values\<close>

type_synonym gotype = string
type_synonym address = nat

text \<open>A struct field is its export flag, the value of its \<^verbatim>\<open>json\<close> tag and its content; a map
  says whether its keys are of string kind; an array or slice is its elements; every other kind is a
  leaf.\<close>

datatype goval =
    LeafV gotype string
  | StructV gotype "(bool \<times> string \<times> goval) list"
  | MapV gotype bool "(string \<times> goval) list"
  | ListV gotype "goval list"
  | PointerV gotype "address option"
  | InterfaceV gotype "goval option"

type_synonym heap = "address \<Rightarrow> goval"

fun gotype_of :: "goval \<Rightarrow> gotype" where
  "gotype_of (LeafV t _) = t"
| "gotype_of (StructV t _) = t"
| "gotype_of (MapV t _ _) = t"
| "gotype_of (ListV t _) = t"
| "gotype_of (PointerV t _) = t"
| "gotype_of (InterfaceV t _) = t"

section \<open>Selection\<close>

fun select_field ::
  "string \<Rightarrow> goval option \<Rightarrow> (bool \<times> string \<times> goval) list \<Rightarrow> gerr + goval option" where
  "select_field token selected [] = Inr selected"
| "select_field token selected ((exported, tag, v) # rest) =
     (let name = takeWhile (\<lambda>c. c \<noteq> CHR '','') tag in
      if \<not> exported \<or> name = [] \<or> name = ''-'' \<or> name \<noteq> token
      then select_field token selected rest
      else if selected \<noteq> None then Inl (settings_reject settings_ErrPath ''read'')
      else select_field token (Some v) rest)"

definition ParseUint64 :: "string \<Rightarrow> nat option" where
  "ParseUint64 digits = (let n = digits_value 10 digits in if n \<le> MaxUint64 then Some n else None)"

definition select_index :: "string \<Rightarrow> goval list \<Rightarrow> gerr + goval option" where
  "select_index token elements =
     (if token = [] \<or> length token > 1 \<and> hd token = CHR ''0''
      then Inl (settings_reject settings_ErrPath ''read'')
      else if \<not> list_all is_digit (runes token) then Inl (settings_reject settings_ErrPath ''read'')
      else
        (case ParseUint64 token of
           None \<Rightarrow> Inl (settings_reject settings_ErrPath ''read'')
         | Some index \<Rightarrow>
             if index \<ge> length elements then Inr None else Inr (Some (elements ! index))))"

definition selectValue :: "goval \<Rightarrow> string \<Rightarrow> gerr + goval option" where
  "selectValue v token =
     (case v of
        StructV _ members \<Rightarrow> select_field token None members
      | MapV _ string_keys entries \<Rightarrow>
          if \<not> string_keys then Inl (settings_reject settings_ErrType ''read'')
          else Inr (map_of entries token)
      | ListV _ elements \<Rightarrow> select_index token elements
      | _ \<Rightarrow> Inl (settings_reject settings_ErrType ''read''))"

text \<open>The dereference loop. The counter advances by one, so it meets the bound before passing it.
  The result is the count and the value reached, or \<open>None\<close> for a nil on the way.\<close>

function deref :: "heap \<Rightarrow> nat \<Rightarrow> goval \<Rightarrow> gerr + (nat \<times> goval) option" where
  "deref heap n v =
     (case v of
        PointerV _ None \<Rightarrow> Inr None
      | InterfaceV _ None \<Rightarrow> Inr None
      | PointerV _ (Some a) \<Rightarrow>
          if n \<ge> MaxDereferences then Inl (settings_reject settings_ErrPath ''read'')
          else deref heap (Suc n) (heap a)
      | InterfaceV _ (Some w) \<Rightarrow>
          if n \<ge> MaxDereferences then Inl (settings_reject settings_ErrPath ''read'')
          else deref heap (Suc n) w
      | _ \<Rightarrow> Inr (Some (n, v)))"
  by auto

termination
  by (relation "measure (\<lambda>(_, n, _). MaxDereferences - n)") auto

declare deref.simps [simp del]

fun select_path :: "heap \<Rightarrow> nat \<Rightarrow> goval \<Rightarrow> string list \<Rightarrow> gerr + goval option" where
  "select_path heap n v [] = Inr (Some v)"
| "select_path heap n v (token # tokens) =
     (case deref heap n v of
        Inl err \<Rightarrow> Inl err
      | Inr None \<Rightarrow> Inr None
      | Inr (Some (m, w)) \<Rightarrow>
          (case selectValue w token of
             Inl err \<Rightarrow> Inl err
           | Inr None \<Rightarrow> Inr None
           | Inr (Some u) \<Rightarrow> select_path heap m u tokens))"

text \<open>A prepared snapshot: the owned value and the copy function of its owner. The root type of
  \<^verbatim>\<open>*frozen[T]\<close> is the type of the value.\<close>

record data =
  data_value :: goval
  data_clone :: "goval \<Rightarrow> goval"

definition Read ::
  "heap \<Rightarrow> data option \<Rightarrow> string \<Rightarrow> gotype \<Rightarrow> (goval \<Rightarrow> goval) option \<Rightarrow> gerr + goval option"
  where
  "Read heap view path T clone =
     (case view of
        None \<Rightarrow> Inl (settings_reject settings_ErrSnapshot ''read'')
      | Some captured \<Rightarrow>
          (case clone of
             None \<Rightarrow> Inl (settings_reject settings_ErrCopy ''read'')
           | Some copy \<Rightarrow>
               (case parsePath path of
                  Inl err \<Rightarrow> Inl err
                | Inr tokens \<Rightarrow>
                    (case select_path heap 0 (data_value captured) tokens of
                       Inl err \<Rightarrow> Inl err
                     | Inr None \<Rightarrow> Inr None
                     | Inr (Some v) \<Rightarrow>
                         if gotype_of v \<noteq> T then Inl (settings_reject settings_ErrType ''read'')
                         else Inr (Some (copy v))))))"

section \<open>The package's declarations\<close>

lemma allocated_settings:
  "def_module d = ''fathomry'' \<Longrightarrow> def_component d = ''settings'' \<Longrightarrow>
   allocated_to Allocations FacilitySettings d"
  by (simp add: Allocations_def)

lemma FacilitySettings_valid [simp]: "Facility_Valid FacilitySettings"
  by (simp add: Facility_Valid_def)

interpretation settings: declarations "''settings''" FacilitySettings no_contract settings_codes
  settings_text settings_definition
proof unfold_locales
  show "list_all (\<lambda>c. plain_entry (settings_text c)) settings_codes"
    by (simp add: settings_text_def plain_entry_def plain_text_def label_syntax)
  show "distinct (map (\<lambda>c. fst (settings_text c)) settings_codes)"
    by (simp add: settings_text_def)
qed (simp_all only: allocated_settings,
  simp_all add: settings_definition_def label_syntax split: prod.split)

lemma own_code_settings_reject:
  assumes "c \<in> set settings_codes" and "operation = [] \<or> namespace operation 64"
  shows "own_code (settings_reject c operation) = c"
  using assms(2) settings.definition_of_code [OF assms(1)]
  by (simp add: settings_reject_def settings.occurrence [OF assms(1)] Location_Valid_def)

section \<open>Path syntax\<close>

fun escape :: "string \<Rightarrow> string" where
  "escape [] = []"
| "escape (c # s) =
     (if c = tilde then ''~0'' else if c = slash then ''~1'' else [c]) @ escape s"

definition format_path :: "string list \<Rightarrow> string" where
  "format_path tokens = concat (map (\<lambda>token. slash # escape token) tokens)"

lemma replace_pair_skip [simp]:
  "x \<noteq> a \<Longrightarrow> replace_pair a b new (x # s) = x # replace_pair a b new s"
  by (cases s) auto

lemma unescape_simps [simp]:
  "unescape [] = []"
  "unescape (tilde # CHR ''0'' # s) = tilde # unescape s"
  "unescape (tilde # CHR ''1'' # s) = slash # unescape s"
  "c \<noteq> tilde \<Longrightarrow> unescape (c # s) = c # unescape s"
  by (simp_all add: unescape_def)

lemma unescape_escape [simp]: "unescape (escape s) = s"
  by (induction s) auto

lemma escape_unescape: "escapes_ok s \<Longrightarrow> slash \<notin> set s \<Longrightarrow> escape (unescape s) = s"
  by (induction s rule: escapes_ok.induct) (auto split: list.splits if_splits)

lemma escape_ok [simp]: "escapes_ok (escape s)" "slash \<notin> set (escape s)"
  by (induction s) auto

lemma format_path_join: "format_path (t # ts) = slash # join_with slash (map escape (t # ts))"
proof (induction ts arbitrary: t)
  case (Cons u ts)
  show ?case using Cons [of u] by (simp add: format_path_def)
qed (simp add: format_path_def)

lemma format_path_slashes: "count_list (format_path ts) slash = length ts"
  by (induction ts) (auto simp: format_path_def count_notin)

text \<open>C20: \<^verbatim>\<open>parsePath\<close> accepts exactly the canonical spellings within its bounds: a path parses
  to some tokens if and only if it is the escaped, slash-led rendering of those tokens, is valid UTF-8
  and keeps the byte and segment bounds. Rendering and parsing are therefore inverse to each other.\<close>

theorem parsePath_canonical:
  "parsePath path = (Inr tokens :: gerr + string list) \<longleftrightarrow>
     path = format_path tokens \<and> valid_utf8 path \<and> length path \<le> MaxPathBytes \<and>
     length tokens \<le> MaxPathSegments"
proof (cases path)
  case Nil
  then show ?thesis
    by (cases tokens) (auto simp: parsePath_def format_path_def valid_utf8_def)
next
  case (Cons c q)
  have parse: "tokens = map unescape (split_on slash q) \<and> list_all escapes_ok (split_on slash q) \<longleftrightarrow>
      slash # q = format_path tokens"
  proof
    assume a: "tokens = map unescape (split_on slash q) \<and> list_all escapes_ok (split_on slash q)"
    then have "map escape tokens = split_on slash q"
      using split_on_parts [of _ slash q]
      by (auto simp: list_all_iff escape_unescape intro!: map_idI)
    moreover obtain t ts where "tokens = t # ts"
      using a split_on_neq_Nil [of slash q] by (cases tokens) auto
    ultimately show "slash # q = format_path tokens"
      by (metis format_path_join join_split)
  next
    assume b: "slash # q = format_path tokens"
    then obtain t ts where ts: "tokens = t # ts" by (cases tokens) (auto simp: format_path_def)
    with b have "q = join_with slash (map escape tokens)" by (simp add: format_path_join)
    then have "split_on slash q = map escape tokens"
      using ts by (metis escape_ok(2) imageE list.set_map map_is_Nil_conv list.discI split_join)
    then show "tokens = map unescape (split_on slash q) \<and> list_all escapes_ok (split_on slash q)"
      by (simp add: list_all_iff comp_def)
  qed
  have "parsePath path = Inr tokens \<longleftrightarrow>
      length path \<le> MaxPathBytes \<and> valid_utf8 path \<and> c = slash \<and>
      count_list path slash \<le> MaxPathSegments \<and> slash # q = format_path tokens"
    unfolding parse [symmetric] using Cons by (auto simp: parsePath_def Let_def)
  moreover have "c = slash" if "path = format_path tokens"
    using that Cons by (cases tokens) (simp_all add: format_path_def)
  ultimately show ?thesis
    using Cons format_path_slashes [of tokens] by metis
qed

section \<open>Traversal\<close>

definition visible :: "string \<Rightarrow> bool \<times> string \<times> goval \<Rightarrow> bool" where
  "visible token member =
     (case member of (exported, tag, _) \<Rightarrow>
        exported \<and> token \<noteq> [] \<and> token \<noteq> ''-'' \<and> takeWhile (\<lambda>c. c \<noteq> CHR '','') tag = token)"

definition canonical_index :: "string \<Rightarrow> nat \<Rightarrow> bool" where
  "canonical_index token i \<longleftrightarrow>
     token \<noteq> [] \<and> (length token = 1 \<or> hd token \<noteq> CHR ''0'') \<and>
     list_all (\<lambda>c. is_digit (byte c)) token \<and> digits_value 10 token = i \<and> i \<le> MaxUint64"

text \<open>What a selection means: the data steps that lead from a value to the selected one, with the
  number of pointers and interfaces passed on the way.\<close>

inductive reaches :: "heap \<Rightarrow> goval \<Rightarrow> string list \<Rightarrow> nat \<Rightarrow> goval \<Rightarrow> bool" for heap where
  here: "reaches heap v [] 0 v"
| pointer: "reaches heap (heap a) (t # ts) n w \<Longrightarrow>
    reaches heap (PointerV T (Some a)) (t # ts) (Suc n) w"
| dynamic: "reaches heap v (t # ts) n w \<Longrightarrow>
    reaches heap (InterfaceV T (Some v)) (t # ts) (Suc n) w"
| member: "filter (visible t) members = [(exported, tag, v)] \<Longrightarrow> reaches heap v ts n w \<Longrightarrow>
    reaches heap (StructV T members) (t # ts) n w"
| entry: "map_of entries t = Some v \<Longrightarrow> reaches heap v ts n w \<Longrightarrow>
    reaches heap (MapV T True entries) (t # ts) n w"
| element: "canonical_index t i \<Longrightarrow> i < length elements \<Longrightarrow> reaches heap (elements ! i) ts n w \<Longrightarrow>
    reaches heap (ListV T elements) (t # ts) n w"

lemma select_field_iff:
  "select_field token selected members = Inr (Some v) \<longleftrightarrow>
     (case selected of
        None \<Rightarrow> \<exists>exported tag. filter (visible token) members = [(exported, tag, v)]
      | Some u \<Rightarrow> filter (visible token) members = [] \<and> v = u)"
  by (induction token selected members rule: select_field.induct)
    (auto simp: visible_def Let_def split: option.splits)

lemma runes_all_digits: "list_all is_digit (runes s) \<longleftrightarrow> list_all (\<lambda>c. is_digit (byte c)) s"
  by (rule runes_all_ascii) (simp add: is_digit_def)

lemma select_index_iff:
  "select_index token elements = Inr (Some v) \<longleftrightarrow>
     (\<exists>i. canonical_index token i \<and> i < length elements \<and> v = elements ! i)"
proof -
  have "\<not> (1 < length token \<and> hd token = CHR ''0'') \<longleftrightarrow> length token = 1 \<or> hd token \<noteq> CHR ''0''"
    if "token \<noteq> []"
    using that by (cases token) auto
  then show ?thesis
    by (auto simp: select_index_def canonical_index_def ParseUint64_def Let_def runes_all_digits
        split: option.splits if_splits)
qed

lemma selectValue_reaches:
  "selectValue v t = Inr (Some u) \<Longrightarrow> reaches heap u ts n w \<Longrightarrow> reaches heap v (t # ts) n w"
  by (auto simp: selectValue_def select_field_iff select_index_iff split: goval.splits if_splits
      intro: reaches.intros)

lemma deref_reaches:
  "deref heap n v = Inr (Some (m, u)) \<Longrightarrow> reaches heap u (t # ts) k w \<Longrightarrow>
   m + k \<le> MaxDereferences \<Longrightarrow> \<exists>j. reaches heap v (t # ts) j w \<and> n + j \<le> MaxDereferences"
proof (induction heap n v rule: deref.induct)
  case (1 heap n v)
  have next_step: "\<exists>j. reaches heap v (t # ts) j w \<and> n + j \<le> MaxDereferences"
    if "\<exists>j. reaches heap x (t # ts) j w \<and> Suc n + j \<le> MaxDereferences"
      "\<And>j. reaches heap x (t # ts) j w \<Longrightarrow> reaches heap v (t # ts) (Suc j) w" for x
    using that by (metis add_Suc add_Suc_right)
  show ?case
  proof (cases v)
    case (PointerV T a)
    then show ?thesis
      using 1 by (auto simp: deref.simps [of heap n] split: option.splits if_splits
          intro!: next_step intro: reaches.pointer)
  next
    case (InterfaceV T a)
    then show ?thesis
      using 1 by (auto simp: deref.simps [of heap n] split: option.splits if_splits
          intro!: next_step intro: reaches.dynamic)
  qed (use 1 in \<open>auto simp: deref.simps [of heap n]\<close>)
qed

lemma deref_bound: "deref heap n v = Inr (Some (m, u)) \<Longrightarrow> n \<le> MaxDereferences \<Longrightarrow> m \<le> MaxDereferences"
proof (induction heap n v rule: deref.induct)
  case (1 heap n v)
  then show ?case
    by (cases v) (auto simp: deref.simps [of heap n] split: option.splits if_splits)
qed

lemma select_path_sound:
  "select_path heap n v ts = Inr (Some w) \<Longrightarrow> n \<le> MaxDereferences \<Longrightarrow>
   \<exists>k. reaches heap v ts k w \<and> n + k \<le> MaxDereferences"
proof (induction ts arbitrary: n v)
  case Nil
  then show ?case by (auto intro: reaches.here)
next
  case (Cons t ts)
  then obtain m u x where d: "deref heap n v = Inr (Some (m, u))" "selectValue u t = Inr (Some x)"
    "select_path heap m x ts = Inr (Some w)"
    by (auto split: sum.splits option.splits)
  with Cons obtain k where "reaches heap x ts k w" "m + k \<le> MaxDereferences"
    using deref_bound by blast
  with d show ?case by (blast intro: selectValue_reaches deref_reaches)
qed

lemma select_path_complete:
  "reaches heap v ts k w \<Longrightarrow> n + k \<le> MaxDereferences \<Longrightarrow> select_path heap n v ts = Inr (Some w)"
proof (induction arbitrary: n rule: reaches.induct)
  case (member t members exported tag v ts k w T)
  then have "selectValue (StructV T members) t = Inr (Some v)"
    by (simp add: selectValue_def select_field_iff)
  with member show ?case by (simp add: deref.simps [of heap n])
next
  case (element t i elements ts k w T)
  then have "selectValue (ListV T elements) t = Inr (Some (elements ! i))"
    by (auto simp: selectValue_def select_index_iff)
  with element show ?case by (simp add: deref.simps [of heap n])
qed (auto simp: deref.simps [of heap n for n] selectValue_def)

text \<open>C21: \<^verbatim>\<open>Read\<close> finds a value exactly when the path parses and leads, through at most
  \<^verbatim>\<open>MaxDereferences\<close> pointers and interfaces, uniquely named exported fields, string-keyed map
  entries and canonical in-range indexes, to a value of exactly the requested type; it returns that
  value's copy. The traversal ends on cyclic data as well.\<close>

theorem Read_selects_exactly:
  "Read heap (Some captured) path T (Some copy) = Inr (Some v) \<longleftrightarrow>
     (\<exists>tokens n w. parsePath path = (Inr tokens :: gerr + string list) \<and>
        reaches heap (data_value captured) tokens n w \<and> n \<le> MaxDereferences \<and>
        gotype_of w = T \<and> v = copy w)"
proof -
  have "select_path heap 0 u ts = Inr (Some w) \<longleftrightarrow> (\<exists>n. reaches heap u ts n w \<and> n \<le> MaxDereferences)"
    for u ts w
    using select_path_sound [of heap 0 u ts w] select_path_complete [of heap u ts _ w 0] by auto
  moreover have "Read heap (Some captured) path T (Some copy) = Inr (Some v) \<longleftrightarrow>
      (\<exists>tokens w. parsePath path = (Inr tokens :: gerr + string list) \<and>
        select_path heap 0 (data_value captured) tokens = Inr (Some w) \<and> gotype_of w = T \<and>
        v = copy w)"
    by (auto simp: Read_def split: sum.splits option.splits if_splits)
  ultimately show ?thesis by metis
qed

end
