(* ===== verification/Settings_Store.thy ===== *)
theory Settings_Store
  imports Settings_Read
begin

text \<open>
  Snapshots, stores and the process default of \<^verbatim>\<open>settings/v1\<close>: \<^verbatim>\<open>settings.go\<close>,
  \<^verbatim>\<open>store.go\<close> and \<^verbatim>\<open>default.go\<close>. A handle is an option, \<open>None\<close> for its zero value; a
  publication cell is an index into the state. Each operation is one atomic step.
\<close>

section \<open>Snapshots\<close>

definition settings_New :: "goval \<Rightarrow> (goval \<Rightarrow> goval) option \<Rightarrow> gerr + data" where
  "settings_New v clone =
     (case clone of
        None \<Rightarrow> Inl (settings_reject settings_ErrCopy ''new'')
      | Some copy \<Rightarrow> Inr \<lparr>data_value = copy v, data_clone = copy\<rparr>)"

text \<open>The assertion that the payload is a \<^verbatim>\<open>*frozen[T]\<close>.\<close>

definition frozen_as :: "gotype \<Rightarrow> data \<Rightarrow> bool" where
  "frozen_as T owned = (gotype_of (data_value owned) = T)"

definition ValueCopy :: "gotype \<Rightarrow> data option \<Rightarrow> gerr + goval" where
  "ValueCopy T snapshot =
     (case snapshot of
        None \<Rightarrow> Inl (settings_reject settings_ErrSnapshot ''value_copy'')
      | Some owned \<Rightarrow>
          if frozen_as T owned then Inr (data_clone owned (data_value owned))
          else Inl (settings_reject settings_ErrSnapshot ''value_copy''))"

definition settings_As :: "gotype \<Rightarrow> data option \<Rightarrow> gerr + data" where
  "settings_As T view =
     (case view of
        None \<Rightarrow> Inl (settings_reject settings_ErrSnapshot ''as'')
      | Some owned \<Rightarrow>
          if \<not> frozen_as T owned then Inl (settings_reject settings_ErrType ''as'') else Inr owned)"

section \<open>Publication\<close>

type_synonym cell = nat

record settings_state =
  cells :: "data option list"
  application :: "cell option"

definition settings_init :: settings_state where
  "settings_init = \<lparr>cells = [], application = None\<rparr>"

definition NewStore :: "settings_state \<Rightarrow> cell \<times> settings_state" where
  "NewStore st = (length (cells st), st\<lparr>cells := cells st @ [None]\<rparr>)"

definition Publish ::
  "gotype \<Rightarrow> cell option \<Rightarrow> data option \<Rightarrow> settings_state \<Rightarrow> gerr option \<times> settings_state" where
  "Publish T store snapshot st =
     (case store of
        None \<Rightarrow> (Some (settings_reject settings_ErrStore ''publish''), st)
      | Some c \<Rightarrow>
          (case snapshot of
             None \<Rightarrow> (Some (settings_reject settings_ErrSnapshot ''publish''), st)
           | Some owned \<Rightarrow>
               if \<not> frozen_as T owned
               then (Some (settings_reject settings_ErrSnapshot ''publish''), st)
               else (None, st\<lparr>cells := (cells st)[c := Some owned]\<rparr>)))"

definition Capture :: "cell option \<Rightarrow> settings_state \<Rightarrow> gerr + data" where
  "Capture reader st =
     (case reader of
        None \<Rightarrow> Inl (settings_reject settings_ErrUnconfigured ''capture'')
      | Some c \<Rightarrow>
          (case cells st ! c of
             None \<Rightarrow> Inl (settings_reject settings_ErrUnconfigured ''capture'')
           | Some owned \<Rightarrow> Inr owned))"

section \<open>The process default\<close>

definition Configure :: "cell option \<Rightarrow> settings_state \<Rightarrow> gerr option \<times> settings_state" where
  "Configure reader st =
     (case Capture reader st of
        Inl _ \<Rightarrow> (Some (settings_reject settings_ErrUnconfigured ''configure''), st)
      | Inr _ \<Rightarrow>
          if application st \<noteq> None
          then (Some (settings_reject settings_ErrConfigured ''configure''), st)
          else (None, st\<lparr>application := reader\<rparr>))"

definition Configured :: "settings_state \<Rightarrow> bool" where
  "Configured st = (application st \<noteq> None)"

definition Default :: "settings_state \<Rightarrow> gerr + data" where
  "Default st =
     (case Capture (application st) st of
        Inl _ \<Rightarrow> Inl (settings_reject settings_ErrUnconfigured ''default'')
      | Inr view \<Rightarrow> Inr view)"

text \<open>The operations as steps. A store or reader handle is zero or came from
  \<^verbatim>\<open>NewStore\<close>.\<close>

definition handle_ok :: "settings_state \<Rightarrow> cell option \<Rightarrow> bool" where
  "handle_ok st handle = (case handle of None \<Rightarrow> True | Some c \<Rightarrow> c < length (cells st))"

inductive settings_step :: "settings_state \<Rightarrow> settings_state \<Rightarrow> bool" where
  new_store: "settings_step st (snd (NewStore st))"
| publish: "handle_ok st store \<Longrightarrow> settings_step st (snd (Publish T store snapshot st))"
| configure: "handle_ok st reader \<Longrightarrow> settings_step st (snd (Configure reader st))"

inductive_cases settings_stepE: "settings_step st st'"

section \<open>Invariant\<close>

text \<open>The default is installed only for a cell that holds a snapshot.\<close>

definition settings_inv :: "settings_state \<Rightarrow> bool" where
  "settings_inv st =
     (case application st of None \<Rightarrow> True | Some c \<Rightarrow> c < length (cells st) \<and> cells st ! c \<noteq> None)"

lemmas settings_ops = NewStore_def Publish_def Configure_def Capture_def

interpretation store: transition_system "\<lambda>st. st = settings_init" settings_step settings_inv
proof
  show "settings_inv st" if "st = settings_init" for st
    using that by (simp add: settings_inv_def settings_init_def)
  show "settings_inv st'" if "settings_inv st" "settings_step st st'" for st st'
    using that(2, 1)
    by cases (auto simp: settings_inv_def settings_ops handle_ok_def nth_append nth_list_update
        split: option.splits sum.splits if_splits)
qed

lemma installed_kept:
  "settings_step st st' \<Longrightarrow> application st = Some c \<Longrightarrow> application st' = Some c"
  by (erule settings_stepE) (auto simp: settings_ops split: option.splits sum.splits)

text \<open>Once \<^verbatim>\<open>Configure\<close> has installed a reader in a state the package can reach, no
  later sequence of operations replaces or empties it: the default stays that cell,
  \<^verbatim>\<open>Default\<close> always captures a snapshot, and it is the one the cell holds at that moment.\<close>

theorem default_installed_once:
  assumes "reach (\<lambda>st. st = settings_init) settings_step st" and "application st = Some c"
    and "settings_step\<^sup>*\<^sup>* st st'"
  shows "application st' = Some c \<and> c < length (cells st') \<and>
    (\<exists>view. cells st' ! c = Some view \<and> Default st' = Inr view) \<and>
    fst (Configure reader st') \<noteq> None"
proof -
  have inv: "settings_inv st" by (rule store.reach_inv [OF assms(1)])
  have "application st' = Some c"
    using store.steps_related [OF assms(3) inv, of "\<lambda>_ t. application t = Some c"]
      installed_kept assms(2) by blast
  moreover have "settings_inv st'"
    by (rule store.steps_inv [OF assms(3) inv])
  ultimately show ?thesis
    by (auto simp: settings_inv_def Default_def Capture_def Configure_def split: option.splits)
qed

text \<open>The configured states the witness starts from.\<close>

definition settings_example :: data where
  "settings_example = \<lparr>data_value = LeafV ''int'' ''1'', data_clone = (\<lambda>v. v)\<rparr>"

theorem default_installed_once_witness:
  "let st = \<lparr>cells = [Some settings_example], application = Some 0\<rparr>;
       st' = snd (Publish ''int'' (Some 0) (Some (settings_example\<lparr>data_value := LeafV ''int'' ''2''\<rparr>)) st)
   in Default st' = Inr (settings_example\<lparr>data_value := LeafV ''int'' ''2''\<rparr>)"
proof -
  let ?new = "settings_example\<lparr>data_value := LeafV ''int'' ''2''\<rparr>"
  let ?one = "\<lparr>cells = [None], application = None\<rparr>"
  let ?two = "\<lparr>cells = [Some settings_example], application = None\<rparr>"
  let ?st = "\<lparr>cells = [Some settings_example], application = Some 0\<rparr>"
  have "settings_step settings_init ?one"
    using settings_step.new_store [of settings_init] by (simp add: NewStore_def settings_init_def)
  moreover have "settings_step ?one ?two"
    using settings_step.publish [of ?one "Some 0" "''int''" "Some settings_example"]
    by (simp add: handle_ok_def Publish_def frozen_as_def settings_example_def)
  moreover have "settings_step ?two ?st"
    using settings_step.configure [of ?two "Some 0"]
    by (simp add: handle_ok_def Configure_def Capture_def)
  ultimately have r: "reach (\<lambda>st. st = settings_init) settings_step ?st"
    using reach_initial [of "\<lambda>st. st = settings_init", OF refl] reach_step by metis
  have p: "snd (Publish ''int'' (Some 0) (Some ?new) ?st) = ?st\<lparr>cells := [Some ?new]\<rparr>"
    by (simp add: Publish_def frozen_as_def)
  have "settings_step\<^sup>*\<^sup>* ?st (?st\<lparr>cells := [Some ?new]\<rparr>)"
    using settings_step.publish [of ?st "Some 0" "''int''" "Some ?new"]
    unfolding p by (simp add: handle_ok_def r_into_rtranclp)
  from default_installed_once [OF r _ this, of 0] show ?thesis
    unfolding Let_def p by auto
qed

end
