(* ===== verification/Resource_Options.thy ===== *)
theory Resource_Options
  imports Settings_Store
begin

text \<open>
  The declarations, contexts and options of \<^verbatim>\<open>resource/v1\<close>: \<^verbatim>\<open>definitions.go\<close> and
  \<^verbatim>\<open>options.go\<close>. A \<^verbatim>\<open>context.Context\<close> is what the code reads of it at one moment, its error and
  its cause; functions that read it more than once take one observation per read.
\<close>

section \<open>Declarations\<close>

abbreviation resource_ErrOptions :: code where
  "resource_ErrOptions \<equiv> compose_code FacilityResource 0x0001"

abbreviation resource_ErrScope :: code where
  "resource_ErrScope \<equiv> compose_code FacilityResource 0x0002"

abbreviation resource_ErrClosed :: code where
  "resource_ErrClosed \<equiv> compose_code FacilityResource 0x0003"

abbreviation resource_ErrSealed :: code where
  "resource_ErrSealed \<equiv> compose_code FacilityResource 0x0004"

abbreviation resource_ErrLimit :: code where
  "resource_ErrLimit \<equiv> compose_code FacilityResource 0x0005"

abbreviation resource_ErrSelection :: code where
  "resource_ErrSelection \<equiv> compose_code FacilityResource 0x0006"

abbreviation resource_ErrBuild :: code where
  "resource_ErrBuild \<equiv> compose_code FacilityResource 0x0007"

abbreviation resource_ErrUnavailable :: code where
  "resource_ErrUnavailable \<equiv> compose_code FacilityResource 0x0008"

abbreviation resource_ErrLease :: code where
  "resource_ErrLease \<equiv> compose_code FacilityResource 0x0009"

abbreviation resource_ErrSuperseded :: code where
  "resource_ErrSuperseded \<equiv> compose_code FacilityResource 0x000A"

abbreviation resource_ErrWait :: code where
  "resource_ErrWait \<equiv> compose_code FacilityResource 0x000B"

abbreviation resource_ErrCleanup :: code where
  "resource_ErrCleanup \<equiv> compose_code FacilityResource 0x000C"

abbreviation resource_ErrSerialization :: code where
  "resource_ErrSerialization \<equiv> compose_code FacilityResource 0x000D"

definition resource_text :: "code \<Rightarrow> string \<times> string \<times> string" where
  "resource_text code =
     (if code = resource_ErrOptions then
        (''invalid_options'', ''The resource declaration or options are invalid.'', [])
      else if code = resource_ErrScope then
        (''invalid_scope'', ''The resource scope or handle is not initialized.'', [])
      else if code = resource_ErrClosed then
        (''closed'', ''The resource scope or observation is closing or closed.'', [])
      else if code = resource_ErrSealed then
        (''declarations_sealed'', ''Resource declarations are already sealed.'', [])
      else if code = resource_ErrLimit then
        (''limit_exceeded'', ''A resource ownership or admission bound was exceeded.'', [])
      else if code = resource_ErrSelection then
        (''selection_failed'', ''The component configuration could not be selected.'', [])
      else if code = resource_ErrBuild then
        (''construction_failed'', ''The resource candidate could not be constructed or adopted.'', [])
      else if code = resource_ErrUnavailable then
        (''not_available'', ''No active resource generation is available.'', [])
      else if code = resource_ErrLease then
        (''invalid_lease'', ''The resource lease is invalid or has already been released.'', [])
      else if code = resource_ErrSuperseded then
        (''superseded'', ''The resource configuration target was superseded before adoption.'', [])
      else if code = resource_ErrWait then
        (''wait_interrupted'', ''Waiting ended without confirming completion.'', [])
      else if code = resource_ErrCleanup then
        (''cleanup_failed'', ''Resource cleanup reported a failure or remains incomplete.'', [])
      else if code = resource_ErrSerialization then
        (''runtime_serialization'', ''Resource runtime handle serialization is unsupported.'', [])
      else ([], [], []))"

abbreviation resource_codes :: "code list" where
  "resource_codes \<equiv>
     [resource_ErrOptions, resource_ErrScope, resource_ErrClosed, resource_ErrSealed, resource_ErrLimit, resource_ErrSelection, resource_ErrBuild, resource_ErrUnavailable, resource_ErrLease, resource_ErrSuperseded, resource_ErrWait, resource_ErrCleanup, resource_ErrSerialization]"

abbreviation resource_contract :: Contract where
  "resource_contract \<equiv> \<lparr>contract_id = ''fathomry.resource.details'', contract_version = 1\<rparr>"

definition resource_definition :: "code \<Rightarrow> Definition" where
  "resource_definition code =
     (case resource_text code of (name, message, _) \<Rightarrow>
        \<lparr>def_code = code, def_identifier = ''fathomry.resource.'' @ name,
         def_module = ''fathomry'', def_component = ''resource'', def_revision = 1,
         def_message = message, def_description = [], def_details = resource_contract\<rparr>)"

definition Definitions_resource :: "Definition list" where
  "Definitions_resource = map resource_definition resource_codes"

definition resource_fail ::
  "code \<Rightarrow> string \<Rightarrow> string \<Rightarrow> resource_details \<Rightarrow> gerr option list \<Rightarrow> gerr" where
  "resource_fail code operation name details causes =
     (case NewDetailed (resource_definition code)
         \<lparr>loc_operation = operation, loc_instance = name\<rparr>
         (ResourceDetails details) (Some (\<lambda>v. v)) causes of
        Inl err \<Rightarrow> err
      | Inr occurrence \<Rightarrow> occurrence)"

abbreviation no_details :: resource_details where
  "no_details \<equiv> \<lparr>resource_scope = [], resource_target = 0, resource_generation = 0,
     resource_pending = False\<rparr>"

section \<open>Contexts\<close>

record go_ctx =
  ctx_err :: "gerr option"
  ctx_cause :: "gerr option"

definition live_ctx :: go_ctx where
  "live_ctx = \<lparr>ctx_err = None, ctx_cause = None\<rparr>"

text \<open>\<^verbatim>\<open>context.Canceled\<close>, and the effect of a \<^verbatim>\<open>CancelCauseFunc\<close>: the first call
  decides, and a nil cause stands for the error itself.\<close>

abbreviation Canceled :: gerr where
  "Canceled \<equiv> Native 1 []"

definition cancel_ctx :: "gerr option \<Rightarrow> go_ctx \<Rightarrow> go_ctx" where
  "cancel_ctx cause ctx =
     (if ctx_err ctx \<noteq> None then ctx
      else \<lparr>ctx_err = Some Canceled,
            ctx_cause = (if cause = None then Some Canceled else cause)\<rparr>)"

section \<open>Options\<close>

type_synonym Policy = "8 word"

abbreviation Fixed :: Policy where
  "Fixed \<equiv> 0"

abbreviation Follow :: Policy where
  "Follow \<equiv> 1"

text \<open>Durations are in nanoseconds.\<close>

record Options =
  opt_name :: string
  opt_max_bindings :: int
  opt_max_preparing :: int
  opt_cleanup_timeout :: int

definition resource_name_rune :: "rune \<Rightarrow> bool" where
  "resource_name_rune char =
     (is_lower char \<or> is_upper char \<or> is_digit char \<or> char = 0x2E \<or> char = 0x2D \<or> char = 0x5F)"

definition validName :: "string \<Rightarrow> bool" where
  "validName name =
     (\<not> (name = [] \<or> length name > 64) \<and> list_all resource_name_rune (runes name))"

definition default_to :: "int \<Rightarrow> int \<Rightarrow> int" where
  "default_to fallback limit = (if limit = 0 then fallback else limit)"

definition resource_normalize :: "Options \<Rightarrow> gerr + Options" where
  "resource_normalize opts =
     (if opt_name opts \<noteq> [] \<and> \<not> validName (opt_name opts)
      then Inl (resource_fail resource_ErrOptions ''new'' [] no_details [])
      else
        (let bindings = default_to 64 (opt_max_bindings opts);
             preparing = default_to 4 (opt_max_preparing opts);
             timeout = default_to (5 * 10 ^ 9) (opt_cleanup_timeout opts)
         in if bindings < 1 \<or> bindings > 256 \<or> preparing < 1 \<or> preparing > 64 \<or>
              timeout < 10 ^ 6 \<or> timeout > 60 * 10 ^ 9
            then Inl (resource_fail resource_ErrOptions ''new'' [] no_details [])
            else Inr \<lparr>opt_name = opt_name opts, opt_max_bindings = bindings,
                  opt_max_preparing = preparing, opt_cleanup_timeout = timeout\<rparr>))"

text \<open>A binding declaration, its callbacks optional; \<open>decl_build\<close> says whether the
  constructor is present, whose outcomes are arguments of the steps that report them.\<close>

record 'c Binding =
  decl_name :: string
  decl_policy :: Policy
  decl_select :: "(data option \<Rightarrow> gerr + 'c) option"
  decl_clone :: "('c \<Rightarrow> 'c) option"
  decl_equal :: "('c \<Rightarrow> 'c \<Rightarrow> bool) option"
  decl_build :: bool
  decl_max_generations :: int
  decl_max_borrowers :: int

text \<open>The options an admitted binding keeps: the callbacks it requires are present.\<close>

record 'c binding_options =
  bopt_name :: string
  bopt_policy :: Policy
  bopt_select :: "data option \<Rightarrow> gerr + 'c"
  bopt_clone :: "'c \<Rightarrow> 'c"
  bopt_equal :: "('c \<Rightarrow> 'c \<Rightarrow> bool) option"
  bopt_max_generations :: int
  bopt_max_borrowers :: int

text \<open>The part of \<^verbatim>\<open>Bind\<close> that checks a declaration and selects its defaults.\<close>

definition check_binding :: "string \<Rightarrow> 'c Binding \<Rightarrow> gerr + 'c binding_options" where
  "check_binding scope decl =
     (let refused = Inl (resource_fail resource_ErrOptions ''bind'' []
            (no_details\<lparr>resource_scope := scope\<rparr>) [])
      in case (decl_select decl, decl_clone decl) of
           (Some select, Some clone) \<Rightarrow>
             if \<not> validName (decl_name decl) \<or>
               decl_policy decl \<noteq> Fixed \<and> decl_policy decl \<noteq> Follow \<or> \<not> decl_build decl \<or>
               decl_policy decl = Follow \<and> decl_equal decl = None
             then refused
             else
               (let generations = default_to 2 (decl_max_generations decl);
                    borrowers = default_to 1024 (decl_max_borrowers decl)
                in if generations < 2 \<or> generations > 16 \<or> borrowers < 1 \<or> borrowers > 65536
                   then refused
                   else Inr \<lparr>bopt_name = decl_name decl, bopt_policy = decl_policy decl,
                         bopt_select = select, bopt_clone = clone, bopt_equal = decl_equal decl,
                         bopt_max_generations = generations, bopt_max_borrowers = borrowers\<rparr>)
         | _ \<Rightarrow> refused)"

section \<open>The package's declarations are admissible\<close>

lemma allocated_resource:
  "def_module d = ''fathomry'' \<Longrightarrow> def_component d = ''resource'' \<Longrightarrow>
   allocated_to Allocations FacilityResource d"
  by (simp add: Allocations_def)

lemma FacilityResource_valid [simp]: "Facility_Valid FacilityResource"
  by (simp add: Facility_Valid_def)

interpretation resource: declarations "''resource''" FacilityResource resource_contract
  resource_codes resource_text resource_definition
proof unfold_locales
  show "list_all (\<lambda>c. plain_entry (resource_text c)) resource_codes"
    by (simp add: resource_text_def plain_entry_def plain_text_def label_syntax)
  show "distinct (map (\<lambda>c. fst (resource_text c)) resource_codes)"
    by (simp add: resource_text_def)
  have "list_all (\<lambda>c. snd (snd (resource_text c)) = []) resource_codes"
    by (simp add: resource_text_def)
  then show "resource_definition c =
      \<lparr>def_code = c, def_identifier = ''fathomry.'' @ ''resource'' @ ''.'' @ fst (resource_text c),
       def_module = ''fathomry'', def_component = ''resource'', def_revision = 1,
       def_message = fst (snd (resource_text c)), def_description = snd (snd (resource_text c)),
       def_details = resource_contract\<rparr>" if "c \<in> set resource_codes" for c
    using that unfolding list_all_iff by (auto simp: resource_definition_def split: prod.split)
qed (simp_all only: allocated_resource, simp_all add: label_syntax)

lemma validName_instance: "validName name \<Longrightarrow> instanceLabel name"
proof -
  assume "validName name"
  then have "length name \<le> 128" and "list_all resource_name_rune (runes name)"
    by (auto simp: validName_def)
  then show ?thesis
    by (auto simp: instanceLabel_def list_all_iff resource_name_rune_def instance_rune_def)
qed

text \<open>A failure of this package carries the requested code, never a construction error, as long as
  its operation is a namespace, its instance a valid name and its causes fit.\<close>

lemma resource_fail_occurrence:
  assumes "c \<in> set resource_codes" and "namespace operation 64"
    and "name = [] \<or> validName name" and "length causes \<le> MaxCauses"
  shows "resource_fail c operation name details causes =
    Detailed \<lparr>diag_definition = resource_definition c,
      diag_location = \<lparr>loc_operation = operation, loc_instance = name\<rparr>,
      diag_cause_count = length (non_nil causes)\<rparr> (non_nil causes) (ResourceDetails details)"
proof -
  have "Location_Valid \<lparr>loc_operation = operation, loc_instance = name\<rparr>"
    using assms(2, 3) by (auto simp: Location_Valid_def validName_instance)
  then show ?thesis
    using resource.detailed_occurrence [OF assms(1) _ assms(4), where clone = "\<lambda>v. v"]
    by (simp add: resource_fail_def)
qed

lemma own_code_resource_fail:
  assumes "c \<in> set resource_codes" and "namespace operation 64"
    and "name = [] \<or> validName name" and "length causes \<le> MaxCauses"
  shows "own_code (resource_fail c operation name details causes) = c"
  using resource.definition_of_code [OF assms(1)]
  by (simp add: resource_fail_occurrence [OF assms])

lemma normalize_Inr:
  assumes "resource_normalize opts = Inr norm"
  shows "opt_name norm = [] \<or> validName (opt_name norm)"
    and "opt_max_bindings norm \<in> {1..256}" and "opt_max_preparing norm \<in> {1..64}"
    and "opt_cleanup_timeout norm \<in> {10 ^ 6..60 * 10 ^ 9}"
proof -
  let ?b = "default_to 64 (opt_max_bindings opts)" and ?p = "default_to 4 (opt_max_preparing opts)"
    and ?t = "default_to (5 * 10 ^ 9) (opt_cleanup_timeout opts)"
  have "norm = \<lparr>opt_name = opt_name opts, opt_max_bindings = ?b, opt_max_preparing = ?p,
      opt_cleanup_timeout = ?t\<rparr>"
    and "\<not> (opt_name opts \<noteq> [] \<and> \<not> validName (opt_name opts))"
    and "\<not> (?b < 1 \<or> ?b > 256 \<or> ?p < 1 \<or> ?p > 64 \<or> ?t < 10 ^ 6 \<or> ?t > 60 * 10 ^ 9)"
    using assms unfolding resource_normalize_def Let_def by (simp_all split: if_splits)
  then show "opt_name norm = [] \<or> validName (opt_name norm)"
    and "opt_max_bindings norm \<in> {1..256}" and "opt_max_preparing norm \<in> {1..64}"
    and "opt_cleanup_timeout norm \<in> {10 ^ 6..60 * 10 ^ 9}"
    by auto
qed

lemma normalize_again:
  assumes "opt_name norm = [] \<or> validName (opt_name norm)"
    and "opt_max_bindings norm \<in> {1..256}" and "opt_max_preparing norm \<in> {1..64}"
    and "opt_cleanup_timeout norm \<in> {10 ^ 6..60 * 10 ^ 9}"
  shows "resource_normalize norm = Inr norm"
  using assms unfolding resource_normalize_def Let_def by (simp add: default_to_def)

lemma check_binding_Inr:
  assumes "check_binding scope decl = Inr bopts"
  shows "validName (bopt_name bopts) \<and> bopt_max_generations bopts \<in> {2..16} \<and>
    bopt_max_borrowers bopts \<in> {1..65536} \<and>
    bopt_policy bopts \<in> {Fixed, Follow} \<and> (bopt_policy bopts = Follow \<longrightarrow> bopt_equal bopts \<noteq> None)"
  using assms unfolding check_binding_def Let_def by (auto split: if_splits option.splits)

text \<open>Admitted options lie within the documented bounds, whatever was requested, normalising
  them again changes nothing, and an accepted binding declaration has between 2 and 16 generations,
  between 1 and 65536 borrowers, a valid name, a known policy and, when it follows its configuration, a
  comparison.\<close>

theorem options_bounded:
  "(resource_normalize opts = Inr norm \<longrightarrow>
      (opt_name norm = [] \<or> validName (opt_name norm)) \<and>
      opt_max_bindings norm \<in> {1..256} \<and> opt_max_preparing norm \<in> {1..64} \<and>
      opt_cleanup_timeout norm \<in> {10 ^ 6..60 * 10 ^ 9} \<and>
      resource_normalize norm = Inr norm) \<and>
   (check_binding scope decl = Inr bopts \<longrightarrow>
      validName (bopt_name bopts) \<and> bopt_max_generations bopts \<in> {2..16} \<and>
      bopt_max_borrowers bopts \<in> {1..65536} \<and>
      bopt_policy bopts \<in> {Fixed, Follow} \<and>
      (bopt_policy bopts = Follow \<longrightarrow> bopt_equal bopts \<noteq> None))"
  using normalize_Inr [of opts norm] normalize_again [of norm] check_binding_Inr [of scope decl bopts]
  by blast

theorem options_bounded_witness:
  "resource_normalize \<lparr>opt_name = [], opt_max_bindings = 0, opt_max_preparing = 0,
       opt_cleanup_timeout = 0\<rparr> =
     Inr \<lparr>opt_name = [], opt_max_bindings = 64, opt_max_preparing = 4,
       opt_cleanup_timeout = 5 * 10 ^ 9\<rparr> \<and>
   resource_normalize \<lparr>opt_name = [], opt_max_bindings = 64, opt_max_preparing = 4,
       opt_cleanup_timeout = 5 * 10 ^ 9\<rparr> =
     Inr \<lparr>opt_name = [], opt_max_bindings = 64, opt_max_preparing = 4,
       opt_cleanup_timeout = 5 * 10 ^ 9\<rparr>"
proof -
  let ?norm = "\<lparr>opt_name = [], opt_max_bindings = 64, opt_max_preparing = 4,
    opt_cleanup_timeout = 5 * 10 ^ 9\<rparr>"
  have "resource_normalize \<lparr>opt_name = [], opt_max_bindings = 0, opt_max_preparing = 0,
       opt_cleanup_timeout = 0\<rparr> = Inr ?norm"
    by (simp add: resource_normalize_def default_to_def)
  with options_bounded [of "\<lparr>opt_name = [], opt_max_bindings = 0, opt_max_preparing = 0,
       opt_cleanup_timeout = 0\<rparr>" ?norm "[]" undefined undefined]
  show ?thesis by auto
qed

end
