(* ===== verification/Resource_Binding.thy ===== *)
theory Resource_Binding
  imports Resource_Options
begin

text \<open>
  One binding of a scope: its coordinator, generations, targets and leases
  (\<^verbatim>\<open>resource/v1/binding.go\<close>, \<^verbatim>\<open>lease.go\<close>, \<^verbatim>\<open>update.go\<close>). The state is the
  \<^verbatim>\<open>binding\<close> struct. Pointers are numbers: a generation is its construction number, a target and
  the selection it was created with are their version, a lease is its position. Every critical
  section of the mutex is one function; the coordinator goroutine is a program counter. What
  happens between sections (selection, construction and release callbacks, waiting) is where other
  sections interleave; outcomes of callbacks are arguments.
\<close>

section \<open>State\<close>

record target =
  tgt_settled :: bool
  tgt_generation :: nat
  tgt_err :: "gerr option"

record 'c selection =
  sel_value :: 'c
  sel_version :: nat

record ('c, 't) generation =
  gen_selection :: "'c selection"
  gen_ctx :: go_ctx
  gen_value :: "'t option"
  gen_release :: bool
  gen_borrows :: int
  gen_cleaning :: bool
  gen_blocked :: bool

text \<open>\<^verbatim>\<open>Instance\<close> and \<^verbatim>\<open>ReleaseResult\<close>; \<open>inst_release\<close> says whether a release
  function came with the value.\<close>

record 't Instance =
  inst_value :: 't
  inst_release :: bool

record ReleaseResult =
  rel_complete :: bool
  rel_err :: "gerr option"

text \<open>\<^verbatim>\<open>Lease.Release\<close> claims the release authority first and returns the borrow afterwards.\<close>

datatype stage = Held | Releasing | Returned

record 't lease =
  lease_generation :: nat
  lease_value :: "'t option"
  lease_stage :: stage

text \<open>The closure \<^verbatim>\<open>prepare\<close> returns: keep the current target, or install a selection given
  what was read (previous selection, active generation) and whether the active one is equal.\<close>

datatype 'c commit_plan =
    KeepTarget nat
  | InstallTarget "'c selection option" "nat option" 'c bool

datatype coordinator = Looping | Constructing nat | Cleaning nat | Waiting | Exited

record ('c, 't) binding =
  b_wake :: bool
  b_notices :: nat
  b_coordinator :: coordinator
  b_stopping :: bool
  b_exited :: bool
  b_desired :: "'c selection option"
  b_wanted :: bool
  b_active :: "nat option"
  b_pending :: "nat option"
  b_retired :: "nat list"
  b_version :: nat
  b_generation :: nat
  b_applied :: nat
  b_lastError :: "gerr option"
  b_cleanupError :: "gerr option"
  b_terminalCleanup :: "gerr option"
  b_cleanupFailures :: nat
  b_gens :: "nat \<rightharpoonup> ('c, 't) generation"
  b_targets :: "nat \<rightharpoonup> target"
  b_leases :: "'t lease list"
  b_prepared :: "'c commit_plan option"

definition new_binding :: "('c, 't) binding" where
  "new_binding =
     \<lparr>b_wake = False, b_notices = 0, b_coordinator = Looping, b_stopping = False, b_exited = False,
      b_desired = None, b_wanted = False, b_active = None, b_pending = None, b_retired = [],
      b_version = 0, b_generation = 0, b_applied = 0, b_lastError = None, b_cleanupError = None,
      b_terminalCleanup = None, b_cleanupFailures = 0, b_gens = Map.empty, b_targets = Map.empty,
      b_leases = [], b_prepared = None\<rparr>"

text \<open>What a binding reads of its scope at one moment: the scope's name, whether
  \<^verbatim>\<open>stopped()\<close> holds, and its base context.\<close>

record scope_env =
  env_name :: string
  env_stopped :: bool
  env_base :: go_ctx

definition binding_details :: "scope_env \<Rightarrow> nat \<Rightarrow> nat \<Rightarrow> bool \<Rightarrow> resource_details" where
  "binding_details env target generation pending =
     \<lparr>resource_scope = env_name env, resource_target = target, resource_generation = generation,
      resource_pending = pending\<rparr>"

section \<open>Targets, generations and signals\<close>

definition signal :: "('c, 't) binding \<Rightarrow> ('c, 't) binding" where
  "signal st = st\<lparr>b_wake := True, b_notices := Suc (b_notices st)\<rparr>"

definition newTarget :: "nat \<Rightarrow> ('c, 't) binding \<Rightarrow> ('c, 't) binding" where
  "newTarget version st =
     st\<lparr>b_targets := (b_targets st)(version \<mapsto>
        \<lparr>tgt_settled = False, tgt_generation = 0, tgt_err = None\<rparr>)\<rparr>"

definition settle :: "nat \<Rightarrow> nat \<Rightarrow> gerr option \<Rightarrow> ('c, 't) binding \<Rightarrow> ('c, 't) binding" where
  "settle version generation err st =
     (case b_targets st version of
        None \<Rightarrow> st
      | Some target \<Rightarrow>
          if tgt_settled target then st
          else st\<lparr>b_targets := (b_targets st)(version \<mapsto>
            \<lparr>tgt_settled = True, tgt_generation = generation, tgt_err = err\<rparr>)\<rparr>)"

definition target_result :: "nat \<Rightarrow> ('c, 't) binding \<Rightarrow> bool \<times> gerr option" where
  "target_result version st =
     (case b_targets st version of
        None \<Rightarrow> (False, None)
      | Some target \<Rightarrow> (tgt_settled target, tgt_err target))"

definition update_gen ::
  "nat \<Rightarrow> (('c, 't) generation \<Rightarrow> ('c, 't) generation) \<Rightarrow> ('c, 't) binding \<Rightarrow> ('c, 't) binding" where
  "update_gen g f st = st\<lparr>b_gens := (b_gens st)(g := map_option f (b_gens st g))\<rparr>"

definition borrows_of :: "('c, 't) binding \<Rightarrow> nat \<Rightarrow> int" where
  "borrows_of st g = (case b_gens st g of None \<Rightarrow> 0 | Some gen \<Rightarrow> gen_borrows gen)"

definition blocked_of :: "('c, 't) binding \<Rightarrow> nat \<Rightarrow> bool" where
  "blocked_of st g = (case b_gens st g of None \<Rightarrow> False | Some gen \<Rightarrow> gen_blocked gen)"

definition cancel_gen :: "gerr option \<Rightarrow> nat \<Rightarrow> ('c, 't) binding \<Rightarrow> ('c, 't) binding" where
  "cancel_gen cause g st = update_gen g (\<lambda>gen. gen\<lparr>gen_ctx := cancel_ctx cause (gen_ctx gen)\<rparr>) st"

definition unblock :: "('c, 't) binding \<Rightarrow> ('c, 't) binding" where
  "unblock st = fold (\<lambda>g. update_gen g (\<lambda>gen. gen\<lparr>gen_blocked := False\<rparr>)) (b_retired st) st"

section \<open>Selection\<close>

definition equal_to :: "('c \<Rightarrow> 'c \<Rightarrow> bool) option \<Rightarrow> 'c option \<Rightarrow> 'c \<Rightarrow> bool" where
  "equal_to equal found value =
     (case (equal, found) of (Some eq, Some old) \<Rightarrow> eq old value | _ \<Rightarrow> False)"

definition prepare ::
  "scope_env \<Rightarrow> 'c binding_options \<Rightarrow> data option \<Rightarrow> ('c, 't) binding \<Rightarrow> gerr + 'c commit_plan" where
  "prepare env opts view st =
     (let previous = b_desired st; active = b_active st; version = b_version st in
      if bopt_policy opts = Fixed \<and> previous \<noteq> None
      then Inr (KeepTarget (sel_version (the previous)))
      else
        (case bopt_select opts view of
           Inl err \<Rightarrow>
             Inl (resource_fail resource_ErrSelection ''select'' (bopt_name opts)
               (binding_details env 0 0 False) [Some err])
         | Inr selected \<Rightarrow>
             (let value = bopt_clone opts selected;
                  equalDesired = equal_to (bopt_equal opts) (map_option sel_value previous) value;
                  equalActive = equal_to (bopt_equal opts)
                    (map_option (\<lambda>gen. sel_value (gen_selection gen))
                      (Option.bind active (b_gens st))) value
              in if equalDesired then Inr (KeepTarget (sel_version (the previous)))
                 else if version = MaxUint64
                 then Inl (resource_fail resource_ErrLimit ''apply'' (bopt_name opts)
                   (binding_details env version 0 False) [])
                 else Inr (InstallTarget previous active value equalActive))))"

fun commit ::
  "scope_env \<Rightarrow> 'c binding_options \<Rightarrow> 'c commit_plan \<Rightarrow> ('c, 't) binding \<Rightarrow> nat \<times> ('c, 't) binding"
  where
  "commit env opts (KeepTarget version) st = (version, st)"
| "commit env opts (InstallTarget previous active value equalActive) st =
     (let superseded = (case previous of
            None \<Rightarrow> st
          | Some old \<Rightarrow> settle (sel_version old) 0
              (Some (resource_fail resource_ErrSuperseded ''apply'' (bopt_name opts)
                (binding_details env (sel_version old) 0 False) [])) st);
          version = inc64 (b_version superseded);
          installed = (newTarget version superseded)
            \<lparr>b_version := version, b_desired := Some \<lparr>sel_value = value, sel_version = version\<rparr>,
             b_lastError := None, b_wanted := True\<rparr>;
          cancelled = (case b_pending installed of
            None \<Rightarrow> installed
          | Some g \<Rightarrow> cancel_gen (Some (CodeError resource_ErrSuperseded)) g installed);
          adopted = (case active of
            Some g \<Rightarrow>
              if equalActive \<and> b_active cancelled = active
              then settle version g None (cancelled\<lparr>b_wanted := False, b_applied := version\<rparr>)
              else cancelled
          | None \<Rightarrow> cancelled)
      in (version, signal adopted))"

text \<open>The locked part of \<^verbatim>\<open>retry\<close>: what it reads of the scope (whether it is closing, the
  admitted sequence) are arguments; the results are the next sequence, the target of the receipt
  and the state.\<close>

definition retry_locked ::
  "scope_env \<Rightarrow> 'c binding_options \<Rightarrow> bool \<Rightarrow> go_ctx \<Rightarrow> nat \<Rightarrow> ('c, 't) binding \<Rightarrow>
     gerr + nat \<times> nat \<times> ('c, 't) binding" where
  "retry_locked env opts closing ctx sequence st =
     (let name = bopt_name opts in
      if closing
      then Inl (resource_fail resource_ErrClosed ''retry'' name (binding_details env 0 0 False) [])
      else if ctx_err ctx \<noteq> None
      then Inl (resource_fail resource_ErrWait ''retry'' name (binding_details env 0 0 False)
        [ctx_err ctx, ctx_cause ctx])
      else
        (case b_desired st of
           None \<Rightarrow> Inl (resource_fail resource_ErrUnavailable ''retry'' name
             (binding_details env 0 0 False) [])
         | Some desired \<Rightarrow>
             if sequence = MaxUint64
             then Inl (resource_fail resource_ErrLimit ''retry'' name
               (binding_details env (b_version st) 0 False) [])
             else
               (case target_result (sel_version desired) st of (settled, result) \<Rightarrow>
                  let again = settled \<and> result \<noteq> None \<and> b_pending st = None in
                  if again \<and> b_version st = MaxUint64
                  then Inl (resource_fail resource_ErrLimit ''retry'' name
                    (binding_details env (b_version st) 0 False) [])
                  else
                    (let version = inc64 (b_version st);
                         renewed = (if again
                           then (newTarget version st)
                             \<lparr>b_version := version,
                              b_desired := Some (desired\<lparr>sel_version := version\<rparr>),
                              b_wanted := True, b_lastError := None\<rparr>
                           else st)
                     in Inr (inc64 sequence, (if again then version else sel_version desired),
                          signal (unblock renewed))))))"

section \<open>Stopping\<close>

definition stop ::
  "scope_env \<Rightarrow> 'c binding_options \<Rightarrow> gerr option \<Rightarrow> ('c, 't) binding \<Rightarrow> ('c, 't) binding" where
  "stop env opts cause st =
     (if b_stopping st then st
      else
        (let stopping = st\<lparr>b_stopping := True\<rparr>;
             settled = (case b_desired stopping of
               None \<Rightarrow> stopping
             | Some desired \<Rightarrow> settle (sel_version desired) 0
                 (Some (resource_fail resource_ErrClosed ''stop'' (bopt_name opts)
                   (binding_details env (b_version stopping) 0 True) [cause])) stopping);
             cancelled = (case b_pending settled of
               None \<Rightarrow> settled
             | Some g \<Rightarrow> cancel_gen cause g settled);
             retired = (case b_active cancelled of
               None \<Rightarrow> cancelled
             | Some g \<Rightarrow> cancelled\<lparr>b_retired := b_retired cancelled @ [g], b_active := None\<rparr>)
         in signal retired))"

definition retryCleanup :: "('c, 't) binding \<Rightarrow> ('c, 't) binding" where
  "retryCleanup st = signal (unblock st)"

section \<open>Leases\<close>

text \<open>\<^verbatim>\<open>acquire\<close>; \<open>early\<close> and \<open>late\<close> are the context before and under the lock.\<close>

definition acquire ::
  "scope_env \<Rightarrow> 'c binding_options \<Rightarrow> go_ctx option \<Rightarrow> go_ctx \<Rightarrow> ('c, 't) binding \<Rightarrow>
     (gerr + nat) \<times> ('c, 't) binding" where
  "acquire env opts early late st =
     (let name = bopt_name opts; waited = (\<lambda>ctx. resource_fail resource_ErrWait ''acquire'' name
            (binding_details env 0 0 False) [ctx_err ctx, ctx_cause ctx])
      in case early of
           None \<Rightarrow> (Inl (resource_fail resource_ErrOptions ''acquire'' name
             (binding_details env 0 0 False) []), st)
         | Some ctx \<Rightarrow>
             if ctx_err ctx \<noteq> None then (Inl (waited ctx), st)
             else if ctx_err late \<noteq> None then (Inl (waited late), st)
             else if b_stopping st \<or> env_stopped env
             then (Inl (resource_fail resource_ErrClosed ''acquire'' name
               (binding_details env (b_version st) 0 False) []), st)
             else
               (case b_active st of
                  None \<Rightarrow> (Inl (resource_fail resource_ErrUnavailable ''acquire'' name
                    (binding_details env (b_version st) 0 (b_pending st \<noteq> None)) []), st)
                | Some g \<Rightarrow>
                    if borrows_of st g + sum_list (map (borrows_of st) (b_retired st)) =
                      bopt_max_borrowers opts
                    then (Inl (resource_fail resource_ErrLimit ''acquire'' name
                      (binding_details env (b_version st) g False) []), st)
                    else (Inr (length (b_leases st)),
                      (update_gen g (\<lambda>gen. gen\<lparr>gen_borrows := gen_borrows gen + 1\<rparr>) st)
                        \<lparr>b_leases := b_leases st @
                          [\<lparr>lease_generation = g,
                            lease_value = Option.bind (b_gens st g) gen_value,
                            lease_stage = Held\<rparr>]\<rparr>)))"

definition lease_Value :: "nat \<Rightarrow> ('c, 't) binding \<Rightarrow> gerr + 't option" where
  "lease_Value l st =
     (if l < length (b_leases st) \<and> lease_stage (b_leases st ! l) = Held
      then Inr (lease_value (b_leases st ! l))
      else Inl (resource_fail resource_ErrLease ''value'' [] no_details []))"

text \<open>The two halves of \<^verbatim>\<open>Lease.Release\<close>: the atomic swap of the released flag, and the
  closure that returns the borrow under the lock.\<close>

definition release_claim :: "nat \<Rightarrow> ('c, 't) binding \<Rightarrow> gerr option \<times> ('c, 't) binding" where
  "release_claim l st =
     (if l < length (b_leases st) \<and> lease_stage (b_leases st ! l) = Held
      then (None, st\<lparr>b_leases := (b_leases st)
        [l := (b_leases st ! l)\<lparr>lease_value := None, lease_stage := Releasing\<rparr>]\<rparr>)
      else (Some (resource_fail resource_ErrLease ''release_lease'' [] no_details []), st))"

definition release_return :: "nat \<Rightarrow> ('c, 't) binding \<Rightarrow> ('c, 't) binding" where
  "release_return l st =
     (let g = lease_generation (b_leases st ! l);
          returned = (update_gen g (\<lambda>gen. gen\<lparr>gen_borrows := gen_borrows gen - 1\<rparr>) st)
            \<lparr>b_leases := (b_leases st)[l := (b_leases st ! l)\<lparr>lease_stage := Returned\<rparr>]\<rparr>
      in if Some g \<noteq> b_active returned \<and> borrows_of returned g = 0 then signal returned
         else returned)"

definition Lease_Release :: "nat \<Rightarrow> ('c, 't) binding \<Rightarrow> gerr option \<times> ('c, 't) binding" where
  "Lease_Release l st =
     (case release_claim l st of
        (None, claimed) \<Rightarrow> (None, release_return l claimed)
      | (Some err, same) \<Rightarrow> (Some err, same))"

section \<open>The coordinator\<close>

text \<open>One pass of the loop of \<^verbatim>\<open>run\<close> from locking the mutex to leaving it.\<close>

definition owned :: "('c, 't) binding \<Rightarrow> nat" where
  "owned st = length (b_retired st) + (if b_active st \<noteq> None then 1 else 0)"

definition cleanable :: "('c, 't) binding \<Rightarrow> nat option" where
  "cleanable st = List.find (\<lambda>g. borrows_of st g = 0 \<and> \<not> blocked_of st g) (b_retired st)"

definition run_section ::
  "scope_env \<Rightarrow> 'c binding_options \<Rightarrow> ('c, 't) binding \<Rightarrow> ('c, 't) binding" where
  "run_section env opts st =
     (if b_stopping st \<and> b_retired st = [] \<and> b_pending st = None
      then st\<lparr>b_exited := True, b_coordinator := Exited, b_notices := Suc (b_notices st)\<rparr>
      else
        (case cleanable st of
           Some g \<Rightarrow>
             (update_gen g (\<lambda>gen. gen\<lparr>gen_cleaning := True\<rparr>) st)\<lparr>b_coordinator := Cleaning g\<rparr>
         | None \<Rightarrow>
             (case b_desired st of
                Some desired \<Rightarrow>
                  if \<not> b_stopping st \<and> b_wanted st \<and> b_pending st = None \<and>
                    int (owned st) < bopt_max_generations opts
                  then
                    if b_generation st = MaxUint64
                    then
                      (let err = Some (resource_fail resource_ErrLimit ''construct''
                             (bopt_name opts) (binding_details env (b_version st) 0 False) [])
                       in (signal (settle (sel_version desired) 0 err
                            (st\<lparr>b_wanted := False, b_lastError := err\<rparr>)))
                            \<lparr>b_coordinator := Waiting\<rparr>)
                    else
                      (let g = inc64 (b_generation st)
                       in (signal (st\<lparr>b_generation := g, b_pending := Some g, b_wanted := False,
                            b_gens := (b_gens st)(g \<mapsto>
                              \<lparr>gen_selection = desired, gen_ctx = live_ctx, gen_value = None,
                               gen_release = False, gen_borrows = 0, gen_cleaning = False,
                               gen_blocked = False\<rparr>)\<rparr>))
                            \<lparr>b_coordinator := Constructing g\<rparr>)
                  else st\<lparr>b_coordinator := Waiting\<rparr>
              | None \<Rightarrow> st\<lparr>b_coordinator := Waiting\<rparr>)))"

definition awake :: "('c, 't) binding \<Rightarrow> ('c, 't) binding" where
  "awake st = st\<lparr>b_wake := False, b_coordinator := Looping\<rparr>"

text \<open>The unlocked part of \<^verbatim>\<open>construct\<close>: whether a preparation slot was granted, the
  candidate's context and \<^verbatim>\<open>stopped()\<close> before and after copying the input, and what
  \<^verbatim>\<open>Build\<close> returns if it is called.\<close>

definition construct_attempt ::
  "bool \<Rightarrow> go_ctx \<Rightarrow> bool \<Rightarrow> go_ctx \<Rightarrow> bool \<Rightarrow> 't Instance option \<times> gerr option \<Rightarrow>
     't Instance option \<times> gerr option" where
  "construct_attempt granted ctx stopped ctx' stopped' built =
     (if \<not> granted then (None, ctx_err ctx)
      else if ctx_err ctx \<noteq> None \<or> stopped then (None, ctx_err ctx)
      else if ctx_err ctx' \<noteq> None \<or> stopped' then (None, ctx_err ctx')
      else built)"

text \<open>Whether a candidate was built for the current target, and whether it is adopted.\<close>

definition current_target :: "('c, 't) generation \<Rightarrow> ('c, 't) binding \<Rightarrow> bool" where
  "current_target candidate st =
     (map_option sel_version (b_desired st) = Some (sel_version (gen_selection candidate)))"

definition adoptable ::
  "scope_env \<Rightarrow> ('c, 't) generation \<Rightarrow> 't Instance option \<Rightarrow> gerr option \<Rightarrow> ('c, 't) binding \<Rightarrow> bool" where
  "adoptable env candidate inst err st =
     (err = None \<and> inst \<noteq> None \<and> current_target candidate st \<and> \<not> b_stopping st \<and>
      \<not> env_stopped env \<and> ctx_err (gen_ctx candidate) = None)"

text \<open>The locked part of \<^verbatim>\<open>construct\<close>. The scope is observed when adoption is decided
  (\<open>env\<close>) and again when a failure is classified (\<open>later\<close>).\<close>

definition construct_finish ::
  "scope_env \<Rightarrow> scope_env \<Rightarrow> 'c binding_options \<Rightarrow> nat \<Rightarrow> 't Instance option \<times> gerr option \<Rightarrow>
     ('c, 't) binding \<Rightarrow> ('c, 't) binding" where
  "construct_finish env later opts g attempt st =
     (case (b_gens st g, attempt) of
        (None, _) \<Rightarrow> st
      | (Some candidate, inst, err) \<Rightarrow>
          let version = sel_version (gen_selection candidate);
              free = st\<lparr>b_pending := None\<rparr>;
              kept = (case inst of
                None \<Rightarrow> free
              | Some i \<Rightarrow> update_gen g
                  (\<lambda>gen. gen\<lparr>gen_value := Some (inst_value i), gen_release := inst_release i\<rparr>) free);
              failed = cancel_gen (Some (CodeError resource_ErrBuild)) g
                (if inst \<noteq> None then kept\<lparr>b_retired := b_retired kept @ [g]\<rparr> else kept);
              causes = [err, ctx_err (gen_ctx candidate), ctx_cause (gen_ctx candidate)];
              problem = Some (if env_stopped later
                then resource_fail resource_ErrClosed ''construct'' (bopt_name opts)
                  (binding_details env version g (inst \<noteq> None))
                  (causes @ [ctx_err (env_base later), ctx_cause (env_base later)])
                else resource_fail resource_ErrBuild ''construct'' (bopt_name opts)
                  (binding_details env version g (inst \<noteq> None)) causes)
          in (signal
               (if adoptable env candidate inst err st then
                  settle version g None (kept
                    \<lparr>b_retired := b_retired kept @ (case b_active kept of None \<Rightarrow> [] | Some a \<Rightarrow> [a]),
                     b_active := Some g, b_applied := version, b_lastError := None\<rparr>)
                else if current_target candidate st \<and> \<not> b_stopping st then
                  settle version 0 problem (failed\<lparr>b_lastError := problem\<rparr>)
                else failed))\<lparr>b_coordinator := Looping\<rparr>)"

text \<open>\<^verbatim>\<open>clean\<close>; \<open>reported\<close> is what the release function returns if there is one.\<close>

definition clean ::
  "scope_env \<Rightarrow> 'c binding_options \<Rightarrow> nat \<Rightarrow> ReleaseResult \<Rightarrow> ('c, 't) binding \<Rightarrow> ('c, 't) binding"
  where
  "clean env opts g reported st =
     (case b_gens st g of
        None \<Rightarrow> st
      | Some gen \<Rightarrow>
          let result = (if gen_release gen then reported else \<lparr>rel_complete = True, rel_err = None\<rparr>);
              ended = update_gen g (\<lambda>gen. gen\<lparr>gen_cleaning := False\<rparr>)
                (cancel_gen (Some (CodeError resource_ErrClosed)) g st);
              err = Some (resource_fail resource_ErrCleanup ''release'' (bopt_name opts)
                (binding_details env (sel_version (gen_selection gen)) g (\<not> rel_complete result))
                [rel_err result]);
              noted = (if rel_err result \<noteq> None \<or> \<not> rel_complete result
                then ended\<lparr>b_cleanupError := err,
                  b_cleanupFailures := sat_inc64 (b_cleanupFailures ended),
                  b_terminalCleanup := (if rel_complete result then err else b_terminalCleanup ended)\<rparr>
                else ended);
              done = (if rel_complete result
                then update_gen g (\<lambda>gen. gen\<lparr>gen_value := None, gen_release := False\<rparr>)
                  (noted\<lparr>b_retired := remove1 g (b_retired noted)\<rparr>)
                else update_gen g (\<lambda>gen. gen\<lparr>gen_blocked := True\<rparr>) noted)
          in (signal done)\<lparr>b_coordinator := Looping\<rparr>)"

section \<open>Observation\<close>

record Status =
  stat_name :: string
  stat_policy :: Policy
  stat_target :: nat
  stat_applied :: nat
  stat_generation :: nat
  stat_active :: bool
  stat_preparing :: bool
  stat_retiring :: nat
  stat_borrowers :: int
  stat_pending_cleanup :: nat
  stat_closing :: bool
  stat_closed :: bool
  stat_cleanup_failures :: nat
  stat_err :: "gerr option"
  stat_cleanup_err :: "gerr option"

definition binding_inspect :: "'c binding_options \<Rightarrow> ('c, 't) binding \<Rightarrow> Status" where
  "binding_inspect opts st =
     \<lparr>stat_name = bopt_name opts, stat_policy = bopt_policy opts, stat_target = b_version st,
      stat_applied = b_applied st,
      stat_generation = (case b_active st of None \<Rightarrow> 0 | Some g \<Rightarrow> g),
      stat_active = (b_active st \<noteq> None), stat_preparing = (b_pending st \<noteq> None),
      stat_retiring = length (b_retired st),
      stat_borrowers = (case b_active st of None \<Rightarrow> 0 | Some g \<Rightarrow> borrows_of st g) +
        sum_list (map (borrows_of st) (b_retired st)),
      stat_pending_cleanup = length (filter (blocked_of st) (b_retired st)),
      stat_closing = b_stopping st, stat_closed = b_exited st,
      stat_cleanup_failures = b_cleanupFailures st, stat_err = b_lastError st,
      stat_cleanup_err = b_cleanupError st\<rparr>"

definition cleanupFailure :: "('c, 't) binding \<Rightarrow> gerr option" where
  "cleanupFailure st = b_terminalCleanup st"

section \<open>Steps\<close>

text \<open>
  The interleavings of one binding. Only the holder of the scope's admission gate prepares and
  commits, or retries, and it does so before the binding is stopped.
\<close>

inductive binding_step :: "'c binding_options \<Rightarrow> ('c, 't) binding \<Rightarrow> ('c, 't) binding \<Rightarrow> bool"
  for opts where
  step_prepare: "b_prepared st = None \<Longrightarrow> prepare env opts view st = Inr plan \<Longrightarrow>
    binding_step opts st (st\<lparr>b_prepared := Some plan\<rparr>)"
| step_abandon: "binding_step opts st (st\<lparr>b_prepared := None\<rparr>)"
| step_commit: "b_prepared st = Some plan \<Longrightarrow> \<not> b_stopping st \<Longrightarrow>
    binding_step opts st ((snd (commit env opts plan st))\<lparr>b_prepared := None\<rparr>)"
| step_retry: "b_prepared st = None \<Longrightarrow> \<not> b_stopping st \<Longrightarrow>
    retry_locked env opts closing ctx sequence st = Inr (sequence', version, st') \<Longrightarrow>
    binding_step opts st st'"
| step_stop: "binding_step opts st (stop env opts cause st)"
| step_retryCleanup: "binding_step opts st (retryCleanup st)"
| step_acquire: "binding_step opts st (snd (acquire env opts early late st))"
| step_claim: "binding_step opts st (snd (release_claim l st))"
| step_return: "l < length (b_leases st) \<Longrightarrow> lease_stage (b_leases st ! l) = Releasing \<Longrightarrow>
    binding_step opts st (release_return l st)"
| step_run: "b_coordinator st = Looping \<Longrightarrow> binding_step opts st (run_section env opts st)"
| step_construct: "b_coordinator st = Constructing g \<Longrightarrow>
    binding_step opts st (construct_finish env later opts g
      (construct_attempt granted ctx stopped ctx' stopped' built) st)"
| step_clean: "b_coordinator st = Cleaning g \<Longrightarrow>
    binding_step opts st (clean env opts g reported st)"
| step_awake: "b_coordinator st = Waiting \<Longrightarrow> b_wake st \<Longrightarrow> binding_step opts st (awake st)"

inductive_cases binding_stepE: "binding_step opts st st'"

end
