(* ===== verification/Resource_Invariant.thy ===== *)
theory Resource_Invariant
  imports Resource_Binding
begin

text \<open>
  The invariant of a binding and that every step of \<^const>\<open>binding_step\<close> keeps it: ownership of
  generations, accounting of leases, the coordinator's place, the fate of targets, the plans of the
  admission gate, and that no wake-up is lost.
\<close>

section \<open>What the elementary updates change\<close>

lemma signal_frame [simp]:
  "b_coordinator (signal st) = b_coordinator st" "b_stopping (signal st) = b_stopping st"
  "b_exited (signal st) = b_exited st" "b_desired (signal st) = b_desired st"
  "b_wanted (signal st) = b_wanted st" "b_active (signal st) = b_active st"
  "b_pending (signal st) = b_pending st" "b_retired (signal st) = b_retired st"
  "b_version (signal st) = b_version st" "b_generation (signal st) = b_generation st"
  "b_applied (signal st) = b_applied st" "b_gens (signal st) = b_gens st"
  "b_targets (signal st) = b_targets st" "b_leases (signal st) = b_leases st"
  "b_prepared (signal st) = b_prepared st"
  by (simp_all add: signal_def)

lemma newTarget_frame [simp]:
  "b_wake (newTarget v st) = b_wake st" "b_coordinator (newTarget v st) = b_coordinator st"
  "b_stopping (newTarget v st) = b_stopping st" "b_exited (newTarget v st) = b_exited st"
  "b_desired (newTarget v st) = b_desired st" "b_wanted (newTarget v st) = b_wanted st"
  "b_active (newTarget v st) = b_active st" "b_pending (newTarget v st) = b_pending st"
  "b_retired (newTarget v st) = b_retired st" "b_version (newTarget v st) = b_version st"
  "b_generation (newTarget v st) = b_generation st" "b_applied (newTarget v st) = b_applied st"
  "b_gens (newTarget v st) = b_gens st" "b_leases (newTarget v st) = b_leases st"
  "b_prepared (newTarget v st) = b_prepared st"
  by (simp_all add: newTarget_def)

lemma settle_frame [simp]:
  "b_wake (settle v g e st) = b_wake st" "b_coordinator (settle v g e st) = b_coordinator st"
  "b_stopping (settle v g e st) = b_stopping st" "b_exited (settle v g e st) = b_exited st"
  "b_desired (settle v g e st) = b_desired st" "b_wanted (settle v g e st) = b_wanted st"
  "b_active (settle v g e st) = b_active st" "b_pending (settle v g e st) = b_pending st"
  "b_retired (settle v g e st) = b_retired st" "b_version (settle v g e st) = b_version st"
  "b_generation (settle v g e st) = b_generation st" "b_applied (settle v g e st) = b_applied st"
  "b_gens (settle v g e st) = b_gens st" "b_leases (settle v g e st) = b_leases st"
  "b_prepared (settle v g e st) = b_prepared st"
  by (simp_all add: settle_def split: option.split)

lemma update_gen_frame [simp]:
  "b_wake (update_gen g f st) = b_wake st" "b_coordinator (update_gen g f st) = b_coordinator st"
  "b_stopping (update_gen g f st) = b_stopping st" "b_exited (update_gen g f st) = b_exited st"
  "b_desired (update_gen g f st) = b_desired st" "b_wanted (update_gen g f st) = b_wanted st"
  "b_active (update_gen g f st) = b_active st" "b_pending (update_gen g f st) = b_pending st"
  "b_retired (update_gen g f st) = b_retired st" "b_version (update_gen g f st) = b_version st"
  "b_generation (update_gen g f st) = b_generation st"
  "b_applied (update_gen g f st) = b_applied st" "b_targets (update_gen g f st) = b_targets st"
  "b_leases (update_gen g f st) = b_leases st" "b_prepared (update_gen g f st) = b_prepared st"
  by (simp_all add: update_gen_def)

lemma cancel_gen_frame [simp]:
  "b_wake (cancel_gen c g st) = b_wake st" "b_coordinator (cancel_gen c g st) = b_coordinator st"
  "b_stopping (cancel_gen c g st) = b_stopping st" "b_exited (cancel_gen c g st) = b_exited st"
  "b_desired (cancel_gen c g st) = b_desired st" "b_wanted (cancel_gen c g st) = b_wanted st"
  "b_active (cancel_gen c g st) = b_active st" "b_pending (cancel_gen c g st) = b_pending st"
  "b_retired (cancel_gen c g st) = b_retired st" "b_version (cancel_gen c g st) = b_version st"
  "b_generation (cancel_gen c g st) = b_generation st"
  "b_applied (cancel_gen c g st) = b_applied st" "b_targets (cancel_gen c g st) = b_targets st"
  "b_leases (cancel_gen c g st) = b_leases st" "b_prepared (cancel_gen c g st) = b_prepared st"
  by (simp_all add: cancel_gen_def)

lemma unblock_fold_frame:
  "b_wake (fold (\<lambda>g. update_gen g (\<lambda>gen. gen\<lparr>gen_blocked := False\<rparr>)) gs st) = b_wake st"
  "b_coordinator (fold (\<lambda>g. update_gen g (\<lambda>gen. gen\<lparr>gen_blocked := False\<rparr>)) gs st) = b_coordinator st"
  "b_stopping (fold (\<lambda>g. update_gen g (\<lambda>gen. gen\<lparr>gen_blocked := False\<rparr>)) gs st) = b_stopping st"
  "b_exited (fold (\<lambda>g. update_gen g (\<lambda>gen. gen\<lparr>gen_blocked := False\<rparr>)) gs st) = b_exited st"
  "b_desired (fold (\<lambda>g. update_gen g (\<lambda>gen. gen\<lparr>gen_blocked := False\<rparr>)) gs st) = b_desired st"
  "b_wanted (fold (\<lambda>g. update_gen g (\<lambda>gen. gen\<lparr>gen_blocked := False\<rparr>)) gs st) = b_wanted st"
  "b_active (fold (\<lambda>g. update_gen g (\<lambda>gen. gen\<lparr>gen_blocked := False\<rparr>)) gs st) = b_active st"
  "b_pending (fold (\<lambda>g. update_gen g (\<lambda>gen. gen\<lparr>gen_blocked := False\<rparr>)) gs st) = b_pending st"
  "b_retired (fold (\<lambda>g. update_gen g (\<lambda>gen. gen\<lparr>gen_blocked := False\<rparr>)) gs st) = b_retired st"
  "b_version (fold (\<lambda>g. update_gen g (\<lambda>gen. gen\<lparr>gen_blocked := False\<rparr>)) gs st) = b_version st"
  "b_generation (fold (\<lambda>g. update_gen g (\<lambda>gen. gen\<lparr>gen_blocked := False\<rparr>)) gs st) = b_generation st"
  "b_applied (fold (\<lambda>g. update_gen g (\<lambda>gen. gen\<lparr>gen_blocked := False\<rparr>)) gs st) = b_applied st"
  "b_targets (fold (\<lambda>g. update_gen g (\<lambda>gen. gen\<lparr>gen_blocked := False\<rparr>)) gs st) = b_targets st"
  "b_leases (fold (\<lambda>g. update_gen g (\<lambda>gen. gen\<lparr>gen_blocked := False\<rparr>)) gs st) = b_leases st"
  "b_prepared (fold (\<lambda>g. update_gen g (\<lambda>gen. gen\<lparr>gen_blocked := False\<rparr>)) gs st) = b_prepared st"
  by (induction gs arbitrary: st) simp_all

lemma unblock_frame [simp]:
  "b_wake (unblock st) = b_wake st" "b_coordinator (unblock st) = b_coordinator st"
  "b_stopping (unblock st) = b_stopping st" "b_exited (unblock st) = b_exited st"
  "b_desired (unblock st) = b_desired st" "b_wanted (unblock st) = b_wanted st"
  "b_active (unblock st) = b_active st" "b_pending (unblock st) = b_pending st"
  "b_retired (unblock st) = b_retired st" "b_version (unblock st) = b_version st"
  "b_generation (unblock st) = b_generation st" "b_applied (unblock st) = b_applied st"
  "b_targets (unblock st) = b_targets st" "b_leases (unblock st) = b_leases st"
  "b_prepared (unblock st) = b_prepared st"
  by (simp_all add: unblock_def unblock_fold_frame)

lemma signal_wake [simp]: "b_wake (signal st)"
  by (simp add: signal_def)

lemma update_gen_gens [simp]: "b_gens (update_gen g f st) = (b_gens st)(g := map_option f (b_gens st g))"
  by (simp add: update_gen_def)

lemma cancel_gen_gens: "b_gens (cancel_gen c g st) =
    (b_gens st)(g := map_option (\<lambda>gen. gen\<lparr>gen_ctx := cancel_ctx c (gen_ctx gen)\<rparr>) (b_gens st g))"
  by (simp add: cancel_gen_def)

text \<open>Which targets are settled, and which succeeded with which generation.\<close>

definition settled_in :: "(nat \<rightharpoonup> target) \<Rightarrow> nat \<Rightarrow> bool" where
  "settled_in targets v = (case targets v of None \<Rightarrow> False | Some t \<Rightarrow> tgt_settled t)"

definition succeeded :: "(nat \<rightharpoonup> target) \<Rightarrow> nat \<Rightarrow> nat \<Rightarrow> bool" where
  "succeeded targets v g =
     (case targets v of
        None \<Rightarrow> False
      | Some t \<Rightarrow> tgt_settled t \<and> tgt_err t = None \<and> tgt_generation t = g)"

lemma newTarget_targets [simp]:
  "dom (b_targets (newTarget v st)) = insert v (dom (b_targets st))"
  "settled_in (b_targets (newTarget v st)) u \<longleftrightarrow> u \<noteq> v \<and> settled_in (b_targets st) u"
  "succeeded (b_targets (newTarget v st)) u h \<longleftrightarrow> u \<noteq> v \<and> succeeded (b_targets st) u h"
  by (auto simp: newTarget_def settled_in_def succeeded_def)

lemma settle_targets [simp]:
  "dom (b_targets (settle v g e st)) = dom (b_targets st)"
  "settled_in (b_targets (settle v g e st)) u \<longleftrightarrow>
     settled_in (b_targets st) u \<or> u = v \<and> v \<in> dom (b_targets st)"
  "succeeded (b_targets (settle v g e st)) u h \<longleftrightarrow> succeeded (b_targets st) u h \<or>
     u = v \<and> v \<in> dom (b_targets st) \<and> \<not> settled_in (b_targets st) v \<and> e = None \<and> h = g"
  by (auto simp: settle_def settled_in_def succeeded_def split: option.splits if_splits)

text \<open>Which selection and how many borrows a generation has, which is all that the invariant reads
  of it; most updates keep both.\<close>

definition gsel :: "(nat \<rightharpoonup> ('c, 't) generation) \<Rightarrow> nat \<Rightarrow> nat option" where
  "gsel gens g = map_option (\<lambda>gen. sel_version (gen_selection gen)) (gens g)"

definition gbor :: "(nat \<rightharpoonup> ('c, 't) generation) \<Rightarrow> nat \<Rightarrow> int option" where
  "gbor gens g = map_option gen_borrows (gens g)"

lemma gsel_update [simp]:
  "(\<And>gen. gen_selection (f gen) = gen_selection gen) \<Longrightarrow> gsel (gens(g := map_option f (gens g))) = gsel gens"
  by (auto simp: gsel_def fun_eq_iff option.map_comp comp_def)

lemma gbor_update [simp]:
  "(\<And>gen. gen_borrows (f gen) = gen_borrows gen) \<Longrightarrow> gbor (gens(g := map_option f (gens g))) = gbor gens"
  by (auto simp: gbor_def fun_eq_iff option.map_comp comp_def)

lemma gsel_insert [simp]: "gsel (gens(g \<mapsto> gen)) = (gsel gens)(g \<mapsto> sel_version (gen_selection gen))"
  by (simp add: gsel_def fun_eq_iff)

lemma gbor_insert [simp]: "gbor (gens(g \<mapsto> gen)) = (gbor gens)(g \<mapsto> gen_borrows gen)"
  by (simp add: gbor_def fun_eq_iff)

lemma gbor_add [simp]:
  "gbor (gens(g := map_option (\<lambda>gen. gen\<lparr>gen_borrows := gen_borrows gen + k\<rparr>) (gens g))) h =
     (if h = g then map_option (\<lambda>n. n + k) (gbor gens g) else gbor gens h)"
  "gbor (gens(g := map_option (\<lambda>gen. gen\<lparr>gen_borrows := gen_borrows gen - k\<rparr>) (gens g))) h =
     (if h = g then map_option (\<lambda>n. n - k) (gbor gens g) else gbor gens h)"
  by (simp_all add: gbor_def option.map_comp comp_def)

lemma dom_gbor [simp]: "dom (gbor gens) = dom (gsel gens)"
  by (auto simp: gsel_def gbor_def dom_def)

lemma gens_cancel [simp]:
  "gsel (b_gens (cancel_gen c g st)) = gsel (b_gens st)"
  "gbor (b_gens (cancel_gen c g st)) = gbor (b_gens st)"
  unfolding cancel_gen_gens by simp_all

lemma gens_unblock [simp]:
  "gsel (b_gens (unblock st)) = gsel (b_gens st)"
  "gbor (b_gens (unblock st)) = gbor (b_gens st)"
proof -
  have "gsel (b_gens (fold (\<lambda>g. update_gen g (\<lambda>gen. gen\<lparr>gen_blocked := False\<rparr>)) gs st)) = gsel (b_gens st) \<and>
    gbor (b_gens (fold (\<lambda>g. update_gen g (\<lambda>gen. gen\<lparr>gen_blocked := False\<rparr>)) gs st)) = gbor (b_gens st)" for gs
    by (induction gs arbitrary: st) simp_all
  then show "gsel (b_gens (unblock st)) = gsel (b_gens st)"
    "gbor (b_gens (unblock st)) = gbor (b_gens st)"
    unfolding unblock_def by simp_all
qed

section \<open>The invariant\<close>

definition opt_list :: "'a option \<Rightarrow> 'a list" where
  "opt_list x = (case x of None \<Rightarrow> [] | Some y \<Rightarrow> [y])"

lemma opt_list_simps [simp]: "opt_list None = []" "opt_list (Some x) = [x]"
  by (simp_all add: opt_list_def)

definition live :: "'t lease list \<Rightarrow> nat \<Rightarrow> nat" where
  "live ls g = length (filter (\<lambda>l. lease_generation l = g \<and> lease_stage l \<noteq> Returned) ls)"

definition live_all :: "'t lease list \<Rightarrow> nat" where
  "live_all ls = length (filter (\<lambda>l. lease_stage l \<noteq> Returned) ls)"

text \<open>Generations: every owned one is known, none is owned twice, and there are never more than the
  declared bound.\<close>

definition owned_gens :: "('c, 't) binding \<Rightarrow> nat list" where
  "owned_gens st = opt_list (b_active st) @ opt_list (b_pending st) @ b_retired st"

definition inv_own :: "'c binding_options \<Rightarrow> ('c, 't) binding \<Rightarrow> bool" where
  "inv_own opts st \<longleftrightarrow>
     distinct (owned_gens st) \<and> set (owned_gens st) \<subseteq> dom (gsel (b_gens st)) \<and>
     dom (gsel (b_gens st)) \<subseteq> {1..b_generation st} \<and> b_generation st \<le> MaxUint64 \<and>
     int (length (owned_gens st)) \<le> bopt_max_generations opts"

text \<open>Leases: a generation's counter is the number of its leases not yet returned, only active and
  retired generations have any, and their total keeps the declared bound.\<close>

definition inv_borrow :: "'c binding_options \<Rightarrow> ('c, 't) binding \<Rightarrow> bool" where
  "inv_borrow opts st \<longleftrightarrow>
     (\<forall>g n. gbor (b_gens st) g = Some n \<longrightarrow> n = int (live (b_leases st) g)) \<and>
     (\<forall>g. 0 < live (b_leases st) g \<longrightarrow> g \<in> set (opt_list (b_active st) @ b_retired st)) \<and>
     int (live_all (b_leases st)) \<le> bopt_max_borrowers opts"

text \<open>The coordinator constructs exactly the pending candidate, releases only a retired generation
  without borrows, and ends only when everything owned is gone; nothing is active once stopping.\<close>

definition inv_coordinator :: "('c, 't) binding \<Rightarrow> bool" where
  "inv_coordinator st \<longleftrightarrow>
     (\<forall>g. b_coordinator st = Constructing g \<longleftrightarrow> b_pending st = Some g) \<and>
     (\<forall>g. b_coordinator st = Cleaning g \<longrightarrow> g \<in> set (b_retired st) \<and> live (b_leases st) g = 0) \<and>
     (b_coordinator st = Exited \<longleftrightarrow> b_exited st) \<and>
     (b_exited st \<longrightarrow> b_stopping st \<and> b_retired st = []) \<and>
     (b_stopping st \<longrightarrow> b_active st = None)"

text \<open>Targets: there is one per version, all superseded ones are settled, and the current one is
  settled unless its construction is still wanted or under way; a success names an adopted
  generation.\<close>

definition inv_target :: "('c, 't) binding \<Rightarrow> bool" where
  "inv_target st \<longleftrightarrow>
     dom (b_targets st) = {1..b_version st} \<and> b_version st \<le> MaxUint64 \<and>
     (b_desired st = None \<longleftrightarrow> b_version st = 0) \<and>
     (\<forall>d. b_desired st = Some d \<longrightarrow> sel_version d = b_version st) \<and>
     (b_wanted st \<longrightarrow> b_desired st \<noteq> None) \<and>
     (\<forall>v. 1 \<le> v \<and> v < b_version st \<longrightarrow> settled_in (b_targets st) v) \<and>
     (b_version st \<noteq> 0 \<and> \<not> settled_in (b_targets st) (b_version st) \<longrightarrow> \<not> b_stopping st \<and>
        (b_wanted st \<or> (\<exists>g. b_pending st = Some g \<and> gsel (b_gens st) g = Some (b_version st)))) \<and>
     (\<forall>g v. gsel (b_gens st) g = Some v \<longrightarrow> 1 \<le> v \<and> v \<le> b_version st) \<and>
     b_applied st \<le> b_version st \<and>
     (\<forall>v g. succeeded (b_targets st) v g \<longrightarrow> v \<le> b_applied st \<and> gsel (b_gens st) g \<noteq> None)"

text \<open>Plans: the gate keeps the selection that a plan was made against current.\<close>

definition inv_plan :: "('c, 't) binding \<Rightarrow> bool" where
  "inv_plan st \<longleftrightarrow>
     (\<forall>v. b_prepared st = Some (KeepTarget v) \<longrightarrow> v = b_version st \<and> b_desired st \<noteq> None) \<and>
     (\<forall>previous active value equal. b_prepared st = Some (InstallTarget previous active value equal) \<longrightarrow>
        previous = b_desired st \<and> b_version st < MaxUint64 \<and> set (opt_list active) \<subseteq> dom (gsel (b_gens st)))"

definition enabled :: "'c binding_options \<Rightarrow> ('c, 't) binding \<Rightarrow> bool" where
  "enabled opts st \<longleftrightarrow>
     b_stopping st \<and> b_retired st = [] \<and> b_pending st = None \<or>
     cleanable st \<noteq> None \<or>
     \<not> b_stopping st \<and> b_wanted st \<and> b_pending st = None \<and>
       int (owned st) < bopt_max_generations opts"

text \<open>Wake-ups: a coordinator that waits without a pending wake-up has nothing to do.\<close>

definition inv_wake :: "'c binding_options \<Rightarrow> ('c, 't) binding \<Rightarrow> bool" where
  "inv_wake opts st \<longleftrightarrow> (b_coordinator st = Waiting \<and> \<not> b_wake st \<longrightarrow> \<not> enabled opts st)"

definition binding_inv :: "'c binding_options \<Rightarrow> ('c, 't) binding \<Rightarrow> bool" where
  "binding_inv opts st \<longleftrightarrow>
     inv_own opts st \<and> inv_borrow opts st \<and> inv_coordinator st \<and> inv_target st \<and> inv_plan st \<and>
     inv_wake opts st"

end
