(* ===== verification/Resource_Steps.thy ===== *)
theory Resource_Steps
  imports Resource_Invariant
begin

text \<open>
  Every step of \<^const>\<open>binding_step\<close> keeps the invariant of the binding, one lemma per operation,
  and the interpretation of the transition-system contract that puts them together.
\<close>

section \<open>Reading the invariant\<close>

lemma binding_invD:
  assumes "binding_inv opts st"
  shows "inv_own opts st" "inv_borrow opts st" "inv_coordinator st" "inv_target st" "inv_plan st"
    "inv_wake opts st"
  using assms by (simp_all add: binding_inv_def)

lemma binding_invI:
  assumes "inv_own opts st" "inv_borrow opts st" "inv_coordinator st" "inv_target st" "inv_plan st"
    "b_wake st \<or> inv_wake opts st"
  shows "binding_inv opts st"
  using assms by (auto simp: binding_inv_def inv_wake_def)

lemma inv_targetD:
  assumes "inv_target st"
  shows "dom (b_targets st) = {1..b_version st}" "b_version st \<le> MaxUint64"
    "b_desired st = None \<longleftrightarrow> b_version st = 0"
    "\<And>d. b_desired st = Some d \<Longrightarrow> sel_version d = b_version st"
    "b_wanted st \<Longrightarrow> b_desired st \<noteq> None"
    "\<And>v. 1 \<le> v \<Longrightarrow> v < b_version st \<Longrightarrow> settled_in (b_targets st) v"
    "b_version st \<noteq> 0 \<Longrightarrow> \<not> settled_in (b_targets st) (b_version st) \<Longrightarrow> \<not> b_stopping st"
    "b_version st \<noteq> 0 \<Longrightarrow> \<not> settled_in (b_targets st) (b_version st) \<Longrightarrow>
       b_wanted st \<or> (\<exists>g. b_pending st = Some g \<and> gsel (b_gens st) g = Some (b_version st))"
    "\<And>g v. gsel (b_gens st) g = Some v \<Longrightarrow> 1 \<le> v \<and> v \<le> b_version st" "b_applied st \<le> b_version st"
    "\<And>v g. succeeded (b_targets st) v g \<Longrightarrow>
       v \<le> b_applied st \<and> v \<le> b_version st \<and> gsel (b_gens st) g \<noteq> None"
  using assms unfolding inv_target_def by (blast intro: order_trans)+

text \<open>The fields each part reads.\<close>

lemma inv_own_cong:
  "b_active st' = b_active st \<Longrightarrow> b_pending st' = b_pending st \<Longrightarrow> b_retired st' = b_retired st \<Longrightarrow>
   b_generation st' = b_generation st \<Longrightarrow> gsel (b_gens st') = gsel (b_gens st) \<Longrightarrow>
   inv_own opts st' \<longleftrightarrow> inv_own opts st"
  by (simp add: inv_own_def owned_gens_def)

lemma inv_borrow_cong:
  "b_active st' = b_active st \<Longrightarrow> b_retired st' = b_retired st \<Longrightarrow> b_leases st' = b_leases st \<Longrightarrow>
   gbor (b_gens st') = gbor (b_gens st) \<Longrightarrow> inv_borrow opts st' \<longleftrightarrow> inv_borrow opts st"
  by (simp add: inv_borrow_def)

lemma inv_coordinator_cong:
  "b_coordinator st' = b_coordinator st \<Longrightarrow> b_active st' = b_active st \<Longrightarrow>
   b_pending st' = b_pending st \<Longrightarrow> b_retired st' = b_retired st \<Longrightarrow> b_leases st' = b_leases st \<Longrightarrow>
   b_exited st' = b_exited st \<Longrightarrow> b_stopping st' = b_stopping st \<Longrightarrow>
   inv_coordinator st' \<longleftrightarrow> inv_coordinator st"
  by (simp add: inv_coordinator_def)

lemma inv_target_cong:
  "b_targets st' = b_targets st \<Longrightarrow> b_version st' = b_version st \<Longrightarrow> b_desired st' = b_desired st \<Longrightarrow>
   b_wanted st' = b_wanted st \<Longrightarrow> b_stopping st' = b_stopping st \<Longrightarrow> b_pending st' = b_pending st \<Longrightarrow>
   b_applied st' = b_applied st \<Longrightarrow> gsel (b_gens st') = gsel (b_gens st) \<Longrightarrow>
   inv_target st' \<longleftrightarrow> inv_target st"
  by (simp add: inv_target_def)

lemma inv_plan_cong:
  "b_prepared st' = b_prepared st \<Longrightarrow> b_version st' = b_version st \<Longrightarrow> b_desired st' = b_desired st \<Longrightarrow>
   gsel (b_gens st') = gsel (b_gens st) \<Longrightarrow> inv_plan st' \<longleftrightarrow> inv_plan st"
  by (simp add: inv_plan_def)

lemma enabled_cong:
  "b_stopping st' = b_stopping st \<Longrightarrow> b_retired st' = b_retired st \<Longrightarrow> b_pending st' = b_pending st \<Longrightarrow>
   b_wanted st' = b_wanted st \<Longrightarrow> b_active st' = b_active st \<Longrightarrow> b_gens st' = b_gens st \<Longrightarrow>
   enabled opts st' \<longleftrightarrow> enabled opts st"
  by (simp add: enabled_def cleanable_def owned_def borrows_of_def blocked_of_def)

lemma inv_wake_cong:
  "b_coordinator st' = b_coordinator st \<Longrightarrow> b_wake st' = b_wake st \<Longrightarrow>
   enabled opts st' \<longleftrightarrow> enabled opts st \<Longrightarrow> inv_wake opts st' \<longleftrightarrow> inv_wake opts st"
  by (simp add: inv_wake_def)

lemmas inv_congs = inv_own_cong inv_borrow_cong inv_coordinator_cong inv_target_cong inv_plan_cong
  inv_wake_cong enabled_cong

lemmas own_keep = inv_own_cong [THEN iffD2]
lemmas borrow_keep = inv_borrow_cong [THEN iffD2]
lemmas coordinator_keep = inv_coordinator_cong [THEN iffD2]
lemmas target_keep = inv_target_cong [THEN iffD2]
lemmas plan_keep = inv_plan_cong [THEN iffD2]

lemma gens_empty [simp]: "gsel Map.empty = Map.empty" "gbor Map.empty = Map.empty"
  by (simp_all add: gsel_def gbor_def fun_eq_iff)

section \<open>One lemma per operation\<close>

lemma new_binding_inv:
  assumes "2 \<le> bopt_max_generations opts" and "1 \<le> bopt_max_borrowers opts"
  shows "binding_inv opts new_binding"
proof (rule binding_invI)
  show "inv_own opts new_binding" "inv_borrow opts new_binding" "inv_target new_binding"
    using assms
    by (simp_all add: inv_own_def inv_borrow_def inv_target_def owned_gens_def new_binding_def
        live_def live_all_def succeeded_def)
qed (simp_all add: new_binding_def inv_coordinator_def inv_plan_def inv_wake_def)

lemma plan_irrelevant:
  assumes "binding_inv opts st" and "inv_plan (st\<lparr>b_prepared := p\<rparr>)"
  shows "binding_inv opts (st\<lparr>b_prepared := p\<rparr>)"
  using assms unfolding binding_inv_def
  by (simp add: inv_congs [where st' = "st\<lparr>b_prepared := p\<rparr>" and st = st])

lemma prepare_inv:
  assumes "binding_inv opts st" and "prepare env opts view st = Inr plan"
  shows "binding_inv opts (st\<lparr>b_prepared := Some plan\<rparr>)"
proof (rule plan_irrelevant [OF assms(1)])
  note inv = binding_invD [OF assms(1)]
  have v: "b_version st \<le> MaxUint64" "\<And>d. b_desired st = Some d \<Longrightarrow> sel_version d = b_version st"
    "set (opt_list (b_active st)) \<subseteq> dom (gsel (b_gens st))"
    using inv(1, 4) by (auto simp: inv_target_def inv_own_def owned_gens_def)
  have "plan = KeepTarget (b_version st) \<and> b_desired st \<noteq> None \<or>
     (\<exists>value equal. plan = InstallTarget (b_desired st) (b_active st) value equal \<and> b_version st \<noteq> MaxUint64)"
    using assms(2) v(2)
    by (cases "b_desired st")
      (auto simp: prepare_def Let_def equal_to_def split: if_splits sum.splits option.splits)
  then show "inv_plan (st\<lparr>b_prepared := Some plan\<rparr>)"
    using v(1,3) by (auto simp: inv_plan_def)
qed

lemma abandon_inv: "binding_inv opts st \<Longrightarrow> binding_inv opts (st\<lparr>b_prepared := None\<rparr>)"
  by (rule plan_irrelevant) (simp_all add: inv_plan_def)

lemma retryCleanup_inv:
  assumes "binding_inv opts st"
  shows "binding_inv opts (retryCleanup st)"
proof (rule binding_invI)
qed (use binding_invD [OF assms] in
  \<open>simp_all add: retryCleanup_def inv_congs [where st' = "signal (unblock st)" and st = st]\<close>)

lemma stop_inv:
  assumes "binding_inv opts st"
  shows "binding_inv opts (stop env opts cause st)"
proof (cases "b_stopping st")
  case False
  note inv = binding_invD [OF assms]
  let ?st = "stop env opts cause st"
  have same: "b_pending ?st = b_pending st" "b_generation ?st = b_generation st"
    "gsel (b_gens ?st) = gsel (b_gens st)" "gbor (b_gens ?st) = gbor (b_gens st)"
    "b_leases ?st = b_leases st" "b_coordinator ?st = b_coordinator st" "b_exited ?st = b_exited st"
    "b_desired ?st = b_desired st" "b_wanted ?st = b_wanted st" "b_version ?st = b_version st"
    "b_applied ?st = b_applied st" "b_prepared ?st = b_prepared st"
    "dom (b_targets ?st) = dom (b_targets st)" "succeeded (b_targets ?st) = succeeded (b_targets st)"
    using False by (auto simp: stop_def Let_def fun_eq_iff split: option.splits)
  have new: "b_wake ?st" "b_stopping ?st" "b_active ?st = None"
    "b_retired ?st = b_retired st @ opt_list (b_active st)"
    "\<And>v. settled_in (b_targets ?st) v \<longleftrightarrow> settled_in (b_targets st) v \<or>
       v \<in> dom (b_targets st) \<and> map_option sel_version (b_desired st) = Some v"
    using False by (auto simp: stop_def Let_def split: option.splits)
  show ?thesis
  proof (rule binding_invI)
    show "inv_own opts ?st" using inv(1) by (auto simp: inv_own_def owned_gens_def same new)
    show "inv_borrow opts ?st" using inv(2) by (auto simp: inv_borrow_def same new)
    show "inv_coordinator ?st" using inv(3) False by (auto simp: inv_coordinator_def same new)
    show "inv_target ?st"
      using inv_targetD [OF inv(4)] unfolding inv_target_def same new by (cases "b_desired st") auto
    show "inv_plan ?st" using inv(5) by (simp add: inv_plan_def same)
  qed (simp add: new)
qed (use assms in \<open>simp add: stop_def\<close>)


lemma commit_inv:
  assumes "binding_inv opts st" and "b_prepared st = Some plan" and "\<not> b_stopping st"
  shows "binding_inv opts ((snd (commit env opts plan st))\<lparr>b_prepared := None\<rparr>)"
proof (cases plan)
  case (KeepTarget v)
  then show ?thesis using abandon_inv [OF assms(1)] by simp
next
  case (InstallTarget previous active val equal)
  note inv = binding_invD [OF assms(1)]
  let ?st = "(snd (commit env opts plan st))\<lparr>b_prepared := None\<rparr>"
  let ?adopt = "equal \<and> active \<noteq> None \<and> b_active st = active"
  have plan: "previous = b_desired st" "b_version st < MaxUint64"
      "set (opt_list active) \<subseteq> dom (gsel (b_gens st))"
    using inv(5) assms(2) InstallTarget by (auto simp: inv_plan_def)
  have same: "b_pending ?st = b_pending st" "b_generation ?st = b_generation st"
    "b_active ?st = b_active st" "b_retired ?st = b_retired st" "b_stopping ?st = b_stopping st"
    "gsel (b_gens ?st) = gsel (b_gens st)" "gbor (b_gens ?st) = gbor (b_gens st)"
    "b_leases ?st = b_leases st" "b_coordinator ?st = b_coordinator st" "b_exited ?st = b_exited st"
    unfolding InstallTarget by (auto simp: Let_def split: option.splits)
  have new: "b_wake ?st" "b_version ?st = Suc (b_version st)" "b_prepared ?st = None"
    "b_desired ?st = Some \<lparr>sel_value = val, sel_version = Suc (b_version st)\<rparr>"
    "b_wanted ?st \<longleftrightarrow> \<not> ?adopt" "b_applied ?st = (if ?adopt then Suc (b_version st) else b_applied st)"
    unfolding InstallTarget using plan(2) by (auto simp: Let_def split: option.splits)
  have targets: "dom (b_targets ?st) = insert (Suc (b_version st)) (dom (b_targets st))"
    "\<And>v. settled_in (b_targets ?st) v \<longleftrightarrow> (if v = Suc (b_version st) then ?adopt else settled_in (b_targets st) v \<or>
       v \<in> dom (b_targets st) \<and> map_option sel_version (b_desired st) = Some v)"
    "\<And>v g. succeeded (b_targets ?st) v g \<longleftrightarrow> (if v = Suc (b_version st) then ?adopt \<and> active = Some g
       else succeeded (b_targets st) v g)"
    unfolding InstallTarget using plan by (auto simp: Let_def split: option.splits)
  show ?thesis
  proof (rule binding_invI)
    show "inv_own opts ?st" using inv(1) by (simp add: inv_own_cong [OF same(3,1,4,2,6)])
    show "inv_borrow opts ?st" using inv(2) by (simp add: inv_borrow_cong [OF same(3,4,8,7)])
    show "inv_coordinator ?st"
      using inv(3) by (simp add: inv_coordinator_cong [OF same(9,3,1,4,8,10,5)])
    show "inv_target ?st"
      using inv_targetD [OF inv(4)] plan assms(3) unfolding inv_target_def same new targets
      by (cases "b_desired st") (auto simp: less_Suc_eq le_Suc_eq dest: less_imp_le)
    show "inv_plan ?st" by (simp add: inv_plan_def new)
  qed (simp add: new)
qed

lemma retry_cases:
  assumes "binding_inv opts st"
    and "retry_locked env opts closing ctx sequence st = Inr (sequence', version, st')"
  obtains (keep) "st' = signal (unblock st)"
  | (again) d where "b_desired st = Some d"
      "st' = signal (unblock ((newTarget (Suc (b_version st)) st)
        \<lparr>b_version := Suc (b_version st), b_desired := Some (d\<lparr>sel_version := Suc (b_version st)\<rparr>),
         b_wanted := True, b_lastError := None\<rparr>))"
      "settled_in (b_targets st) (b_version st)" "b_version st < MaxUint64"
proof -
  note tgt = inv_targetD [OF binding_invD(4) [OF assms(1)]]
  obtain d where d: "b_desired st = Some d"
    using assms(2) by (auto simp: retry_locked_def Let_def split: if_splits option.splits)
  show thesis
    using assms(2) d tgt(2) tgt(4) [OF d] keep again
    by (auto simp: retry_locked_def Let_def target_result_def settled_in_def
        split: if_splits option.splits)
qed

lemma retry_inv:
  assumes "binding_inv opts st" and "b_prepared st = None" and "\<not> b_stopping st"
    and "retry_locked env opts closing ctx sequence st = Inr (sequence', version, st')"
  shows "binding_inv opts st'"
  using assms(1, 4)
proof (cases rule: retry_cases)
  case keep
  then show ?thesis using retryCleanup_inv [OF assms(1)] by (simp add: retryCleanup_def)
next
  case (again d)
  note inv = binding_invD [OF assms(1)]
  show ?thesis
  proof (rule binding_invI)
    show "inv_target st'"
      using inv_targetD [OF inv(4)] again(3, 4) assms(3) unfolding inv_target_def again(2)
      by (auto simp: less_Suc_eq le_Suc_eq dest: less_imp_le)
    show "inv_own opts st'" "inv_borrow opts st'" "inv_coordinator st'" "inv_plan st'"
      using inv(1-3) assms(2) unfolding again(2)
      by (simp_all add: inv_own_def owned_gens_def inv_borrow_def inv_coordinator_def inv_plan_def)
  qed (simp add: again(2))
qed

subsection \<open>Leases\<close>

lemma filter_update_length:
  "i < length xs \<Longrightarrow>
   length (filter P (xs[i := y])) + (if P (xs ! i) then 1 else 0) =
   length (filter P xs) + (if P y then 1 else 0)"
proof (induction xs arbitrary: i)
  case (Cons x xs)
  then show ?case using Cons.IH [of "i - 1"] by (cases i) (auto split: if_splits)
qed simp

lemma live_append [simp]:
  "live (ls @ [l]) g = live ls g + (if lease_generation l = g \<and> lease_stage l \<noteq> Returned then 1 else 0)"
  "live_all (ls @ [l]) = live_all ls + (if lease_stage l \<noteq> Returned then 1 else 0)"
  by (simp_all add: live_def live_all_def)

lemma live_claim [simp]:
  assumes "i < length ls" and "lease_stage (ls ! i) = Held"
  shows "live (ls[i := (ls ! i)\<lparr>lease_value := v, lease_stage := Releasing\<rparr>]) g = live ls g"
    and "live_all (ls[i := (ls ! i)\<lparr>lease_value := v, lease_stage := Releasing\<rparr>]) = live_all ls"
  using assms
    filter_update_length [of i ls "\<lambda>l. lease_generation l = g \<and> lease_stage l \<noteq> Returned"
      "(ls ! i)\<lparr>lease_value := v, lease_stage := Releasing\<rparr>"]
    filter_update_length [of i ls "\<lambda>l. lease_stage l \<noteq> Returned"
      "(ls ! i)\<lparr>lease_value := v, lease_stage := Releasing\<rparr>"]
  by (simp_all add: live_def live_all_def split: if_splits)

lemma live_return:
  assumes "i < length ls" and "lease_stage (ls ! i) \<noteq> Returned"
  shows "live (ls[i := (ls ! i)\<lparr>lease_stage := Returned\<rparr>]) g =
      live ls g - (if lease_generation (ls ! i) = g then 1 else 0)"
    and "lease_generation (ls ! i) = g \<Longrightarrow> 0 < live ls g"
    and "live_all (ls[i := (ls ! i)\<lparr>lease_stage := Returned\<rparr>]) = live_all ls - 1"
  using assms
    filter_update_length [of i ls "\<lambda>l. lease_generation l = g \<and> lease_stage l \<noteq> Returned"
      "(ls ! i)\<lparr>lease_stage := Returned\<rparr>"]
    filter_update_length [of i ls "\<lambda>l. lease_stage l \<noteq> Returned" "(ls ! i)\<lparr>lease_stage := Returned\<rparr>"]
  by (auto simp: live_def live_all_def split: if_splits)

lemma live_total:
  assumes "\<And>g. 0 < live ls g \<Longrightarrow> g \<in> set gs" and "distinct gs"
  shows "live_all ls = sum_list (map (live ls) gs)"
proof -
  have "live_all ls = (\<Sum>g \<in> S. live ls g)"
    if "finite S" "\<forall>l \<in> set ls. lease_stage l \<noteq> Returned \<longrightarrow> lease_generation l \<in> S" for S
    using that(2)
  proof (induction ls)
    case (Cons l ls)
    have "live (l # ls) g = (if lease_generation l = g \<and> lease_stage l \<noteq> Returned then 1 else 0) + live ls g" for g
      by (simp add: live_def)
    with Cons that(1) show ?case
      by (cases "lease_stage l = Returned") (simp_all add: live_all_def sum.distrib)
  qed (simp_all add: live_all_def live_def)
  moreover have "\<forall>l \<in> set ls. lease_stage l \<noteq> Returned \<longrightarrow> lease_generation l \<in> set gs"
    using assms(1) by (auto simp: live_def filter_empty_conv)
  ultimately show ?thesis
    using assms(2) by (simp add: sum_list_distinct_conv_sum_set)
qed

lemma find_cong_set: "(\<And>x. x \<in> set xs \<Longrightarrow> P x \<longleftrightarrow> Q x) \<Longrightarrow> List.find P xs = List.find Q xs"
  by (induction xs) auto

text \<open>The coordinator's work depends on the borrows of retired generations only through whether they
  are zero.\<close>

lemma enabled_borrows:
  assumes "b_stopping st' = b_stopping st" "b_retired st' = b_retired st" "b_pending st' = b_pending st"
    "b_wanted st' = b_wanted st" "b_active st' = b_active st"
    and "\<And>g. g \<in> set (b_retired st) \<Longrightarrow>
      (borrows_of st' g = 0 \<longleftrightarrow> borrows_of st g = 0) \<and> blocked_of st' g = blocked_of st g"
  shows "enabled opts st' \<longleftrightarrow> enabled opts st"
proof -
  have "cleanable st' = cleanable st"
    unfolding cleanable_def assms(2) by (rule find_cong_set) (use assms(6) in blast)
  then show ?thesis by (simp add: enabled_def owned_def assms(1-5))
qed

lemma borrow_facts:
  assumes "binding_inv opts st"
  shows "g \<in> set (opt_list (b_active st) @ b_retired st) \<Longrightarrow>
      gbor (b_gens st) g = Some (int (live (b_leases st) g)) \<and>
      borrows_of st g = int (live (b_leases st) g)"
    and "0 < live (b_leases st) g \<Longrightarrow> g \<in> set (opt_list (b_active st) @ b_retired st)"
    and "distinct (opt_list (b_active st) @ b_retired st)"
proof -
  note inv = binding_invD [OF assms]
  show "distinct (opt_list (b_active st) @ b_retired st)"
    using inv(1) by (auto simp: inv_own_def owned_gens_def)
  show "0 < live (b_leases st) g \<Longrightarrow> g \<in> set (opt_list (b_active st) @ b_retired st)"
    using inv(2) by (simp add: inv_borrow_def)
  assume "g \<in> set (opt_list (b_active st) @ b_retired st)"
  then obtain n where "gbor (b_gens st) g = Some n"
    using inv(1) dom_gbor [of "b_gens st"] unfolding inv_own_def owned_gens_def
    by (metis Un_iff domD set_append subsetD)
  moreover from this have "n = int (live (b_leases st) g)"
    using inv(2) by (simp add: inv_borrow_def)
  ultimately show "gbor (b_gens st) g = Some (int (live (b_leases st) g)) \<and>
      borrows_of st g = int (live (b_leases st) g)"
    by (auto simp: gbor_def borrows_of_def)
qed

lemma int_sum_list: "int (sum_list (map f xs)) = sum_list (map (\<lambda>x. int (f x)) xs)"
  by (induction xs) simp_all

lemma acquire_Inr:
  assumes "fst (acquire env opts early late st) = Inr l"
  obtains g where "b_active st = Some g"
    and "borrows_of st g + sum_list (map (borrows_of st) (b_retired st)) \<noteq> bopt_max_borrowers opts"
    and "snd (acquire env opts early late st) =
      (update_gen g (\<lambda>gen. gen\<lparr>gen_borrows := gen_borrows gen + 1\<rparr>) st)
        \<lparr>b_leases := b_leases st @ [\<lparr>lease_generation = g,
          lease_value = Option.bind (b_gens st g) gen_value, lease_stage = Held\<rparr>]\<rparr>"
  using assms unfolding acquire_def Let_def by (auto split: option.splits if_splits)

lemma acquire_inv:
  assumes "binding_inv opts st"
  shows "binding_inv opts (snd (acquire env opts early late st))"
proof (cases "fst (acquire env opts early late st)")
  case (Inl err)
  then have "snd (acquire env opts early late st) = st"
    by (auto simp: acquire_def Let_def split: option.splits if_splits)
  then show ?thesis using assms by simp
next
  case (Inr l)
  note inv = binding_invD [OF assms]
  note facts = borrow_facts [OF assms]
  let ?st = "snd (acquire env opts early late st)"
  obtain g where g: "b_active st = Some g"
    and limit: "borrows_of st g + sum_list (map (borrows_of st) (b_retired st)) \<noteq> bopt_max_borrowers opts"
    and st: "?st = (update_gen g (\<lambda>gen. gen\<lparr>gen_borrows := gen_borrows gen + 1\<rparr>) st)
        \<lparr>b_leases := b_leases st @ [\<lparr>lease_generation = g,
          lease_value = Option.bind (b_gens st g) gen_value, lease_stage = Held\<rparr>]\<rparr>"
    by (rule acquire_Inr [OF Inr])
  have "live_all (b_leases st) = sum_list (map (live (b_leases st)) (g # b_retired st))"
    using facts(2, 3) g by (intro live_total) auto
  also have "int \<dots> = borrows_of st g + sum_list (map (borrows_of st) (b_retired st))"
    using facts(1) g by (simp add: int_sum_list cong: map_cong)
  finally have room: "int (live_all (b_leases st)) < bopt_max_borrowers opts"
    using inv(2) limit by (simp add: inv_borrow_def)
  have fresh: "g \<notin> set (b_retired st)" using facts(3) g by simp
  show ?thesis
  proof (rule binding_invI)
    have "gbor (b_gens ?st) h = (if h = g then Some (int (live (b_leases st) g) + 1) else gbor (b_gens st) h)"
      and "live (b_leases ?st) h = live (b_leases st) h + (if g = h then 1 else 0)"
      and "live_all (b_leases ?st) = live_all (b_leases st) + 1"
      and "b_active ?st = b_active st" "b_retired ?st = b_retired st" for h
      using facts(1) [of g] g by (simp_all add: st)
    then show "inv_borrow opts ?st"
      using inv(2) room g by (simp add: inv_borrow_def)
    show "inv_coordinator ?st"
      using inv(3) fresh g unfolding st by (auto simp: inv_coordinator_def)
    have "enabled opts ?st \<longleftrightarrow> enabled opts st"
      unfolding st using fresh by (intro enabled_borrows) (auto simp: borrows_of_def blocked_of_def)
    then show "b_wake ?st \<or> inv_wake opts ?st"
      using inv(6) unfolding inv_wake_def by (simp add: st)
    show "inv_own opts ?st" by (rule own_keep [of _ st]) (use inv(1) in \<open>simp_all add: st\<close>)
    show "inv_target ?st" by (rule target_keep [of _ st]) (use inv(4) in \<open>simp_all add: st\<close>)
    show "inv_plan ?st" by (rule plan_keep [of _ st]) (use inv(5) in \<open>simp_all add: st\<close>)
  qed
qed

lemma claim_inv:
  assumes "binding_inv opts st"
  shows "binding_inv opts (snd (release_claim l st))"
proof (cases "l < length (b_leases st) \<and> lease_stage (b_leases st ! l) = Held")
  case True
  note inv = binding_invD [OF assms]
  let ?st = "snd (release_claim l st)"
  have st: "?st = st\<lparr>b_leases := (b_leases st)
        [l := (b_leases st ! l)\<lparr>lease_value := None, lease_stage := Releasing\<rparr>]\<rparr>"
    using True by (simp add: release_claim_def)
  have enabled: "enabled opts ?st \<longleftrightarrow> enabled opts st" unfolding st by (rule enabled_cong) simp_all
  show ?thesis
  proof (rule binding_invI)
    show "inv_borrow opts ?st" "inv_coordinator ?st"
      using inv(2, 3) True by (simp_all add: st inv_borrow_def inv_coordinator_def)
    show "b_wake ?st \<or> inv_wake opts ?st"
      using inv(6) enabled unfolding inv_wake_def by (simp add: st)
    show "inv_own opts ?st" by (rule own_keep [of _ st]) (use inv(1) in \<open>simp_all add: st\<close>)
    show "inv_target ?st" by (rule target_keep [of _ st]) (use inv(4) in \<open>simp_all add: st\<close>)
    show "inv_plan ?st" by (rule plan_keep [of _ st]) (use inv(5) in \<open>simp_all add: st\<close>)
  qed
qed (use assms in \<open>auto simp: release_claim_def\<close>)

lemma return_inv:
  assumes "binding_inv opts st" and "l < length (b_leases st)"
    and "lease_stage (b_leases st ! l) = Releasing"
  shows "binding_inv opts (release_return l st)"
proof -
  note inv = binding_invD [OF assms(1)]
  note facts = borrow_facts [OF assms(1)]
  let ?st = "release_return l st" and ?g = "lease_generation (b_leases st ! l)"
  have "lease_stage (b_leases st ! l) \<noteq> Returned" by (simp add: assms(3))
  note live = live_return [OF assms(2) this]
  have pos: "0 < live (b_leases st) ?g" by (rule live(2)) simp
  note g = facts(1) [OF facts(2) [OF pos]]
  obtain gen where gen: "b_gens st ?g = Some gen" "gen_borrows gen = int (live (b_leases st) ?g)"
    using g by (auto simp: gbor_def)
  define returned where "returned = (update_gen ?g (\<lambda>gen. gen\<lparr>gen_borrows := gen_borrows gen - 1\<rparr>) st)
    \<lparr>b_leases := (b_leases st)[l := (b_leases st ! l)\<lparr>lease_stage := Returned\<rparr>]\<rparr>"
  have left: "borrows_of returned ?g = int (live (b_leases st) ?g) - 1"
    by (simp add: returned_def borrows_of_def gen)
  have st: "?st = (if Some ?g \<noteq> b_active st \<and> borrows_of returned ?g = 0 then signal returned else returned)"
    by (simp add: release_return_def Let_def returned_def)
  show ?thesis
  proof (rule binding_invI)
    have fewer: "gbor (b_gens ?st) h = (if h = ?g then Some (int (live (b_leases st) ?g - 1)) else gbor (b_gens st) h)"
      "live (b_leases ?st) h = live (b_leases st) h - (if ?g = h then 1 else 0)"
      "live_all (b_leases ?st) \<le> live_all (b_leases st)"
      "b_active ?st = b_active st" "b_retired ?st = b_retired st" for h
      using live(1, 3) g pos by (simp_all add: st returned_def)
    from fewer show "inv_borrow opts ?st"
      using inv(2) by (simp add: inv_borrow_def)
    have "b_coordinator ?st = b_coordinator st" "b_pending ?st = b_pending st"
      "b_exited ?st = b_exited st" "b_stopping ?st = b_stopping st"
      by (simp_all add: st returned_def)
    with fewer show "inv_coordinator ?st"
      using inv(3) by (simp add: inv_coordinator_def)
    have "enabled opts ?st \<longleftrightarrow> enabled opts st" if "\<not> (Some ?g \<noteq> b_active st \<and> borrows_of returned ?g = 0)"
    proof -
      have "?g \<notin> set (b_retired st) \<or> live (b_leases st) ?g \<noteq> 1"
        using that left facts(3) by (cases "b_active st") auto
      then have "(borrows_of returned h = 0 \<longleftrightarrow> borrows_of st h = 0) \<and> blocked_of returned h = blocked_of st h"
        if "h \<in> set (b_retired st)" for h
        using that left g pos gen by (cases "h = ?g") (auto simp: borrows_of_def blocked_of_def returned_def)
      then show ?thesis
        using that unfolding st by (intro enabled_borrows) (auto simp: returned_def)
    qed
    then show "b_wake ?st \<or> inv_wake opts ?st"
      using inv(6) unfolding inv_wake_def by (auto simp: st returned_def)
    show "inv_own opts ?st" by (rule own_keep [of _ st]) (use inv(1) in \<open>simp_all add: st returned_def\<close>)
    show "inv_target ?st" by (rule target_keep [of _ st]) (use inv(4) in \<open>simp_all add: st returned_def\<close>)
    show "inv_plan ?st" by (rule plan_keep [of _ st]) (use inv(5) in \<open>simp_all add: st returned_def\<close>)
  qed
qed

lemma awake_inv:
  assumes "binding_inv opts st" and "b_coordinator st = Waiting"
  shows "binding_inv opts (awake st)"
proof (rule binding_invI)
  note inv = binding_invD [OF assms(1)]
  show "inv_coordinator (awake st)" "b_wake (awake st) \<or> inv_wake opts (awake st)"
    using inv(3) assms(2) by (auto simp: awake_def inv_coordinator_def inv_wake_def)
  show "inv_own opts (awake st)" by (rule own_keep [of _ st]) (use inv(1) in \<open>simp_all add: awake_def\<close>)
  show "inv_borrow opts (awake st)"
    by (rule borrow_keep [of _ st]) (use inv(2) in \<open>simp_all add: awake_def\<close>)
  show "inv_target (awake st)" by (rule target_keep [of _ st]) (use inv(4) in \<open>simp_all add: awake_def\<close>)
  show "inv_plan (awake st)" by (rule plan_keep [of _ st]) (use inv(5) in \<open>simp_all add: awake_def\<close>)
qed


subsection \<open>The coordinator\<close>

lemma cleanable_Some:
  assumes "binding_inv opts st" and "cleanable st = Some g"
  shows "g \<in> set (b_retired st)" and "live (b_leases st) g = 0"
proof -
  from assms(2) show g: "g \<in> set (b_retired st)"
    by (auto simp: cleanable_def find_Some_iff)
  have "borrows_of st g = 0"
    using assms(2) by (auto simp: cleanable_def find_Some_iff)
  then show "live (b_leases st) g = 0"
    using borrow_facts(1) [OF assms(1), of g] g by simp
qed

lemma run_inv:
  assumes "binding_inv opts st" and "b_coordinator st = Looping"
  shows "binding_inv opts (run_section env opts st)"
proof -
  note inv = binding_invD [OF assms(1)]
  note tgt = inv_targetD [OF inv(4)]
  have idle: "b_pending st = None" using inv(3) assms(2) by (auto simp: inv_coordinator_def)
  have moved: "binding_inv opts (st\<lparr>b_coordinator := c, b_exited := x, b_notices := n\<rparr>)"
    if "inv_coordinator (st\<lparr>b_coordinator := c, b_exited := x, b_notices := n\<rparr>)"
      "c = Waiting \<Longrightarrow> \<not> enabled opts st" for c x n
  proof (rule binding_invI)
    let ?st = "st\<lparr>b_coordinator := c, b_exited := x, b_notices := n\<rparr>"
    show "inv_own opts ?st" by (rule own_keep [of _ st]) (use inv(1) in simp_all)
    show "inv_borrow opts ?st" by (rule borrow_keep [of _ st]) (use inv(2) in simp_all)
    show "inv_target ?st" by (rule target_keep [of _ st]) (use inv(4) in simp_all)
    show "inv_plan ?st" by (rule plan_keep [of _ st]) (use inv(5) in simp_all)
    have "enabled opts ?st \<longleftrightarrow> enabled opts st" by (rule enabled_cong) simp_all
    then show "b_wake ?st \<or> inv_wake opts ?st" using that(2) by (auto simp: inv_wake_def)
  qed (rule that(1))
  consider (exit) "b_stopping st" "b_retired st = []"
    | (clean) g where "\<not> (b_stopping st \<and> b_retired st = [])" "cleanable st = Some g"
    | (limit) d where "\<not> (b_stopping st \<and> b_retired st = [])" "cleanable st = None"
        "b_desired st = Some d" "\<not> b_stopping st" "b_wanted st"
        "int (owned st) < bopt_max_generations opts" "b_generation st = MaxUint64"
    | (construct) d where "\<not> (b_stopping st \<and> b_retired st = [])" "cleanable st = None"
        "b_desired st = Some d" "\<not> b_stopping st" "b_wanted st"
        "int (owned st) < bopt_max_generations opts" "b_generation st \<noteq> MaxUint64"
    | (wait) "\<not> enabled opts st"
    using idle tgt(5) by (cases "b_desired st"; cases "cleanable st") (auto simp: enabled_def)
  then show ?thesis
  proof cases
    case exit
    have "run_section env opts st = st\<lparr>b_coordinator := Exited, b_exited := True,
        b_notices := Suc (b_notices st)\<rparr>"
      using exit idle by (simp add: run_section_def)
    moreover have "inv_coordinator (st\<lparr>b_coordinator := Exited, b_exited := True,
        b_notices := Suc (b_notices st)\<rparr>)"
      using exit idle inv(3) by (auto simp: inv_coordinator_def)
    ultimately show ?thesis using moved [where c = Exited and x = True and n = "Suc (b_notices st)"] by simp
  next
    case wait
    have "inv_coordinator (st\<lparr>b_coordinator := Waiting\<rparr>)"
      using idle inv(3) assms(2) by (auto simp: inv_coordinator_def)
    moreover have "run_section env opts st = st\<lparr>b_coordinator := Waiting\<rparr>"
      using wait idle by (auto simp: enabled_def run_section_def split: option.split)
    ultimately show ?thesis using moved [where c = Waiting and x = "b_exited st" and n = "b_notices st"] wait by simp
  next
    case (clean g)
    let ?st = "(update_gen g (\<lambda>gen. gen\<lparr>gen_cleaning := True\<rparr>) st)\<lparr>b_coordinator := Cleaning g\<rparr>"
    have "binding_inv opts ?st"
    proof (rule binding_invI)
      show "inv_own opts ?st" by (rule own_keep [of _ st]) (use inv(1) in simp_all)
      show "inv_borrow opts ?st" by (rule borrow_keep [of _ st]) (use inv(2) in simp_all)
      show "inv_target ?st" by (rule target_keep [of _ st]) (use inv(4) in simp_all)
      show "inv_plan ?st" by (rule plan_keep [of _ st]) (use inv(5) in simp_all)
      show "inv_coordinator ?st"
        using cleanable_Some [OF assms(1) clean(2)] idle inv(3) assms(2)
        by (auto simp: inv_coordinator_def)
    qed (simp add: inv_wake_def)
    then show ?thesis using clean idle by (auto simp: run_section_def)
  next
    case (limit d)
    define err where "err = Some (resource_fail resource_ErrLimit ''construct''
      (bopt_name opts) (binding_details env (b_version st) 0 False) [])"
    let ?st = "(signal (settle (sel_version d) 0 err
      (st\<lparr>b_wanted := False, b_lastError := err\<rparr>)))\<lparr>b_coordinator := Waiting\<rparr>"
    have "binding_inv opts ?st"
    proof (rule binding_invI)
      show "inv_own opts ?st" by (rule own_keep [of _ st]) (use inv(1) in simp_all)
      show "inv_borrow opts ?st" by (rule borrow_keep [of _ st]) (use inv(2) in simp_all)
      show "inv_plan ?st" by (rule plan_keep [of _ st]) (use inv(5) in simp_all)
      show "inv_coordinator ?st" using idle inv(3) assms(2) by (auto simp: inv_coordinator_def)
      show "inv_target ?st"
        using tgt limit(3) unfolding inv_target_def by (auto simp: err_def)
    qed simp
    then show ?thesis using limit idle by (simp add: run_section_def err_def Let_def)
  next
    case (construct d)
    let ?g = "Suc (b_generation st)"
    let ?st = "run_section env opts st"
    have below: "b_generation st < MaxUint64" using construct(7) inv(1) by (simp add: inv_own_def)
    have same: "b_active ?st = b_active st" "b_retired ?st = b_retired st" "b_leases ?st = b_leases st"
      "b_stopping ?st = b_stopping st" "b_exited ?st = b_exited st" "b_desired ?st = b_desired st"
      "b_version ?st = b_version st" "b_applied ?st = b_applied st" "b_targets ?st = b_targets st"
      "b_prepared ?st = b_prepared st"
      and new: "b_wake ?st" "b_pending ?st = Some ?g" "b_generation ?st = ?g" "\<not> b_wanted ?st"
      "b_coordinator ?st = Constructing ?g"
      "gsel (b_gens ?st) = (gsel (b_gens st))(?g \<mapsto> b_version st)"
      "gbor (b_gens ?st) = (gbor (b_gens st))(?g \<mapsto> 0)"
      using construct idle below tgt(4) [OF construct(3)] by (auto simp: run_section_def Let_def)
    have fresh: "?g \<notin> dom (gsel (b_gens st))" "?g \<notin> set (owned_gens st)"
      using inv(1) unfolding inv_own_def by (fastforce, fastforce)
    have unborrowed: "live (b_leases st) ?g = 0"
      using fresh(2) borrow_facts(2) [OF assms(1), of ?g] by (auto simp: owned_gens_def)
    show ?thesis
    proof (rule binding_invI)
      have "int (length (owned_gens ?st)) \<le> bopt_max_generations opts"
        using construct(6) idle by (cases "b_active st") (simp_all add: owned_def owned_gens_def same new)
      then show "inv_own opts ?st"
        using inv(1) fresh below idle
        by (auto simp: inv_own_def owned_gens_def same new)
      show "inv_borrow opts ?st"
        using inv(2) unborrowed by (simp add: inv_borrow_def same new)
      show "inv_coordinator ?st"
        using inv(3) construct(4) by (auto simp: inv_coordinator_def same new)
      show "inv_target ?st"
        using tgt construct(3, 4) unfolding inv_target_def same new by (auto split: if_splits)
      show "inv_plan ?st"
        using inv(5) unfolding inv_plan_def same new by auto
    qed (simp add: new)
  qed
qed

lemma construct_effect:
  assumes "b_gens st g = Some candidate" and "st' = construct_finish env later opts g (inst, err) st"
  shows "b_leases st' = b_leases st" "b_stopping st' = b_stopping st" "b_exited st' = b_exited st"
    "b_desired st' = b_desired st" "b_version st' = b_version st" "b_wanted st' = b_wanted st"
    "b_generation st' = b_generation st" "b_prepared st' = b_prepared st"
    "gsel (b_gens st') = gsel (b_gens st)" "gbor (b_gens st') = gbor (b_gens st)"
    "b_wake st'" "b_pending st' = None" "b_coordinator st' = Looping"
    "dom (b_targets st') = dom (b_targets st)"
  unfolding assms construct_finish_def prod.case option.case Let_def
  by (simp_all split: option.split)

lemma construct_owner:
  assumes "b_gens st g = Some candidate" and "st' = construct_finish env later opts g (inst, err) st"
  shows "b_active st' = (if adoptable env candidate inst err st then Some g else b_active st)"
    "b_applied st' = (if adoptable env candidate inst err st
       then sel_version (gen_selection candidate) else b_applied st)"
    "b_retired st' = b_retired st @ (if adoptable env candidate inst err st then opt_list (b_active st)
       else if inst \<noteq> None then [g] else [])"
  unfolding assms construct_finish_def prod.case option.case Let_def
  by (cases inst; cases "b_active st"; simp)+

lemma construct_targets:
  assumes "b_gens st g = Some candidate" and "st' = construct_finish env later opts g (inst, err) st"
    and "v = sel_version (gen_selection candidate)"
  shows "settled_in (b_targets st') u \<longleftrightarrow> settled_in (b_targets st) u \<or>
      u = v \<and> v \<in> dom (b_targets st) \<and>
      (adoptable env candidate inst err st \<or> current_target candidate st \<and> \<not> b_stopping st)"
    "succeeded (b_targets st') u h \<longleftrightarrow> succeeded (b_targets st) u h \<or>
      u = v \<and> v \<in> dom (b_targets st) \<and> \<not> settled_in (b_targets st) v \<and>
      adoptable env candidate inst err st \<and> h = g"
  unfolding assms construct_finish_def prod.case option.case Let_def
  by (auto split: option.split)

lemma constructing_candidate:
  assumes "binding_inv opts st" and "b_coordinator st = Constructing g"
  obtains candidate where "b_pending st = Some g" "b_gens st g = Some candidate"
    "gsel (b_gens st) g = Some (sel_version (gen_selection candidate))"
proof -
  note inv = binding_invD [OF assms(1)]
  have pending: "b_pending st = Some g" using inv(3) assms(2) by (auto simp: inv_coordinator_def)
  then obtain v where "gsel (b_gens st) g = Some v"
    using inv(1) by (auto simp: inv_own_def owned_gens_def)
  then show thesis using that pending by (auto simp: gsel_def)
qed

lemma construct_inv:
  assumes "binding_inv opts st" and "b_coordinator st = Constructing g"
  shows "binding_inv opts (construct_finish env later opts g attempt st)"
proof -
  note inv = binding_invD [OF assms(1)]
  obtain inst err where a: "attempt = (inst, err)" by (cases attempt)
  obtain candidate where pending: "b_pending st = Some g" and c: "b_gens st g = Some candidate"
    and v: "gsel (b_gens st) g = Some (sel_version (gen_selection candidate))"
    by (rule constructing_candidate [OF assms])
  let ?st = "construct_finish env later opts g (inst, err) st"
  note same = construct_effect [OF c refl, of env later opts inst err]
  note owner = construct_owner [OF c refl, of env later opts inst err]
  note targets = construct_targets [OF c refl refl, of env later opts inst err]
  have current: "current_target candidate st \<longleftrightarrow>
      map_option sel_version (b_desired st) = Some (sel_version (gen_selection candidate))"
    and adopt: "adoptable env candidate inst err st \<Longrightarrow>
      inst \<noteq> None \<and> current_target candidate st \<and> \<not> b_stopping st"
    by (auto simp: current_target_def adoptable_def)
  have "binding_inv opts ?st"
  proof (rule binding_invI)
    show "inv_own opts ?st"
      using inv(1) pending by (auto simp: inv_own_def owned_gens_def same owner)
    show "inv_borrow opts ?st"
      using inv(2) by (auto simp: inv_borrow_def same owner)
    show "inv_coordinator ?st"
      using inv(3) assms(2) adopt by (auto simp: inv_coordinator_def same owner)
    show "inv_plan ?st" using inv(5) by (simp add: inv_plan_def same)
    show "inv_target ?st"
      using inv_targetD [OF inv(4)] v pending adopt
      unfolding inv_target_def same owner targets current
      by (cases "b_desired st") auto
  qed (simp add: same)
  then show ?thesis by (simp add: a)
qed

lemma gens_update:
  "(\<And>gen. gen_selection (f gen) = gen_selection gen) \<Longrightarrow> gsel (b_gens (update_gen g f st)) = gsel (b_gens st)"
  "(\<And>gen. gen_borrows (f gen) = gen_borrows gen) \<Longrightarrow> gbor (b_gens (update_gen g f st)) = gbor (b_gens st)"
  by simp_all

lemma clean_inv:
  assumes "binding_inv opts st" and "b_coordinator st = Cleaning g"
  shows "binding_inv opts (clean env opts g reported st)"
proof -
  note inv = binding_invD [OF assms(1)]
  let ?st = "clean env opts g reported st"
  have g: "g \<in> set (b_retired st)" "live (b_leases st) g = 0" and idle: "b_pending st = None"
    using inv(3) assms(2) by (auto simp: inv_coordinator_def)
  then obtain gen where gen: "b_gens st g = Some gen"
    using inv(1) by (fastforce simp: inv_own_def owned_gens_def gsel_def)
  let ?complete = "\<not> gen_release gen \<or> rel_complete reported"
  have same: "b_leases ?st = b_leases st" "b_stopping ?st = b_stopping st" "b_exited ?st = b_exited st"
      "b_desired ?st = b_desired st" "b_version ?st = b_version st" "b_wanted ?st = b_wanted st"
      "b_active ?st = b_active st" "b_pending ?st = b_pending st" "b_targets ?st = b_targets st"
      "b_applied ?st = b_applied st" "b_generation ?st = b_generation st" "b_prepared ?st = b_prepared st"
      "gsel (b_gens ?st) = gsel (b_gens st)" "gbor (b_gens ?st) = gbor (b_gens st)"
    and new: "b_wake ?st" "b_coordinator ?st = Looping"
      "b_retired ?st = (if ?complete then remove1 g (b_retired st) else b_retired st)"
    unfolding clean_def gen option.case Let_def by (simp_all del: update_gen_gens add: gens_update)
  show ?thesis
  proof (rule binding_invI)
    show "inv_own opts ?st"
      using inv(1) by (auto simp: inv_own_def owned_gens_def same new length_remove1 dest: notin_set_remove1)
    have "h \<in> set (remove1 g (b_retired st))" if "h \<in> set (b_retired st)" "0 < live (b_leases st) h" for h
      using that g(2) by (cases "h = g") simp_all
    then show "inv_borrow opts ?st"
      using inv(2) by (auto simp: inv_borrow_def same new)
    show "inv_coordinator ?st"
      using inv(3) assms(2) idle by (auto simp: inv_coordinator_def same new)
    show "inv_target ?st" by (rule target_keep [of _ st]) (use inv(4) in \<open>simp_all add: same\<close>)
    show "inv_plan ?st" by (rule plan_keep [of _ st]) (use inv(5) in \<open>simp_all add: same\<close>)
  qed (simp add: new)
qed


text \<open>The binding system: any admitted options, starting from a new binding.\<close>

definition admitted :: "'c binding_options \<Rightarrow> bool" where
  "admitted opts \<longleftrightarrow> 2 \<le> bopt_max_generations opts \<and> 1 \<le> bopt_max_borrowers opts"

definition binding_initial :: "'c binding_options \<Rightarrow> ('c, 't) binding \<Rightarrow> bool" where
  "binding_initial opts st \<longleftrightarrow> admitted opts \<and> st = new_binding"

interpretation bindings: transition_system "binding_initial opts" "binding_step opts" "binding_inv opts"
  for opts :: "'c binding_options"
proof
  show "binding_inv opts st" if "binding_initial opts st" for st
    using that by (auto simp: binding_initial_def admitted_def intro: new_binding_inv)
  show "binding_inv opts st'" if "binding_inv opts st" "binding_step opts st st'" for st st'
    using that(2, 1)
    by cases (auto intro: prepare_inv abandon_inv commit_inv retry_inv stop_inv retryCleanup_inv
        acquire_inv claim_inv return_inv run_inv construct_inv clean_inv awake_inv)
qed

end
