(* ===== verification/Resource_Behaviour.thy ===== *)
theory Resource_Behaviour
  imports Resource_Steps
begin

text \<open>
  What a binding guarantees in every reachable state, over any interleaving of its callers and its
  coordinator: ownership and borrowing, the fate of targets, adoption, progress of the coordinator,
  the fixed policy and the life of a lease. A concrete execution at the end applies the properties.
\<close>

section \<open>Ownership and borrowing\<close>

text \<open>C3: in every reachable state of a binding no generation is owned twice, at most
  \<^verbatim>\<open>MaxGenerations\<close> are owned at a time (active, pending and retired together), each owned
  generation's borrow counter is exactly its number of leases not yet returned, and all leases together
  stay within \<^verbatim>\<open>MaxBorrowers\<close>.\<close>

theorem generations_and_borrows_bounded:
  assumes "reach (binding_initial opts) (binding_step opts) st"
  shows "distinct (owned_gens st) \<and> int (length (owned_gens st)) \<le> bopt_max_generations opts \<and>
    (\<forall>g. g \<in> set (opt_list (b_active st) @ b_retired st) \<longrightarrow>
       borrows_of st g = int (live (b_leases st) g)) \<and>
    int (live_all (b_leases st)) \<le> bopt_max_borrowers opts"
proof -
  have inv: "binding_inv opts st" by (rule bindings.reach_inv [OF assms])
  have "distinct (owned_gens st)" "int (length (owned_gens st)) \<le> bopt_max_generations opts"
    "int (live_all (b_leases st)) \<le> bopt_max_borrowers opts"
    using binding_invD(1, 2) [OF inv] by (simp_all add: inv_own_def inv_borrow_def)
  then show ?thesis using borrow_facts(1) [OF inv] by blast
qed

text \<open>C2: the release function of a generation runs only while no lease of that generation is
  outstanding and while it is neither active nor pending; and once the coordinator has exited, no
  lease is outstanding and nothing is owned.\<close>

theorem never_released_while_borrowed:
  assumes "reach (binding_initial opts) (binding_step opts) st"
  shows "(\<forall>g. b_coordinator st = Cleaning g \<longrightarrow>
       live (b_leases st) g = 0 \<and> b_active st \<noteq> Some g \<and> b_pending st \<noteq> Some g) \<and>
    (b_exited st \<longrightarrow> b_stopping st \<and> owned_gens st = [] \<and> live_all (b_leases st) = 0)"
proof -
  have inv: "binding_inv opts st" by (rule bindings.reach_inv [OF assms])
  note parts = binding_invD [OF inv]
  have "live_all (b_leases st) = sum_list (map (live (b_leases st)) (opt_list (b_active st) @ b_retired st))"
    using borrow_facts(2, 3) [OF inv] by (intro live_total)
  then have "live_all (b_leases st) = 0" if "b_exited st"
    using that parts(3) by (simp add: inv_coordinator_def)
  moreover have "owned_gens st = []" if "b_exited st"
    using that parts(3) by (cases "b_pending st") (auto simp: inv_coordinator_def owned_gens_def)
  moreover have "live (b_leases st) g = 0 \<and> b_active st \<noteq> Some g \<and> b_pending st \<noteq> Some g"
    if "b_coordinator st = Cleaning g" for g
    using that parts(1, 3) by (auto simp: inv_coordinator_def inv_own_def owned_gens_def)
  moreover have "b_exited st \<Longrightarrow> b_stopping st" using parts(3) by (simp add: inv_coordinator_def)
  ultimately show ?thesis by blast
qed

section \<open>Targets\<close>

text \<open>C6: no configuration target is forgotten. In every reachable state each superseded target is
  settled, and an unsettled current target belongs to a binding that is not stopping and is either
  still wanted or being constructed for exactly that version; so once the binding stops, every
  target is settled.\<close>

theorem targets_not_forgotten:
  assumes "reach (binding_initial opts) (binding_step opts) st"
    and "v \<in> dom (b_targets st)" and "\<not> settled_in (b_targets st) v"
  shows "v = b_version st \<and> \<not> b_stopping st \<and>
    (b_wanted st \<or> (\<exists>g. b_pending st = Some g \<and> gsel (b_gens st) g = Some v))"
proof -
  note tgt = inv_targetD [OF binding_invD(4) [OF bindings.reach_inv [OF assms(1)]]]
  have "1 \<le> v" "v \<le> b_version st" using assms(2) tgt(1) by auto
  moreover from this have "\<not> v < b_version st" using tgt(6) [of v] assms(3) by blast
  ultimately have "v = b_version st" "b_version st \<noteq> 0" by simp_all
  then show ?thesis using tgt(7, 8) assms(3) by simp
qed

text \<open>Targets only ever gain an outcome.\<close>

definition outcomes_kept :: "(nat \<rightharpoonup> target) \<Rightarrow> (nat \<rightharpoonup> target) \<Rightarrow> bool" where
  "outcomes_kept old new \<longleftrightarrow> (\<forall>v t. old v = Some t \<and> tgt_settled t \<longrightarrow> new v = Some t)"

lemma outcomes_refl [simp]: "outcomes_kept m m"
  by (simp add: outcomes_kept_def)

lemma outcomes_settle [simp]:
  "outcomes_kept m (b_targets st) \<Longrightarrow> outcomes_kept m (b_targets (settle v g e st))"
  by (auto simp: outcomes_kept_def settle_def split: option.split)

lemma outcomes_new [simp]:
  "outcomes_kept m (b_targets st) \<Longrightarrow> v \<notin> dom m \<Longrightarrow> outcomes_kept m (b_targets (newTarget v st))"
  by (auto simp: outcomes_kept_def newTarget_def)

lemma version_fresh: "inv_target st \<Longrightarrow> Suc (b_version st) \<notin> dom (b_targets st)"
  using inv_targetD(1) [of st] by auto

lemma run_outcomes: "outcomes_kept (b_targets st) (b_targets (run_section env opts st))"
  by (simp add: run_section_def Let_def split: option.split)

lemma construct_outcomes: "outcomes_kept (b_targets st) (b_targets (construct_finish env later opts g attempt st))"
  by (cases attempt) (simp add: construct_finish_def Let_def split: option.split)

lemma step_outcomes_kept:
  assumes "binding_inv opts st" and "binding_step opts st st'"
  shows "outcomes_kept (b_targets st) (b_targets st')"
proof -
  note inv = binding_invD [OF assms(1)]
  note fresh = version_fresh [OF inv(4)]
  from assms(2) show ?thesis
  proof cases
    case (step_commit plan env)
    show ?thesis
    proof (cases plan)
      case (InstallTarget previous active val equal)
      have "b_version st < MaxUint64"
        using inv(5) step_commit InstallTarget by (simp add: inv_plan_def)
      then show ?thesis
        unfolding step_commit InstallTarget using fresh by (simp add: Let_def split: option.split)
    qed (simp add: step_commit)
  next
    case (step_retry env closing ctx sequence sequence' version)
    show ?thesis
      using assms(1) step_retry(3) by (cases rule: retry_cases) (simp_all add: fresh)
  next
    case (step_clean g env reported)
    then show ?thesis by (simp add: clean_def Let_def split: option.split)
  qed (simp_all add: stop_def retryCleanup_def acquire_def release_claim_def release_return_def
      awake_def run_outcomes construct_outcomes Let_def split: option.split)
qed

text \<open>C8: the outcome of a target is final. Whatever happens to a binding after a reachable state, a
  target that is settled there keeps its generation and error, so a receipt never changes once it has
  reported.\<close>

theorem outcome_is_final:
  assumes "reach (binding_initial opts) (binding_step opts) st" and "(binding_step opts)\<^sup>*\<^sup>* st st'"
    and "b_targets st v = Some t" and "tgt_settled t"
  shows "b_targets st' v = Some t"
proof -
  have "outcomes_kept (b_targets st) (b_targets st')"
    using bindings.steps_related [OF assms(2) bindings.reach_inv [OF assms(1)],
        of "\<lambda>s t. outcomes_kept (b_targets s) (b_targets t)"] step_outcomes_kept
    by (fastforce simp: outcomes_kept_def)
  then show ?thesis using assms(3, 4) by (auto simp: outcomes_kept_def)
qed

section \<open>Adoption\<close>

lemma active_commit: "b_active (snd (commit env opts plan st)) = b_active st"
  by (cases plan) (simp_all add: Let_def split: option.split)

lemma active_retry:
  "retry_locked env opts closing ctx sequence st = Inr (sequence', version, st') \<Longrightarrow>
   b_active st' = b_active st"
  by (auto simp: retry_locked_def Let_def split: option.splits if_splits prod.splits)

lemma active_run: "b_active (run_section env opts st) = b_active st"
  by (simp add: run_section_def Let_def split: option.split)

text \<open>C5: a generation becomes active only by finishing its own construction, without error, for the
  selection that is desired at that moment, while neither the binding nor its scope is stopping and its
  context is live; the applied version is then that of the desired selection. A superseded or cancelled
  candidate is never adopted.\<close>

theorem adopts_only_current:
  assumes "reach (binding_initial opts) (binding_step opts) st" and "binding_step opts st st'"
    and "b_active st' = Some g" and "b_active st \<noteq> Some g"
  shows "b_coordinator st = Constructing g \<and> \<not> b_stopping st \<and> b_applied st' = b_version st \<and>
    (\<exists>candidate d. b_gens st g = Some candidate \<and> ctx_err (gen_ctx candidate) = None \<and>
       b_desired st = Some d \<and> sel_version (gen_selection candidate) = sel_version d) \<and>
    settled_in (b_targets st') (b_version st)"
proof -
  note reached = bindings.reach_inv [OF assms(1)]
  note tgt = inv_targetD [OF binding_invD(4) [OF reached]]
  from assms(2) obtain env later inst err where
    "b_coordinator st = Constructing g \<and> st' = construct_finish env later opts g (inst, err) st \<and>
     (\<exists>candidate. b_gens st g = Some candidate \<and> adoptable env candidate inst err st)"
  proof cases
    case (step_construct h env later granted ctx stopped ctx' stopped' built)
    obtain inst err where "construct_attempt granted ctx stopped ctx' stopped' built = (inst, err)"
      by fastforce
    with step_construct have st': "st' = construct_finish env later opts h (inst, err) st" by simp
    obtain candidate where c: "b_gens st h = Some candidate"
      by (rule constructing_candidate [OF reached step_construct(2)])
    have "adoptable env candidate inst err st \<and> h = g"
      using construct_owner(1) [OF c st'] assms(3, 4) by (auto split: if_splits)
    with that c st' step_construct show ?thesis by blast
  qed (use assms(3, 4) in
      \<open>auto simp: active_commit active_run stop_def retryCleanup_def acquire_def release_claim_def release_return_def clean_def
        awake_def Let_def split: option.splits if_splits dest: active_retry\<close>)
  then obtain candidate where st': "st' = construct_finish env later opts g (inst, err) st"
    and coordinator: "b_coordinator st = Constructing g"
    and c: "b_gens st g = Some candidate" and adopt: "adoptable env candidate inst err st"
    by blast
  obtain d where d: "b_desired st = Some d" "sel_version d = sel_version (gen_selection candidate)"
    using adopt by (auto simp: adoptable_def current_target_def)
  have v: "sel_version (gen_selection candidate) = b_version st"
    using tgt(4) [OF d(1)] d(2) by simp
  have "b_version st \<in> dom (b_targets st)" using tgt(1, 3) d(1) by auto
  then have "settled_in (b_targets st') (b_version st)"
    using construct_targets(1) [OF c st' refl, of "b_version st"] adopt v by simp
  then show ?thesis
    using coordinator c d v adopt construct_owner(2) [OF c st'] by (auto simp: adoptable_def)
qed

section \<open>The coordinator's progress\<close>

text \<open>C7: no wake-up is lost. Whenever the coordinator of a reachable binding waits while there is
  something for it to do (exit, release a retired generation, or construct a wanted one), the signal
  that will wake it is already pending.\<close>

theorem no_lost_wakeup:
  assumes "reach (binding_initial opts) (binding_step opts) st"
    and "b_coordinator st = Waiting" and "enabled opts st"
  shows "b_wake st \<and> binding_step opts st (awake st)"
  using binding_invD(6) [OF bindings.reach_inv [OF assms(1)]] assms(2, 3)
  by (auto simp: inv_wake_def intro: step_awake)

text \<open>The coordinator's own steps when every release completes.\<close>

inductive coordinator_step :: "'c binding_options \<Rightarrow> ('c, 't) binding \<Rightarrow> ('c, 't) binding \<Rightarrow> bool"
  for opts where
  co_run: "b_coordinator st = Looping \<Longrightarrow> coordinator_step opts st (run_section env opts st)"
| co_construct: "b_coordinator st = Constructing g \<Longrightarrow>
    coordinator_step opts st (construct_finish env later opts g
      (construct_attempt granted ctx stopped ctx' stopped' built) st)"
| co_clean: "b_coordinator st = Cleaning g \<Longrightarrow> rel_complete reported \<Longrightarrow>
    coordinator_step opts st (clean env opts g reported st)"
| co_awake: "b_coordinator st = Waiting \<Longrightarrow> b_wake st \<Longrightarrow> coordinator_step opts st (awake st)"

lemma coordinator_step_binding: "coordinator_step opts st st' \<Longrightarrow> binding_step opts st st'"
  by (induction rule: coordinator_step.induct) (auto intro: binding_step.intros)

text \<open>A binding is draining when it is stopping, no lease is outstanding and no release is held
  back.\<close>

definition draining :: "('c, 't) binding \<Rightarrow> bool" where
  "draining st \<longleftrightarrow> b_stopping st \<and> live_all (b_leases st) = 0 \<and>
     (\<forall>g. g \<in> set (opt_list (b_pending st) @ b_retired st) \<longrightarrow> \<not> blocked_of st g)"

definition drain_bound :: "('c, 't) binding \<Rightarrow> nat" where
  "drain_bound st =
     (case b_coordinator st of
        Exited \<Rightarrow> 0
      | Looping \<Rightarrow> 2 * length (b_retired st) + 1
      | Cleaning _ \<Rightarrow> 2 * length (b_retired st)
      | Constructing _ \<Rightarrow> 2 * length (b_retired st) + 4
      | Waiting \<Rightarrow> 2 * length (b_retired st) + 2)"

lemma blocked_clean:
  "blocked_of (clean env opts g reported st) h \<longrightarrow> blocked_of st h" if "rel_complete reported"
  using that unfolding clean_def Let_def
  by (simp add: blocked_of_def cancel_gen_gens option.map_comp comp_def split: option.splits)

lemma blocked_construct: "blocked_of (construct_finish env later opts g attempt st) h \<longrightarrow> blocked_of st h"
  by (cases attempt)
    (simp add: construct_finish_def Let_def blocked_of_def cancel_gen_gens option.map_comp comp_def
      split: option.splits)

lemma draining_cleanable:
  assumes "binding_inv opts st" and "draining st" and "b_retired st \<noteq> []"
  obtains g where "cleanable st = Some g"
proof -
  have "live_all (b_leases st) = sum_list (map (live (b_leases st)) (opt_list (b_active st) @ b_retired st))"
    using borrow_facts(2, 3) [OF assms(1)] by (intro live_total)
  then have "borrows_of st g = 0" if "g \<in> set (b_retired st)" for g
    using that assms(2) borrow_facts(1) [OF assms(1), of g] by (auto simp: draining_def)
  then have "cleanable st \<noteq> None"
    using assms(2, 3) unfolding cleanable_def find_None_iff
    by (metis UnI2 draining_def hd_in_set set_append)
  with that show thesis by blast
qed

lemma drain_step:
  assumes "binding_inv opts st" and "draining st" and "coordinator_step opts st st'"
  shows "draining st' \<and> drain_bound st' < drain_bound st"
  using assms(3)
proof cases
  case (co_run env)
  have idle: "b_pending st = None"
    using binding_invD(3) [OF assms(1)] co_run(2) by (auto simp: inv_coordinator_def)
  show ?thesis
  proof (cases "b_retired st = []")
    case True
    then show ?thesis
      using assms(2) idle co_run
      by (auto simp: run_section_def draining_def drain_bound_def blocked_of_def)
  next
    case False
    then obtain g where "cleanable st = Some g" by (rule draining_cleanable [OF assms(1, 2)])
    then have "st' = (update_gen g (\<lambda>gen. gen\<lparr>gen_cleaning := True\<rparr>) st)\<lparr>b_coordinator := Cleaning g\<rparr>"
      using co_run False by (simp add: run_section_def)
    then show ?thesis
      using assms(2) co_run(2)
      by (auto simp: draining_def drain_bound_def blocked_of_def option.map_comp comp_def
          split: option.splits if_splits)
  qed
next
  case (co_construct g env later granted ctx stopped ctx' stopped' built)
  obtain inst err where "construct_attempt granted ctx stopped ctx' stopped' built = (inst, err)"
    by fastforce
  with co_construct have st': "st' = construct_finish env later opts g (inst, err) st" by simp
  obtain candidate where p: "b_pending st = Some g" and c: "b_gens st g = Some candidate"
    by (rule constructing_candidate [OF assms(1) co_construct(2)])
  have "\<not> adoptable env candidate inst err st" using assms(2) by (simp add: draining_def adoptable_def)
  then have "b_retired st' = b_retired st @ (if inst \<noteq> None then [g] else [])"
    using construct_owner(3) [OF c st'] by simp
  then show ?thesis
    using assms(2) p co_construct(2) construct_effect(1, 2, 12, 13) [OF c st']
      blocked_construct [of env later opts g "(inst, err)" st]
    unfolding st' [symmetric] by (auto simp: draining_def drain_bound_def)
next
  case (co_clean g reported env)
  have g: "g \<in> set (b_retired st)" and idle: "b_pending st = None"
    using binding_invD(3) [OF assms(1)] co_clean(2) by (auto simp: inv_coordinator_def)
  then obtain gen where "b_gens st g = Some gen"
    using binding_invD(1) [OF assms(1)] by (fastforce simp: inv_own_def owned_gens_def gsel_def)
  then have fields: "b_retired st' = remove1 g (b_retired st)" "b_coordinator st' = Looping"
    "b_stopping st' = b_stopping st" "b_pending st' = None" "b_leases st' = b_leases st"
    using co_clean idle by (simp_all add: clean_def Let_def)
  have "Suc (length (remove1 g (b_retired st))) = length (b_retired st)"
    using g length_pos_if_in_set [OF g] by (simp add: length_remove1)
  then show ?thesis
    using assms(2) co_clean fields blocked_clean [OF co_clean(3), of env opts g st]
    by (auto simp: draining_def drain_bound_def dest: notin_set_remove1)
next
  case co_awake
  then show ?thesis
    using assms(2) by (auto simp: awake_def draining_def drain_bound_def blocked_of_def)
qed

lemma drain_progress:
  assumes "binding_inv opts st" and "draining st" and "\<not> b_exited st"
  shows "\<exists>st'. coordinator_step opts st st'"
proof (cases "b_coordinator st")
  case Waiting
  note inv = binding_invD [OF assms(1)]
  have "b_pending st = None" using inv(3) Waiting by (auto simp: inv_coordinator_def)
  then have "enabled opts st"
    using assms(2) draining_cleanable [OF assms(1, 2)]
    by (cases "b_retired st = []") (auto simp: enabled_def draining_def)
  with Waiting show ?thesis using inv(6) by (auto simp: inv_wake_def intro: co_awake)
next
  case Exited
  then show ?thesis using assms(1, 3) by (auto simp: binding_inv_def inv_coordinator_def)
next
  case (Cleaning g)
  then show ?thesis
    using co_clean [of st g "\<lparr>rel_complete = True, rel_err = None\<rparr>"] by auto
qed (auto intro: coordinator_step.intros)

text \<open>C4: a stopped binding drains. Once a reachable binding is stopping, with no lease outstanding and
  no release held back, every run of its coordinator in which releases complete ends after a bounded
  number of steps, and it can only end by exiting: until then a next step exists. The bound is at most
  twice the generation bound plus four.\<close>

theorem stopped_binding_drains:
  assumes "reach (binding_initial opts) (binding_step opts) st" and "draining st"
    and "(coordinator_step opts ^^ n) st st'"
  shows "n \<le> drain_bound st \<and> (b_exited st' \<or> (\<exists>next. coordinator_step opts st' next)) \<and>
    int (drain_bound st) \<le> 2 * bopt_max_generations opts + 4"
proof -
  have inv: "binding_inv opts st" by (rule bindings.reach_inv [OF assms(1)])
  have "binding_inv opts st' \<and> draining st' \<and> n + drain_bound st' \<le> drain_bound st"
    using assms(3)
  proof (induction n arbitrary: st')
    case 0
    then show ?case using inv assms(2) by simp
  next
    case (Suc n)
    then obtain u where u: "(coordinator_step opts ^^ n) st u" "coordinator_step opts u st'" by auto
    then show ?case
      using Suc.IH [OF u(1)] drain_step [of opts u st']
        bindings.step_inv [OF _ coordinator_step_binding [OF u(2)]] by force
  qed
  moreover have "int (length (b_retired st)) \<le> bopt_max_generations opts"
    using binding_invD(1) [OF inv] by (simp add: inv_own_def owned_gens_def)
  ultimately show ?thesis
    using drain_progress by (auto simp: drain_bound_def split: coordinator.split)
qed

section \<open>Fixed bindings\<close>

text \<open>Under the fixed policy a plan installs a target only when there was none.\<close>

definition pinned_inv :: "'c binding_options \<Rightarrow> ('c, 't) binding \<Rightarrow> bool" where
  "pinned_inv opts st \<longleftrightarrow> binding_inv opts st \<and>
     (\<forall>previous active val equal. bopt_policy opts = Fixed \<longrightarrow>
        b_prepared st = Some (InstallTarget previous active val equal) \<longrightarrow> previous = None)"

text \<open>Only the holder of the admission gate changes what is desired or prepared.\<close>

lemma desired_run: "b_desired (run_section env opts st) = b_desired st"
    "b_prepared (run_section env opts st) = b_prepared st"
  by (simp_all add: run_section_def Let_def split: option.split)

lemma desired_construct: "b_desired (construct_finish env later opts g attempt st) = b_desired st"
    "b_prepared (construct_finish env later opts g attempt st) = b_prepared st"
  by (cases attempt; simp add: construct_finish_def Let_def split: option.split)+

lemma step_gate_cases:
  assumes "binding_step opts st st'"
  obtains (prepared) env view plan where "prepare env opts view st = Inr plan"
      "b_desired st' = b_desired st" "b_prepared st' = Some plan"
  | (abandoned) "b_desired st' = b_desired st" "b_prepared st' = None"
  | (committed) env plan where "b_prepared st = Some plan"
      "st' = (snd (commit env opts plan st))\<lparr>b_prepared := None\<rparr>"
  | (retried) env closing ctx sequence sequence' version where "b_prepared st = None"
      "retry_locked env opts closing ctx sequence st = Inr (sequence', version, st')"
  | (other) "b_desired st' = b_desired st" "b_prepared st' = b_prepared st"
  using assms
proof cases
  case step_prepare
  then show thesis using prepared by simp
next
  case step_abandon
  then show thesis using abandoned by simp
next
  case step_commit
  then show thesis using committed by blast
next
  case step_retry
  then show thesis using retried by blast
qed (rule other; simp add: stop_def retryCleanup_def acquire_def release_claim_def
    release_return_def awake_def clean_def desired_run desired_construct Let_def split: option.split)+

lemma retry_desired:
  assumes "retry_locked env opts closing ctx sequence st = Inr (sequence', version, st')"
  shows "b_prepared st' = b_prepared st \<and>
    (\<exists>d. b_desired st = Some d \<and> b_desired st' = Some (d\<lparr>sel_version := version\<rparr>))"
  using assms
  by (auto simp: retry_locked_def Let_def split: if_splits option.splits prod.splits)

interpretation pinned: transition_system "binding_initial opts" "binding_step opts" "pinned_inv opts"
  for opts :: "'c binding_options"
proof
  show "pinned_inv opts st" if "binding_initial opts st" for st
    using that bindings.initial_inv [OF that]
    by (auto simp: pinned_inv_def binding_initial_def new_binding_def)
  fix st st' :: "('c, 'd) binding"
  assume inv: "pinned_inv opts st" and step: "binding_step opts st st'"
  have "binding_inv opts st'" using inv bindings.step_inv [OF _ step] by (simp add: pinned_inv_def)
  moreover from step have "\<forall>previous active val equal. bopt_policy opts = Fixed \<longrightarrow>
      b_prepared st' = Some (InstallTarget previous active val equal) \<longrightarrow> previous = None"
  proof (cases rule: step_gate_cases)
    case (prepared env view plan)
    then show ?thesis by (auto simp: prepare_def Let_def split: if_splits sum.splits)
  next
    case retried
    then show ?thesis using retry_desired by fastforce
  qed (use inv in \<open>simp_all add: pinned_inv_def\<close>)
  ultimately show "pinned_inv opts st'" by (simp add: pinned_inv_def)
qed


section \<open>Leases\<close>

text \<open>C10: a lease is released exactly once. Releasing a held lease returns one borrow of its
  generation and succeeds; from then on reading its value and releasing it again both fail with
  \<^verbatim>\<open>ErrLease\<close> and change nothing.\<close>

theorem lease_released_once:
  assumes "l < length (b_leases st)" and "lease_stage (b_leases st ! l) = Held"
    and "lease_generation (b_leases st ! l) = g" and "b_gens st g \<noteq> None"
    and "Lease_Release l st = (err, st')"
  shows "err = None \<and> borrows_of st' g = borrows_of st g - 1 \<and>
    (\<forall>h. h \<noteq> g \<longrightarrow> borrows_of st' h = borrows_of st h) \<and>
    lease_Value l st' = Inl (resource_fail resource_ErrLease ''value'' [] no_details []) \<and>
    Lease_Release l st' =
      (Some (resource_fail resource_ErrLease ''release_lease'' [] no_details []), st')"
proof -
  have "err = None \<and> length (b_leases st') = length (b_leases st) \<and>
      lease_stage (b_leases st' ! l) = Returned \<and>
      borrows_of st' = (borrows_of st)(g := borrows_of st g - 1)"
    using assms
    by (auto simp: Lease_Release_def release_claim_def release_return_def Let_def borrows_of_def fun_eq_iff
        split: if_splits)
  then show ?thesis
    by (simp add: Lease_Release_def release_claim_def lease_Value_def)
qed

section \<open>An execution\<close>

text \<open>A fixed binding of one numeric selection that is applied, constructed, borrowed once, stopped,
  returned and drained. The properties are applied along it.\<close>

definition ex_opts :: "nat binding_options" where
  "ex_opts = \<lparr>bopt_name = ''db'', bopt_policy = Fixed, bopt_select = (\<lambda>_. Inr 7), bopt_clone = id,
     bopt_equal = Some (=), bopt_max_generations = 2, bopt_max_borrowers = 1\<rparr>"

definition ex_env :: scope_env where
  "ex_env = \<lparr>env_name = ''app'', env_stopped = False, env_base = live_ctx\<rparr>"

definition ex_plan :: "nat commit_plan" where
  "ex_plan = InstallTarget None None 7 False"

definition ex_wanted :: "(nat, nat) binding" where
  "ex_wanted = (snd (commit ex_env ex_opts ex_plan (new_binding\<lparr>b_prepared := Some ex_plan\<rparr>)))
     \<lparr>b_prepared := None\<rparr>"

definition ex_constructing :: "(nat, nat) binding" where
  "ex_constructing = run_section ex_env ex_opts ex_wanted"

definition ex_active :: "(nat, nat) binding" where
  "ex_active = construct_finish ex_env ex_env ex_opts 1
     (construct_attempt True live_ctx False live_ctx False
       (Some \<lparr>inst_value = 42, inst_release = True\<rparr>, None)) ex_constructing"

definition ex_waiting :: "(nat, nat) binding" where
  "ex_waiting = run_section ex_env ex_opts ex_active"

definition ex_borrowed :: "(nat, nat) binding" where
  "ex_borrowed = snd (acquire ex_env ex_opts (Some live_ctx) live_ctx ex_waiting)"

definition ex_stopped :: "(nat, nat) binding" where
  "ex_stopped = stop ex_env ex_opts None ex_borrowed"

definition ex_returned :: "(nat, nat) binding" where
  "ex_returned = snd (Lease_Release 0 ex_stopped)"

definition ex_cleaning :: "(nat, nat) binding" where
  "ex_cleaning = run_section ex_env ex_opts (awake ex_returned)"

text \<open>The states, evaluated.\<close>

definition ex_generation :: "int \<Rightarrow> bool \<Rightarrow> (nat, nat) generation" where
  "ex_generation borrows cleaning =
     \<lparr>gen_selection = \<lparr>sel_value = 7, sel_version = 1\<rparr>, gen_ctx = live_ctx, gen_value = Some 42,
      gen_release = True, gen_borrows = borrows, gen_cleaning = cleaning, gen_blocked = False\<rparr>"

definition ex_target :: "target" where
  "ex_target = \<lparr>tgt_settled = True, tgt_generation = 1, tgt_err = None\<rparr>"

lemma ex_wanted_eq: "ex_wanted = new_binding\<lparr>b_wake := True, b_notices := 1,
    b_desired := Some \<lparr>sel_value = 7, sel_version = 1\<rparr>, b_wanted := True, b_version := 1,
    b_targets := [1 \<mapsto> \<lparr>tgt_settled = False, tgt_generation = 0, tgt_err = None\<rparr>]\<rparr>"
  by (simp add: ex_wanted_def ex_plan_def new_binding_def newTarget_def signal_def inc64_def)

lemma ex_constructing_eq: "ex_constructing = ex_wanted\<lparr>b_notices := 2, b_coordinator := Constructing 1,
    b_wanted := False, b_generation := 1, b_pending := Some 1,
    b_gens := [1 \<mapsto> (ex_generation 0 False)\<lparr>gen_value := None, gen_release := False\<rparr>]\<rparr>"
  by (simp add: ex_constructing_def run_section_def ex_wanted_eq new_binding_def cleanable_def ex_opts_def
      owned_def signal_def inc64_def MaxUint64_def ex_generation_def)

lemma ex_active_eq: "ex_active = ex_constructing\<lparr>b_notices := 3, b_coordinator := Looping,
    b_pending := None, b_active := Some 1, b_applied := 1, b_gens := [1 \<mapsto> ex_generation 0 False],
    b_targets := [1 \<mapsto> ex_target]\<rparr>"
  by (simp add: ex_active_def construct_finish_def construct_attempt_def adoptable_def current_target_def
      ex_constructing_eq ex_wanted_eq new_binding_def ex_generation_def ex_target_def ex_env_def live_ctx_def
      settle_def signal_def update_gen_def)

lemma ex_waiting_eq: "ex_waiting = ex_active\<lparr>b_coordinator := Waiting\<rparr>"
  by (simp add: ex_waiting_def run_section_def ex_active_eq ex_constructing_eq ex_wanted_eq new_binding_def
      cleanable_def)

lemmas ex_states = ex_active_eq ex_constructing_eq ex_wanted_eq new_binding_def

lemma ex_borrowed_eq: "ex_borrowed = ex_active\<lparr>b_coordinator := Waiting, b_gens := [1 \<mapsto> ex_generation 1 False],
    b_leases := [\<lparr>lease_generation = 1, lease_value = Some 42, lease_stage = Held\<rparr>]\<rparr>"
  by (simp add: ex_borrowed_def acquire_def ex_waiting_eq ex_states live_ctx_def ex_env_def ex_opts_def
      borrows_of_def ex_generation_def update_gen_def)

lemma ex_stopped_eq: "ex_stopped = ex_borrowed\<lparr>b_stopping := True, b_notices := 4, b_active := None,
    b_retired := [1]\<rparr>"
  by (simp add: ex_stopped_def stop_def ex_borrowed_eq ex_states settle_def ex_target_def signal_def)

lemma ex_returned_eq: "ex_returned = ex_stopped\<lparr>b_notices := 5, b_gens := [1 \<mapsto> ex_generation 0 False],
    b_leases := [\<lparr>lease_generation = 1, lease_value = None, lease_stage = Returned\<rparr>]\<rparr>"
  by (simp add: ex_returned_def Lease_Release_def release_claim_def release_return_def ex_stopped_eq
      ex_borrowed_eq ex_states update_gen_def borrows_of_def signal_def ex_generation_def)

lemma ex_cleaning_eq: "ex_cleaning = ex_returned\<lparr>b_wake := False, b_coordinator := Cleaning 1,
    b_gens := [1 \<mapsto> ex_generation 0 True]\<rparr>"
  by (simp add: ex_cleaning_def awake_def run_section_def ex_returned_eq ex_stopped_eq ex_borrowed_eq ex_states
      cleanable_def borrows_of_def blocked_of_def update_gen_def ex_generation_def)

lemmas ex_eqs = ex_cleaning_eq ex_returned_eq ex_stopped_eq ex_borrowed_eq ex_waiting_eq ex_states

abbreviation ex_reach :: "(nat, nat) binding \<Rightarrow> bool" where
  "ex_reach \<equiv> reach (binding_initial ex_opts) (binding_step ex_opts)"

lemma ex_steps:
  "binding_step ex_opts new_binding (new_binding\<lparr>b_prepared := Some ex_plan\<rparr>)"
  "binding_step ex_opts (new_binding\<lparr>b_prepared := Some ex_plan\<rparr>) ex_wanted"
  "binding_step ex_opts ex_wanted ex_constructing"
  "binding_step ex_opts ex_constructing ex_active"
  "binding_step ex_opts ex_active ex_waiting"
  "binding_step ex_opts ex_waiting ex_borrowed"
  "binding_step ex_opts ex_borrowed ex_stopped"
  "binding_step ex_opts (snd (release_claim 0 ex_stopped)) ex_returned"
  "binding_step ex_opts (awake ex_returned) ex_cleaning"
proof -
  have "prepare ex_env ex_opts None new_binding = Inr ex_plan"
    by (simp add: prepare_def ex_opts_def ex_plan_def new_binding_def equal_to_def MaxUint64_def)
  then show "binding_step ex_opts new_binding (new_binding\<lparr>b_prepared := Some ex_plan\<rparr>)"
    by (intro step_prepare) (simp_all add: new_binding_def)
  show "binding_step ex_opts (new_binding\<lparr>b_prepared := Some ex_plan\<rparr>) ex_wanted"
    unfolding ex_wanted_def by (rule step_commit) (simp_all add: new_binding_def)
  show "binding_step ex_opts ex_wanted ex_constructing"
    unfolding ex_constructing_def by (rule step_run) (simp add: ex_eqs)
  show "binding_step ex_opts ex_constructing ex_active"
    unfolding ex_active_def by (rule step_construct) (simp add: ex_eqs)
  show "binding_step ex_opts ex_active ex_waiting"
    unfolding ex_waiting_def by (rule step_run) (simp add: ex_eqs)
  show "binding_step ex_opts ex_waiting ex_borrowed"
    unfolding ex_borrowed_def by (rule step_acquire)
  show "binding_step ex_opts ex_borrowed ex_stopped"
    unfolding ex_stopped_def by (rule step_stop)
  have "ex_returned = release_return 0 (snd (release_claim 0 ex_stopped))"
    by (simp add: ex_returned_def Lease_Release_def release_claim_def ex_eqs)
  moreover have "binding_step ex_opts (snd (release_claim 0 ex_stopped))
      (release_return 0 (snd (release_claim 0 ex_stopped)))"
    by (rule step_return) (simp_all add: release_claim_def ex_eqs)
  ultimately show "binding_step ex_opts (snd (release_claim 0 ex_stopped)) ex_returned" by simp
  show "binding_step ex_opts (awake ex_returned) ex_cleaning"
    unfolding ex_cleaning_def by (rule step_run) (simp add: awake_def)
qed

lemma ex_reached:
  "ex_reach ex_constructing" "ex_reach ex_active" "ex_reach ex_borrowed" "ex_reach ex_stopped"
  "ex_reach ex_returned" "ex_reach ex_cleaning"
proof -
  have "ex_reach new_binding"
    by (rule reach_initial) (simp add: binding_initial_def admitted_def ex_opts_def)
  note first = this [THEN reach_step, OF ex_steps(1), THEN reach_step, OF ex_steps(2),
      THEN reach_step, OF ex_steps(3)]
  then show "ex_reach ex_constructing" .
  note second = this [THEN reach_step, OF ex_steps(4)]
  then show "ex_reach ex_active" .
  note third = this [THEN reach_step, OF ex_steps(5), THEN reach_step, OF ex_steps(6)]
  then show "ex_reach ex_borrowed" .
  note fourth = this [THEN reach_step, OF ex_steps(7)]
  then show "ex_reach ex_stopped" .
  note fifth = this [THEN reach_step, OF step_claim [of _ _ 0], THEN reach_step, OF ex_steps(8)]
  then show "ex_reach ex_returned" .
  have "binding_step ex_opts ex_returned (awake ex_returned)"
    by (rule step_awake) (simp_all add: ex_eqs)
  from fifth [THEN reach_step, OF this, THEN reach_step, OF ex_steps(9)] show "ex_reach ex_cleaning" .
qed

theorem generations_and_borrows_bounded_witness:
  "borrows_of ex_borrowed 1 = int (live (b_leases ex_borrowed) 1) \<and> live (b_leases ex_borrowed) 1 = 1"
  using generations_and_borrows_bounded [OF ex_reached(3)]
  by (simp add: ex_eqs opt_list_def live_def)

theorem never_released_while_borrowed_witness:
  "b_coordinator ex_cleaning = Cleaning 1 \<and> live (b_leases ex_cleaning) 1 = 0"
  using never_released_while_borrowed [OF ex_reached(6)] by (simp add: ex_eqs)

theorem targets_not_forgotten_witness:
  "\<not> settled_in (b_targets ex_constructing) 1 \<and>
   (\<exists>g. b_pending ex_constructing = Some g \<and> gsel (b_gens ex_constructing) g = Some 1)"
  using targets_not_forgotten [OF ex_reached(1), of 1]
  by (simp add: ex_eqs settled_in_def)

theorem outcome_is_final_witness:
  "b_targets ex_active 1 = Some ex_target \<and> b_targets ex_waiting 1 = Some ex_target"
  using outcome_is_final [OF ex_reached(2) r_into_rtranclp [of "binding_step ex_opts", OF ex_steps(5)], of 1 ex_target]
  by (simp add: ex_eqs ex_target_def)

theorem adopts_only_current_witness:
  "b_active ex_active = Some 1 \<and> b_coordinator ex_constructing = Constructing 1 \<and>
   b_applied ex_active = b_version ex_constructing"
  using adopts_only_current [OF ex_reached(1) ex_steps(4), of 1] by (simp add: ex_eqs)

theorem no_lost_wakeup_witness:
  "b_coordinator ex_returned = Waiting \<and> binding_step ex_opts ex_returned (awake ex_returned)"
  using no_lost_wakeup [OF ex_reached(5)]
  by (simp add: ex_eqs enabled_def cleanable_def borrows_of_def blocked_of_def ex_generation_def)

theorem stopped_binding_drains_witness:
  "draining ex_cleaning \<and> drain_bound ex_cleaning = 2 \<and>
   (\<exists>next. coordinator_step ex_opts ex_cleaning next)"
  using stopped_binding_drains [OF ex_reached(6), of 0 ex_cleaning]
  by (simp add: ex_eqs draining_def drain_bound_def live_all_def opt_list_def blocked_of_def
      ex_generation_def)


theorem lease_released_once_witness:
  "fst (Lease_Release 0 ex_stopped) = None \<and> borrows_of ex_returned 1 = 0 \<and>
   fst (Lease_Release 0 ex_returned) \<noteq> None"
  using lease_released_once [of 0 ex_stopped 1 "fst (Lease_Release 0 ex_stopped)" ex_returned]
  by (simp add: ex_returned_def) (simp add: ex_eqs borrows_of_def ex_generation_def)

end
