(* ===== verification/Resource_Watch.thy ===== *)
theory Resource_Watch
  imports Resource_Behaviour
begin

text \<open>
  \<^verbatim>\<open>resource/v1/update.go\<close> and \<^verbatim>\<open>watch.go\<close>: the receipt of an accepted input, waiting for
  its targets, and the bounded latest-report channel between a settings receiver and its readers. A
  target of a receipt is named by its binding and version; what waiting observes of each target is an
  argument, \<open>None\<close> when the waiting context ended before the target settled.
\<close>

section \<open>Receipts\<close>

record Update =
  up_sequence :: nat
  up_scope :: string
  up_targets :: "(string \<times> nat) list"

definition Update_Sequence :: "Update option \<Rightarrow> nat" where
  "Update_Sequence update = (case update of None \<Rightarrow> 0 | Some u \<Rightarrow> up_sequence u)"

fun wait_targets ::
  "string \<Rightarrow> go_ctx \<Rightarrow> ((string \<times> nat) \<times> gerr option option) list \<Rightarrow> gerr option list \<Rightarrow>
     gerr + gerr option list" where
  "wait_targets scope ctx [] causes = Inr causes"
| "wait_targets scope ctx (((name, version), outcome) # rest) causes =
     (case outcome of
        None \<Rightarrow> Inl (resource_fail resource_ErrWait ''wait'' name
          \<lparr>resource_scope = scope, resource_target = version, resource_generation = 0,
           resource_pending = True\<rparr>
          [errors_join causes, ctx_err ctx, ctx_cause ctx])
      | Some err \<Rightarrow>
          wait_targets scope ctx rest (if err \<noteq> None then causes @ [err] else causes))"

definition Update_Wait ::
  "Update option \<Rightarrow> go_ctx option \<Rightarrow> gerr option option list \<Rightarrow> gerr option" where
  "Update_Wait update ctx outcomes =
     (case update of
        None \<Rightarrow> Some (resource_fail resource_ErrScope ''wait'' [] no_details [])
      | Some u \<Rightarrow>
          if up_sequence u = 0
          then Some (resource_fail resource_ErrScope ''wait'' [] no_details [])
          else
            (let here = no_details\<lparr>resource_scope := up_scope u\<rparr> in
             case ctx of
               None \<Rightarrow> Some (resource_fail resource_ErrOptions ''wait'' [] here [])
             | Some c \<Rightarrow>
                 (case wait_targets (up_scope u) c (zip (up_targets u) outcomes) [] of
                    Inl err \<Rightarrow> Some err
                  | Inr causes \<Rightarrow>
                      if length causes = 1 then hd causes
                      else if causes \<noteq> []
                      then Some (resource_fail resource_ErrBuild ''wait'' [] here [errors_join causes])
                      else None)))"

lemma wait_targets_settled:
  assumes "None \<notin> snd ` set targets"
  shows "wait_targets scope ctx targets causes =
    Inr (causes @ filter (\<lambda>e. e \<noteq> None) (map (the \<circ> snd) targets))"
  using assms
  by (induction scope ctx targets causes rule: wait_targets.induct) (auto split: option.splits)

lemma wait_targets_interrupted:
  assumes "None \<in> snd ` set targets"
  shows "\<exists>name version settled. ((name, version), None) \<in> set targets \<and>
    wait_targets scope ctx targets causes =
      Inl (resource_fail resource_ErrWait ''wait'' name
        \<lparr>resource_scope = scope, resource_target = version, resource_generation = 0,
         resource_pending = True\<rparr> [errors_join (causes @ settled), ctx_err ctx, ctx_cause ctx])"
  using assms
proof (induction scope ctx targets causes rule: wait_targets.induct)
  case (2 scope ctx name version outcome rest causes)
  show ?case
  proof (cases outcome)
    case None
    then show ?thesis
      by (intro exI [of _ name], intro exI [of _ version], intro exI [of _ "[]"]) simp
  next
    case (Some err)
    then obtain n v settled where "((n, v), None) \<in> set rest"
      "wait_targets scope ctx rest (if err \<noteq> None then causes @ [err] else causes) =
        Inl (resource_fail resource_ErrWait ''wait'' n
          \<lparr>resource_scope = scope, resource_target = v, resource_generation = 0, resource_pending = True\<rparr>
          [errors_join ((if err \<noteq> None then causes @ [err] else causes) @ settled),
           ctx_err ctx, ctx_cause ctx])"
      using 2 by auto
    with Some show ?thesis
      by (intro exI [of _ n], intro exI [of _ v],
          intro exI [of _ "(if err \<noteq> None then [err] else []) @ settled"]) simp
  qed
qed simp

text \<open>The two ways an accepted receipt's wait ends.\<close>

lemma Update_Wait_interrupted:
  assumes "up_sequence u \<noteq> 0" and "length outcomes = length (up_targets u)" and "None \<in> set outcomes"
  obtains name version causes where "((name, version), None) \<in> set (zip (up_targets u) outcomes)"
    and "Update_Wait (Some u) (Some ctx) outcomes =
      Some (resource_fail resource_ErrWait ''wait'' name
        \<lparr>resource_scope = up_scope u, resource_target = version, resource_generation = 0,
         resource_pending = True\<rparr> (causes @ [ctx_err ctx, ctx_cause ctx]))"
proof -
  let ?ts = "zip (up_targets u) outcomes"
  have "map snd ?ts = outcomes" using assms(2) by simp
  then have "None \<in> snd ` set ?ts" using assms(3) by (metis set_map)
  from wait_targets_interrupted [OF this, of "up_scope u" ctx "[]"]
  obtain name version settled where at: "((name, version), None) \<in> set ?ts"
    "wait_targets (up_scope u) ctx ?ts [] = Inl (resource_fail resource_ErrWait ''wait'' name
      \<lparr>resource_scope = up_scope u, resource_target = version, resource_generation = 0,
       resource_pending = True\<rparr> ([errors_join settled] @ [ctx_err ctx, ctx_cause ctx]))"
    by auto
  show thesis
    by (rule that [OF at(1), of "[errors_join settled]"]) (use at(2) assms(1) in \<open>simp add: Update_Wait_def\<close>)
qed

lemma Update_Wait_settled:
  assumes "up_sequence u \<noteq> 0" and "length outcomes = length (up_targets u)" and "None \<notin> set outcomes"
    and "failures = map the (filter (\<lambda>o'. o' \<noteq> Some None) outcomes)"
  shows "Update_Wait (Some u) (Some ctx) outcomes =
    (if length failures = 1 then hd failures else if failures \<noteq> [] then
       Some (resource_fail resource_ErrBuild ''wait'' [] (no_details\<lparr>resource_scope := up_scope u\<rparr>)
         [errors_join failures]) else None)"
proof -
  let ?ts = "zip (up_targets u) outcomes"
  have outcomes: "map snd ?ts = outcomes" using assms(2) by simp
  have "filter (\<lambda>e. e \<noteq> None) (map (the \<circ> snd) ?ts) = filter (\<lambda>e. e \<noteq> None) (map the outcomes)"
    using outcomes by (metis map_map)
  also have "\<dots> = failures"
    using assms(3) unfolding assms(4) filter_map comp_def
    by (intro arg_cong [of _ _ "map the"] filter_cong refl) (metis option.collapse option.inject)
  finally have "wait_targets (up_scope u) ctx ?ts [] = Inr failures"
    using wait_targets_settled [of ?ts] assms(3) outcomes by (metis append_Nil set_map)
  then show ?thesis using assms(1) by (simp add: Update_Wait_def)
qed

text \<open>C15: waiting for a receipt reports exactly the outcome of its targets. With one observation per
  target, an accepted receipt waits successfully if and only if every target settled without error; a
  single failed target is reported as its own error, and a target that is still pending when the
  waiting context ends is reported as pending under its own name and version.\<close>

theorem Update_Wait_reports:
  assumes "up_sequence u \<noteq> 0" and "length outcomes = length (up_targets u)"
  shows "(Update_Wait (Some u) (Some ctx) outcomes = None \<longleftrightarrow> set outcomes \<subseteq> {Some None}) \<and>
    (\<forall>e. filter (\<lambda>o'. o' \<noteq> Some None) outcomes = [Some (Some e)] \<longrightarrow>
       Update_Wait (Some u) (Some ctx) outcomes = Some e) \<and>
    (None \<in> set outcomes \<longrightarrow>
       (\<exists>name version causes. ((name, version), None) \<in> set (zip (up_targets u) outcomes) \<and>
          Update_Wait (Some u) (Some ctx) outcomes =
            Some (resource_fail resource_ErrWait ''wait'' name
              \<lparr>resource_scope = up_scope u, resource_target = version, resource_generation = 0,
               resource_pending = True\<rparr> (causes @ [ctx_err ctx, ctx_cause ctx]))))"
proof (cases "None \<in> set outcomes")
  case True
  obtain name version causes where at: "((name, version), None) \<in> set (zip (up_targets u) outcomes)"
    "Update_Wait (Some u) (Some ctx) outcomes = Some (resource_fail resource_ErrWait ''wait'' name
      \<lparr>resource_scope = up_scope u, resource_target = version, resource_generation = 0,
       resource_pending = True\<rparr> (causes @ [ctx_err ctx, ctx_cause ctx]))"
    by (rule Update_Wait_interrupted [OF assms True])
  moreover from at(2) have "Update_Wait (Some u) (Some ctx) outcomes \<noteq> None" by simp
  moreover have "\<not> set outcomes \<subseteq> {Some None}" using True by auto
  moreover have "filter (\<lambda>o'. o' \<noteq> Some None) outcomes \<noteq> [Some (Some e)]" for e
    using True by (metis (mono_tags, lifting) filter_eq_ConsD in_set_conv_decomp mem_Collect_eq
        option.distinct(1) set_ConsD set_filter empty_iff list.set(1))
  ultimately show ?thesis by blast
next
  case False
  define failures where "failures = map the (filter (\<lambda>o'. o' \<noteq> Some None) outcomes)"
  note wait = Update_Wait_settled [OF assms False failures_def, of ctx]
  have "hd failures \<noteq> None" if "failures \<noteq> []"
    using hd_in_set [OF that] False unfolding failures_def by (auto simp: image_iff) (metis option.collapse)
  then have "Update_Wait (Some u) (Some ctx) outcomes = None \<longleftrightarrow> failures = []" unfolding wait by auto
  also have "\<dots> \<longleftrightarrow> set outcomes \<subseteq> {Some None}"
    unfolding failures_def by (auto simp: filter_empty_conv)
  finally show ?thesis using False wait failures_def by simp
qed

theorem Update_Wait_reports_witness:
  "let u = \<lparr>up_sequence = 1, up_scope = [], up_targets = [(''db'', 1), (''mq'', 3)]\<rparr>
   in Update_Wait (Some u) (Some live_ctx) [Some None, Some None] = None \<and>
      Update_Wait (Some u) (Some live_ctx) [Some (Some Canceled), Some None] = Some Canceled"
proof -
  let ?u = "\<lparr>up_sequence = 1, up_scope = [], up_targets = [(''db'', 1), (''mq'', 3)]\<rparr>"
  show ?thesis
    using Update_Wait_reports [of ?u "[Some None, Some None]" live_ctx]
      Update_Wait_reports [of ?u "[Some (Some Canceled), Some None]" live_ctx]
    by (simp add: Let_def)
qed

section \<open>Observations\<close>

record Observation =
  obs_sequence :: nat
  obs_skipped :: nat
  obs_update :: "Update option"
  obs_err :: "gerr option"

text \<open>The receiver's goroutine: waiting for input, applying a view, terminal error recorded, or
  gone.\<close>

datatype receiver = Receiving | Applying | Ended | Gone

record watch =
  w_ctx :: go_ctx
  w_receiver :: receiver
  w_sequence :: nat
  w_pending :: "Observation option"
  w_terminal :: "gerr option"

definition new_watch :: "go_ctx \<Rightarrow> watch" where
  "new_watch ctx = \<lparr>w_ctx = ctx, w_receiver = Receiving, w_sequence = 0, w_pending = None,
     w_terminal = None\<rparr>"

definition w_done :: "watch \<Rightarrow> bool" where
  "w_done w \<longleftrightarrow> w_receiver w = Gone"

text \<open>What the receiver's \<^verbatim>\<open>select\<close> finds: its context done, the input closed or a view.\<close>

datatype received = WorkDone go_ctx | InputClosed | InputView "data option"

text \<open>One pass of the receiver's loop up to calling \<^verbatim>\<open>Apply\<close> or recording a terminal error.\<close>

definition watch_terminate :: "gerr \<Rightarrow> watch \<Rightarrow> watch" where
  "watch_terminate err w = w\<lparr>w_terminal := Some err, w_receiver := Ended\<rparr>"

definition watch_receive :: "string \<Rightarrow> received \<Rightarrow> watch \<Rightarrow> watch" where
  "watch_receive scope input w =
     (let closed = (\<lambda>causes. resource_fail resource_ErrClosed ''watch'' []
            (no_details\<lparr>resource_scope := scope\<rparr>) causes)
      in if ctx_err (w_ctx w) \<noteq> None
         then watch_terminate (closed [ctx_err (w_ctx w), ctx_cause (w_ctx w)]) w
         else
           (case input of
              WorkDone ctx \<Rightarrow> watch_terminate (closed [ctx_err ctx, ctx_cause ctx]) w
            | InputClosed \<Rightarrow> watch_terminate (closed [Some io_EOF]) w
            | InputView view \<Rightarrow>
                if w_sequence w = MaxUint64
                then watch_terminate (resource_fail resource_ErrLimit ''watch'' []
                  (no_details\<lparr>resource_scope := scope\<rparr>) []) w
                else w\<lparr>w_sequence := inc64 (w_sequence w), w_receiver := Applying\<rparr>))"

definition publish :: "Observation \<Rightarrow> watch \<Rightarrow> watch" where
  "publish value w =
     w\<lparr>w_pending := Some (case w_pending w of
         None \<Rightarrow> value
       | Some old \<Rightarrow> value\<lparr>obs_skipped := sat_inc64 (obs_skipped old)\<rparr>)\<rparr>"

text \<open>The rest of the pass, once \<^verbatim>\<open>Apply\<close> has returned \<open>result\<close>.\<close>

definition watch_applied :: "gerr + Update \<Rightarrow> watch \<Rightarrow> watch" where
  "watch_applied result w =
     (let value = \<lparr>obs_sequence = w_sequence w, obs_skipped = 0,
            obs_update = (case result of Inl _ \<Rightarrow> None | Inr update \<Rightarrow> Some update),
            obs_err = (case result of Inl err \<Rightarrow> Some err | Inr _ \<Rightarrow> None)\<rparr>
      in (if ctx_err (w_ctx w) = None then publish value w else w)\<lparr>w_receiver := Receiving\<rparr>)"

text \<open>The deferred calls when the goroutine returns.\<close>

definition watch_exit :: "watch \<Rightarrow> watch" where
  "watch_exit w = w\<lparr>w_ctx := cancel_ctx None (w_ctx w), w_receiver := Gone\<rparr>"

text \<open>One pass of \<^verbatim>\<open>Next\<close>: \<open>None\<close> when it has to wait for a change.\<close>

definition Watch_Next ::
  "watch option \<Rightarrow> go_ctx option \<Rightarrow> (gerr + Observation) option \<times> watch option" where
  "Watch_Next handle ctx =
     (case handle of
        None \<Rightarrow> (Some (Inl (resource_fail resource_ErrScope ''next'' [] no_details [])), None)
      | Some w \<Rightarrow>
          (case ctx of
             None \<Rightarrow> (Some (Inl (resource_fail resource_ErrOptions ''next'' [] no_details [])), Some w)
           | Some c \<Rightarrow>
               if ctx_err c \<noteq> None
               then (Some (Inl (resource_fail resource_ErrWait ''next'' [] no_details
                 [ctx_err c, ctx_cause c])), Some w)
               else
                 (case w_pending w of
                    Some value \<Rightarrow> (Some (Inr value), Some (w\<lparr>w_pending := None\<rparr>))
                  | None \<Rightarrow>
                      (case w_terminal w of
                         Some err \<Rightarrow> (Some (Inl err), Some w)
                       | None \<Rightarrow> (None, Some w)))))"

text \<open>\<^verbatim>\<open>Close\<close> cancels the receiver and reports whether it is gone; \<open>ended\<close> is the waiting
  context when it ends first.\<close>

definition watch_cancel :: "gerr option \<Rightarrow> watch \<Rightarrow> watch" where
  "watch_cancel cause w = w\<lparr>w_ctx := cancel_ctx cause (w_ctx w)\<rparr>"

definition Watch_Close ::
  "watch option \<Rightarrow> go_ctx option \<Rightarrow> gerr option option \<times> watch option" where
  "Watch_Close handle ctx =
     (case handle of
        None \<Rightarrow> (Some (Some (resource_fail resource_ErrScope ''close_watch'' [] no_details [])), None)
      | Some w \<Rightarrow>
          (case ctx of
             None \<Rightarrow> (Some (Some (resource_fail resource_ErrOptions ''close_watch'' [] no_details [])), Some w)
           | Some c \<Rightarrow>
               (let cancelled = watch_cancel (Some (CodeError resource_ErrClosed)) w in
                if w_done cancelled then (Some None, Some cancelled)
                else if ctx_err c \<noteq> None
                then (Some (Some (resource_fail resource_ErrWait ''close_watch'' []
                  (no_details\<lparr>resource_pending := True\<rparr>) [ctx_err c, ctx_cause c])), Some cancelled)
                else (None, Some cancelled))))"

section \<open>Reports are accounted for\<close>

text \<open>The receiver and its readers, with the reports delivered so far, oldest first.\<close>

inductive watch_step ::
  "string \<Rightarrow> watch \<times> Observation list \<Rightarrow> watch \<times> Observation list \<Rightarrow> bool" for scope where
  watch_received: "w_receiver w = Receiving \<Longrightarrow>
    watch_step scope (w, got) (watch_receive scope input w, got)"
| watch_apply_returned: "w_receiver w = Applying \<Longrightarrow>
    watch_step scope (w, got) (watch_applied result w, got)"
| watch_exited: "w_receiver w = Ended \<Longrightarrow> watch_step scope (w, got) (watch_exit w, got)"
| watch_cancelled: "watch_step scope (w, got) (watch_cancel cause w, got)"
| watch_parent_ended: "ctx_err (w_ctx w) = None \<Longrightarrow> ctx_err ctx \<noteq> None \<Longrightarrow>
    watch_step scope (w, got) (w\<lparr>w_ctx := ctx\<rparr>, got)"
| watch_read: "Watch_Next (Some w) (Some c) = (Some (Inr value), Some w') \<Longrightarrow>
    watch_step scope (w, got) (w', got @ [value])"

fun accounted :: "nat \<Rightarrow> Observation list \<Rightarrow> bool" where
  "accounted seen [] = True"
| "accounted seen (value # rest) =
     (obs_sequence value = seen + obs_skipped value + 1 \<and> accounted (obs_sequence value) rest)"

definition last_read :: "Observation list \<Rightarrow> nat" where
  "last_read got = (if got = [] then 0 else obs_sequence (last got))"

text \<open>Every input before the pending report is either delivered or counted as skipped; only a receiver
  whose context ended may have numbered an input it never reported.\<close>

definition watch_inv :: "watch \<times> Observation list \<Rightarrow> bool" where
  "watch_inv s \<longleftrightarrow> (case s of (w, got) \<Rightarrow>
     accounted 0 got \<and> w_sequence w \<le> MaxUint64 \<and>
     (w_terminal w \<noteq> None \<longleftrightarrow> w_receiver w \<in> {Ended, Gone}) \<and>
     (let published = (case w_pending w of None \<Rightarrow> last_read got | Some value \<Rightarrow> obs_sequence value) in
      published \<le> w_sequence w \<and>
      (ctx_err (w_ctx w) = None \<longrightarrow>
         w_sequence w = (if w_receiver w = Applying then Suc published else published))) \<and>
     (\<forall>value. w_pending w = Some value \<longrightarrow> accounted (last_read got) [value]))"

lemma accounted_append:
  "accounted n (got @ [value]) \<longleftrightarrow> accounted n got \<and>
     obs_sequence value = (if got = [] then n else obs_sequence (last got)) + obs_skipped value + 1"
  by (induction n got rule: accounted.induct) auto

lemma cancel_ctx_err [simp]: "ctx_err (cancel_ctx cause ctx) \<noteq> None"
  by (simp add: cancel_ctx_def)

lemma watch_receive_inv:
  assumes "watch_inv (w, got)" and "w_receiver w = Receiving"
  shows "watch_inv (watch_receive scope input w, got)"
  using assms
  by (auto simp: watch_inv_def watch_receive_def watch_terminate_def Let_def split: received.splits option.splits)

lemma watch_applied_inv:
  assumes "watch_inv (w, got)" and "w_receiver w = Applying"
  shows "watch_inv (watch_applied result w, got)"
  using assms
  by (auto simp: watch_inv_def watch_applied_def publish_def Let_def sat_inc64_def split: option.splits)

lemma watch_ctx_inv:
  assumes "watch_inv (w, got)" and "ctx_err ctx \<noteq> None"
  shows "watch_inv (w\<lparr>w_ctx := ctx\<rparr>, got)"
  using assms by (auto simp: watch_inv_def Let_def)

lemma watch_read_inv:
  assumes "watch_inv (w, got)" and "Watch_Next (Some w) (Some c) = (Some (Inr value), Some w')"
  shows "watch_inv (w', got @ [value])"
proof -
  have "w_pending w = Some value" "w' = w\<lparr>w_pending := None\<rparr>"
    using assms(2) by (simp_all add: Watch_Next_def split: if_splits option.splits)
  then show ?thesis using assms(1) by (simp add: watch_inv_def accounted_append last_read_def Let_def)
qed

interpretation watches: transition_system "\<lambda>s. \<exists>ctx. s = (new_watch ctx, [])" "watch_step scope" watch_inv
  for scope
proof
  show "watch_inv s" if "\<exists>ctx. s = (new_watch ctx, [])" for s
    using that by (auto simp: watch_inv_def new_watch_def last_read_def)
  show "watch_inv t" if "watch_inv s" "watch_step scope s t" for s t
    using that(2, 1)
  proof cases
    case (watch_exited w got)
    then show ?thesis using that(1) by (simp add: watch_inv_def watch_exit_def Let_def)
  next
    case (watch_cancelled w got cause)
    then show ?thesis using that(1) by (simp add: watch_cancel_def watch_ctx_inv)
  qed (use that(1) in \<open>simp_all add: watch_receive_inv watch_applied_inv watch_ctx_inv watch_read_inv\<close>)
qed

lemma accounted_total:
  "accounted n got \<Longrightarrow> n + sum_list (map (\<lambda>value. Suc (obs_skipped value)) got) =
     (if got = [] then n else obs_sequence (last got)) \<and>
   sorted_wrt (<) (map obs_sequence got) \<and> (\<forall>value\<in>set got. n < obs_sequence value)"
proof (induction n got rule: accounted.induct)
  case (2 n first rest)
  then show ?case by (fastforce simp: sorted_wrt_map)
qed simp

text \<open>C13: no input of a watch is dropped silently. In every state a receiver and its readers can reach,
  the delivered reports have strictly increasing sequence numbers, the reports counted as skipped
  together with the delivered ones are exactly the inputs up to the last delivered one, and when the
  receiver is idle with a live context and nothing is pending, that is every input it received. The live
  context matters: an input that is being applied when the watch is cancelled has its number and is not
  reported.\<close>

theorem watch_reports_accounted:
  assumes "reach (\<lambda>s. \<exists>ctx. s = (new_watch ctx, [])) (watch_step scope) (w, got)"
  shows "sorted_wrt (<) (map obs_sequence got) \<and>
    sum_list (map (\<lambda>value. Suc (obs_skipped value)) got) = last_read got \<and>
    last_read got \<le> w_sequence w \<and>
    (ctx_err (w_ctx w) = None \<and> w_receiver w = Receiving \<and> w_pending w = None \<longrightarrow>
       last_read got = w_sequence w)"
proof -
  have inv: "watch_inv (w, got)" by (rule watches.reach_inv [OF assms])
  then have "accounted 0 got" by (simp add: watch_inv_def)
  from accounted_total [OF this]
  have "sorted_wrt (<) (map obs_sequence got)"
    "sum_list (map (\<lambda>value. Suc (obs_skipped value)) got) = last_read got"
    by (simp_all add: last_read_def)
  moreover have "last_read got \<le> w_sequence w"
    using inv by (cases "w_pending w") (auto simp: watch_inv_def Let_def)
  moreover have "last_read got = w_sequence w"
    if "ctx_err (w_ctx w) = None" "w_receiver w = Receiving" "w_pending w = None"
    using inv that by (simp add: watch_inv_def Let_def)
  ultimately show ?thesis by blast
qed

theorem watch_reports_accounted_witness:
  "let view = InputView None; applied = watch_applied (Inl Canceled);
       w0 = new_watch live_ctx;
       w1 = applied (watch_receive [] view w0);
       w2 = applied (watch_receive [] view w1)
   in \<exists>value. fst (Watch_Next (Some w2) (Some live_ctx)) = Some (Inr value) \<and>
        Suc (obs_skipped value) = 2 \<and> obs_sequence value = 2"
proof -
  let ?view = "InputView None" and ?applied = "watch_applied (Inl Canceled)"
  let ?w0 = "new_watch live_ctx" and ?step = "watch_step []"
  let ?a1 = "watch_receive [] ?view ?w0"
  let ?w1 = "?applied ?a1"
  let ?a2 = "watch_receive [] ?view ?w1"
  let ?w2 = "?applied ?a2"
  let ?report = "\<lparr>obs_sequence = 2, obs_skipped = 1, obs_update = None, obs_err = Some Canceled\<rparr>"
  note run = watch_receive_def watch_applied_def publish_def new_watch_def live_ctx_def Let_def
    MaxUint64_def inc64_def sat_inc64_def
  have "reach (\<lambda>s. \<exists>ctx. s = (new_watch ctx, [])) ?step (?w0, [])" by (rule reach_initial) blast
  then have "reach (\<lambda>s. \<exists>ctx. s = (new_watch ctx, [])) ?step (?a1, [])"
    by (rule reach_step, intro watch_received) (simp add: new_watch_def)
  then have "reach (\<lambda>s. \<exists>ctx. s = (new_watch ctx, [])) ?step (?w1, [])"
    by (rule reach_step, intro watch_apply_returned) (simp add: run)
  then have "reach (\<lambda>s. \<exists>ctx. s = (new_watch ctx, [])) ?step (?a2, [])"
    by (rule reach_step, intro watch_received) (simp add: run)
  then have w2: "reach (\<lambda>s. \<exists>ctx. s = (new_watch ctx, [])) ?step (?w2, [])"
    by (rule reach_step, intro watch_apply_returned) (simp add: run)
  have got: "Watch_Next (Some ?w2) (Some live_ctx) =
      (Some (Inr ?report), Some (?w2\<lparr>w_pending := None\<rparr>))"
    by (simp add: Watch_Next_def run)
  from reach_step [OF w2 watch_read [OF this]]
  have "reach (\<lambda>s. \<exists>ctx. s = (new_watch ctx, [])) ?step (?w2\<lparr>w_pending := None\<rparr>, [?report])" by simp
  from watch_reports_accounted [OF this] got show ?thesis by (simp add: last_read_def Let_def)
qed

end
