(* ===== verification/Resource_Scope.thy ===== *)
theory Resource_Scope
  imports Resource_Watch
begin

text \<open>
  \<^verbatim>\<open>resource/v1/scope.go\<close> and the scope side of \<^verbatim>\<open>binding.go\<close> and \<^verbatim>\<open>watch.go\<close>: a scope
  with its bindings, the admission gate that serialises \<^verbatim>\<open>Apply\<close> and \<^verbatim>\<open>Retry\<close>, the preparation
  slots, the watch and the shutdown. Each operation is split where the code releases a lock, so that
  the step relation at the end has the interleavings of the code.
\<close>

section \<open>State\<close>

text \<open>The holder of \<^verbatim>\<open>applyGate\<close>: just admitted, or an \<^verbatim>\<open>Apply\<close> that captured a number of
  entries and has prepared some of them; the commits it holds are the prepared plans of those
  bindings.\<close>

datatype holder = Entered | Preparing nat nat

text \<open>The progress of \<^verbatim>\<open>shutdown\<close>: not begun, cancelling the watch, stopping the entries from an
  index on, waiting for the watch, for the gate, and for the entries, and done.\<close>

datatype closer =
    Open
  | CancelWatch "gerr option"
  | StopEntries "gerr option" nat
  | JoinWatch
  | JoinGate
  | JoinEntries
  | Done

record ('c, 't) scope =
  s_options :: Options
  s_base :: go_ctx
  s_stopping :: bool
  s_sealed :: bool
  s_entries :: "('c binding_options \<times> ('c, 't) binding) list"
  s_names :: "string list"
  s_gate :: "holder option"
  s_slots :: "nat list"
  s_closer :: closer
  s_watch :: "watch option"
  s_sequence :: nat

definition stopped :: "('c, 't) scope \<Rightarrow> bool" where
  "stopped st = (s_stopping st \<or> ctx_err (s_base st) \<noteq> None)"

definition env_of :: "('c, 't) scope \<Rightarrow> scope_env" where
  "env_of st = \<lparr>env_name = opt_name (s_options st), env_stopped = stopped st, env_base = s_base st\<rparr>"

definition here :: "('c, 't) scope \<Rightarrow> resource_details" where
  "here st = no_details\<lparr>resource_scope := opt_name (s_options st)\<rparr>"

definition update_entry ::
  "nat \<Rightarrow> ('c binding_options \<Rightarrow> ('c, 't) binding \<Rightarrow> ('c, 't) binding) \<Rightarrow> ('c, 't) scope \<Rightarrow>
     ('c, 't) scope" where
  "update_entry i f st =
     st\<lparr>s_entries := (s_entries st)[i := (case s_entries st ! i of (opts, b) \<Rightarrow> (opts, f opts b))]\<rparr>"

definition map_entries ::
  "('c binding_options \<Rightarrow> ('c, 't) binding \<Rightarrow> ('c, 't) binding) \<Rightarrow> ('c, 't) scope \<Rightarrow> ('c, 't) scope"
  where
  "map_entries f st = st\<lparr>s_entries := map (\<lambda>(opts, b). (opts, f opts b)) (s_entries st)\<rparr>"

section \<open>Creation and declaration\<close>

definition resource_New :: "go_ctx option \<Rightarrow> Options \<Rightarrow> gerr + ('c, 't) scope" where
  "resource_New ctx opts =
     (case ctx of
        None \<Rightarrow> Inl (resource_fail resource_ErrOptions ''new'' [] no_details [])
      | Some c \<Rightarrow>
          (case resource_normalize opts of
             Inl err \<Rightarrow> Inl err
           | Inr norm \<Rightarrow>
               if ctx_err c \<noteq> None
               then Inl (resource_fail resource_ErrClosed ''new'' [] no_details [ctx_err c, ctx_cause c])
               else Inr \<lparr>s_options = norm, s_base = c, s_stopping = False, s_sealed = False,
                 s_entries = [], s_names = [], s_gate = None, s_slots = [], s_closer = Open,
                 s_watch = None, s_sequence = 0\<rparr>))"

definition Bind :: "('c, 't) scope option \<Rightarrow> 'c Binding \<Rightarrow> (gerr + nat) \<times> ('c, 't) scope option" where
  "Bind handle decl =
     (case handle of
        None \<Rightarrow> (Inl (resource_fail resource_ErrScope ''bind'' [] no_details []), None)
      | Some st \<Rightarrow>
          (case check_binding (opt_name (s_options st)) decl of
             Inl err \<Rightarrow> (Inl err, Some st)
           | Inr opts \<Rightarrow>
               (let refuse = (\<lambda>code. (Inl (resource_fail code ''bind'' (bopt_name opts) (here st) []), Some st))
                in if s_stopping st \<or> ctx_err (s_base st) \<noteq> None then refuse resource_ErrClosed
                   else if s_sealed st then refuse resource_ErrSealed
                   else if bopt_name opts \<in> set (s_names st) then refuse resource_ErrOptions
                   else if int (length (s_entries st)) = opt_max_bindings (s_options st)
                   then refuse resource_ErrLimit
                   else (Inr (length (s_entries st)),
                     Some (st\<lparr>s_entries := s_entries st @ [(opts, new_binding)],
                       s_names := bopt_name opts # s_names st\<rparr>)))))"

section \<open>Admission\<close>

text \<open>\<^verbatim>\<open>enterApply\<close>: \<open>early\<close> and \<open>stopped_early\<close> are what the first checks read, \<open>choice\<close> is the
  branch the \<^verbatim>\<open>select\<close> takes, with the context it reads when the wait ends.\<close>

datatype gate_choice = TakeGate | SeeStop | SeeDone go_ctx

definition enterApply ::
  "go_ctx option \<Rightarrow> bool \<Rightarrow> gate_choice \<Rightarrow> ('c, 't) scope \<Rightarrow> gerr option \<times> ('c, 't) scope" where
  "enterApply early stopped_early choice st =
     (let closed = (Some (resource_fail resource_ErrClosed ''apply'' [] (here st) []), st);
          waited = (\<lambda>c. (Some (resource_fail resource_ErrWait ''apply'' [] (here st)
            [ctx_err c, ctx_cause c]), st))
      in case early of
           None \<Rightarrow> (Some (resource_fail resource_ErrOptions ''apply'' [] (here st) []), st)
         | Some c \<Rightarrow>
             if ctx_err c \<noteq> None then waited c
             else if stopped_early then closed
             else
               (case choice of
                  TakeGate \<Rightarrow> if stopped st then closed else (None, st\<lparr>s_gate := Some Entered\<rparr>)
                | SeeStop \<Rightarrow> closed
                | SeeDone late \<Rightarrow> waited late))"

text \<open>Leaving the gate drops the commits an \<^verbatim>\<open>Apply\<close> still holds.\<close>

definition leave :: "('c, 't) scope \<Rightarrow> ('c, 't) scope" where
  "leave st = (map_entries (\<lambda>_ b. b\<lparr>b_prepared := None\<rparr>) st)\<lparr>s_gate := None\<rparr>"

definition Apply_seal :: "data option \<Rightarrow> ('c, 't) scope \<Rightarrow> gerr option \<times> ('c, 't) scope" where
  "Apply_seal view st =
     (if view = None
      then (Some (resource_fail resource_ErrSelection ''apply'' [] (here st) []), leave st)
      else (None, st\<lparr>s_sealed := True, s_gate := Some (Preparing (length (s_entries st)) 0)\<rparr>))"

text \<open>One turn of the preparing loop, for entry \<open>i\<close> of the \<open>n\<close> captured ones.\<close>

definition Apply_prepare ::
  "go_ctx \<Rightarrow> data option \<Rightarrow> nat \<Rightarrow> nat \<Rightarrow> ('c, 't) scope \<Rightarrow> gerr option \<times> ('c, 't) scope" where
  "Apply_prepare ctx view n i st =
     (case s_entries st ! i of (opts, b) \<Rightarrow>
        if ctx_err ctx \<noteq> None
        then (Some (resource_fail resource_ErrWait ''apply'' (bopt_name opts) (here st)
          [ctx_err ctx, ctx_cause ctx]), leave st)
        else
          (case prepare (env_of st) opts view b of
             Inl err \<Rightarrow> (Some err, leave st)
           | Inr plan \<Rightarrow>
               (None, (update_entry i (\<lambda>_ b. b\<lparr>b_prepared := Some plan\<rparr>) st)
                  \<lparr>s_gate := Some (Preparing n (Suc i))\<rparr>)))"

text \<open>The locked part of \<^verbatim>\<open>Apply\<close> that commits every prepared plan.\<close>

definition commit_entry ::
  "scope_env \<Rightarrow> 'c binding_options \<Rightarrow> ('c, 't) binding \<Rightarrow> nat \<times> ('c, 't) binding" where
  "commit_entry env opts b =
     (case b_prepared b of
        None \<Rightarrow> (0, b)
      | Some plan \<Rightarrow> (case commit env opts plan b of (v, b') \<Rightarrow> (v, b'\<lparr>b_prepared := None\<rparr>)))"

definition Apply_commit :: "go_ctx \<Rightarrow> ('c, 't) scope \<Rightarrow> (gerr + Update) \<times> ('c, 't) scope" where
  "Apply_commit ctx st =
     (if s_stopping st \<or> ctx_err (s_base st) \<noteq> None
      then (Inl (resource_fail resource_ErrClosed ''apply'' [] (here st) []), leave st)
      else if ctx_err ctx \<noteq> None
      then (Inl (resource_fail resource_ErrWait ''apply'' [] (here st) [ctx_err ctx, ctx_cause ctx]),
        leave st)
      else if s_sequence st = MaxUint64
      then (Inl (resource_fail resource_ErrLimit ''apply'' [] (here st) []), leave st)
      else
        (let sequence = inc64 (s_sequence st);
             targets = map (\<lambda>(opts, b). (bopt_name opts, fst (commit_entry (env_of st) opts b)))
               (s_entries st)
         in (Inr \<lparr>up_sequence = sequence, up_scope = opt_name (s_options st), up_targets = targets\<rparr>,
             leave (map_entries (\<lambda>opts b. snd (commit_entry (env_of st) opts b))
               (st\<lparr>s_sequence := sequence\<rparr>)))))"

text \<open>\<^verbatim>\<open>Apply\<close> as one uninterrupted call, and \<^verbatim>\<open>Retry\<close> after its admission.\<close>

fun prepare_loop ::
  "go_ctx \<Rightarrow> data option \<Rightarrow> nat \<Rightarrow> nat list \<Rightarrow> ('c, 't) scope \<Rightarrow> gerr option \<times> ('c, 't) scope" where
  "prepare_loop ctx view n [] st = (None, st)"
| "prepare_loop ctx view n (i # rest) st =
     (case Apply_prepare ctx view n i st of
        (Some err, st') \<Rightarrow> (Some err, st')
      | (None, st') \<Rightarrow> prepare_loop ctx view n rest st')"

definition Apply ::
  "('c, 't) scope option \<Rightarrow> go_ctx option \<Rightarrow> data option \<Rightarrow> (gerr + Update) \<times> ('c, 't) scope option" where
  "Apply handle ctx view =
     (case handle of
        None \<Rightarrow> (Inl (resource_fail resource_ErrScope ''apply'' [] no_details []), None)
      | Some st \<Rightarrow>
          (case enterApply ctx (stopped st) TakeGate st of
             (Some err, st') \<Rightarrow> (Inl err, Some st')
           | (None, entered) \<Rightarrow>
               (case Apply_seal view entered of
                  (Some err, st') \<Rightarrow> (Inl err, Some st')
                | (None, sealed) \<Rightarrow>
                    (let n = length (s_entries sealed) in
                     case prepare_loop (the ctx) view n [0..<n] sealed of
                       (Some err, st') \<Rightarrow> (Inl err, Some st')
                     | (None, prepared) \<Rightarrow>
                         (case Apply_commit (the ctx) prepared of (result, st') \<Rightarrow> (result, Some st'))))))"

definition Retry_locked :: "go_ctx \<Rightarrow> nat \<Rightarrow> ('c, 't) scope \<Rightarrow> (gerr + Update) \<times> ('c, 't) scope" where
  "Retry_locked ctx i st =
     (case s_entries st ! i of (opts, b) \<Rightarrow>
        (case retry_locked (env_of st) opts (s_stopping st \<or> ctx_err (s_base st) \<noteq> None) ctx
            (s_sequence st) b of
           Inl err \<Rightarrow> (Inl err, leave st)
         | Inr (sequence, version, b') \<Rightarrow>
             (Inr \<lparr>up_sequence = sequence, up_scope = opt_name (s_options st),
                up_targets = [(bopt_name opts, version)]\<rparr>,
              leave (update_entry i (\<lambda>_ _. b') (st\<lparr>s_sequence := sequence\<rparr>)))))"

section \<open>Shutdown\<close>

definition shutdown :: "gerr option \<Rightarrow> ('c, 't) scope \<Rightarrow> ('c, 't) scope" where
  "shutdown cause st =
     (if s_stopping st then st else st\<lparr>s_stopping := True, s_closer := CancelWatch cause\<rparr>)"

text \<open>The rest of \<^verbatim>\<open>shutdown\<close> and the goroutine it starts, one turn at a time; a turn that has to
  wait leaves the state unchanged.\<close>

definition shutdown_turn :: "('c, 't) scope \<Rightarrow> ('c, 't) scope" where
  "shutdown_turn st =
     (case s_closer st of
        Open \<Rightarrow> st
      | CancelWatch cause \<Rightarrow>
          st\<lparr>s_watch := map_option (watch_cancel cause) (s_watch st), s_closer := StopEntries cause 0\<rparr>
      | StopEntries cause i \<Rightarrow>
          if i < length (s_entries st)
          then (update_entry i (\<lambda>opts b. stop (env_of st) opts cause b) st)
            \<lparr>s_closer := StopEntries cause (Suc i)\<rparr>
          else st\<lparr>s_closer := JoinWatch\<rparr>
      | JoinWatch \<Rightarrow>
          if case s_watch st of None \<Rightarrow> True | Some w \<Rightarrow> w_done w
          then st\<lparr>s_closer := JoinGate\<rparr> else st
      | JoinGate \<Rightarrow> if s_gate st = None then st\<lparr>s_closer := JoinEntries\<rparr> else st
      | JoinEntries \<Rightarrow>
          if list_all (\<lambda>(_, b). b_exited b) (s_entries st) then st\<lparr>s_closer := Done\<rparr> else st
      | Done \<Rightarrow> st)"

definition ShutdownComplete :: "('c, 't) scope option \<Rightarrow> bool" where
  "ShutdownComplete handle = (case handle of None \<Rightarrow> False | Some st \<Rightarrow> s_closer st = Done)"

definition closeResult :: "('c, 't) scope \<Rightarrow> gerr option" where
  "closeResult st =
     (let causes = filter (\<lambda>e. e \<noteq> None) (map (\<lambda>(_, b). cleanupFailure b) (s_entries st)) in
      if causes \<noteq> []
      then Some (resource_fail resource_ErrCleanup ''close'' [] (here st) [errors_join causes])
      else None)"

text \<open>\<^verbatim>\<open>Close\<close>: the part that starts the shutdown and renews cleanup, and one turn of its waiting
  loop, \<open>None\<close> when it goes on waiting.\<close>

definition Close_begin ::
  "('c, 't) scope option \<Rightarrow> go_ctx option \<Rightarrow> gerr option \<times> ('c, 't) scope option" where
  "Close_begin handle ctx =
     (case handle of
        None \<Rightarrow> (Some (resource_fail resource_ErrScope ''close'' [] no_details []), None)
      | Some st \<Rightarrow>
          if ctx = None
          then (Some (resource_fail resource_ErrOptions ''close'' [] no_details []), Some st)
          else (None, Some (map_entries (\<lambda>_ b. retryCleanup b) (shutdown None st))))"

definition Close_turn :: "go_ctx \<Rightarrow> ('c, 't) scope \<Rightarrow> gerr option option" where
  "Close_turn ctx st =
     (if s_closer st = Done then Some (closeResult st)
      else
        (case List.find (\<lambda>(opts, b). stat_pending_cleanup (binding_inspect opts b) \<noteq> 0) (s_entries st) of
           Some (opts, b) \<Rightarrow>
             Some (Some (resource_fail resource_ErrCleanup ''close'' (bopt_name opts)
               ((here st)\<lparr>resource_pending := True\<rparr>) [stat_cleanup_err (binding_inspect opts b)]))
         | None \<Rightarrow>
             if ctx_err ctx \<noteq> None
             then Some (Some (resource_fail resource_ErrWait ''close'' []
               ((here st)\<lparr>resource_pending := True\<rparr>) [ctx_err ctx, ctx_cause ctx]))
             else None))"

definition scope_Inspect :: "('c, 't) scope option \<Rightarrow> gerr + Status list" where
  "scope_Inspect handle =
     (case handle of
        None \<Rightarrow> Inl (resource_fail resource_ErrScope ''inspect'' [] no_details [])
      | Some st \<Rightarrow> Inr (map (\<lambda>(opts, b). binding_inspect opts b) (s_entries st)))"

section \<open>The watch of a scope\<close>

definition scope_Watch ::
  "('c, 't) scope option \<Rightarrow> go_ctx option \<Rightarrow> bool \<Rightarrow> gerr option \<times> ('c, 't) scope option" where
  "scope_Watch handle ctx input =
     (case handle of
        None \<Rightarrow> (Some (resource_fail resource_ErrScope ''watch'' [] no_details []), None)
      | Some st \<Rightarrow>
          (case ctx of
             None \<Rightarrow> (Some (resource_fail resource_ErrOptions ''watch'' [] no_details []), Some st)
           | Some c \<Rightarrow>
               if \<not> input
               then (Some (resource_fail resource_ErrOptions ''watch'' [] no_details []), Some st)
               else if ctx_err c \<noteq> None
               then (Some (resource_fail resource_ErrClosed ''watch'' [] no_details
                 [ctx_err c, ctx_cause c]), Some st)
               else if s_stopping st \<or> ctx_err (s_base st) \<noteq> None
               then (Some (resource_fail resource_ErrClosed ''watch'' [] (here st) []), Some st)
               else if case s_watch st of None \<Rightarrow> False | Some w \<Rightarrow> \<not> w_done w
               then (Some (resource_fail resource_ErrLimit ''watch'' [] (here st) []), Some st)
               else (None, Some (st\<lparr>s_watch := Some (new_watch c), s_sealed := True\<rparr>))))"

section \<open>Steps\<close>

text \<open>What users of a binding and its coordinator do on their own, observing the scope.\<close>

inductive entry_step ::
  "scope_env \<Rightarrow> 'c binding_options \<Rightarrow> ('c, 't) binding \<Rightarrow> ('c, 't) binding \<Rightarrow> bool" for env opts where
  en_acquire: "entry_step env opts b (snd (acquire env opts early late b))"
| en_claim: "entry_step env opts b (snd (release_claim l b))"
| en_return: "l < length (b_leases b) \<Longrightarrow> lease_stage (b_leases b ! l) = Releasing \<Longrightarrow>
    entry_step env opts b (release_return l b)"
| en_retryCleanup: "entry_step env opts b (retryCleanup b)"
| en_run: "b_coordinator b = Looping \<Longrightarrow> entry_step env opts b (run_section env opts b)"
| en_clean: "b_coordinator b = Cleaning g \<Longrightarrow> entry_step env opts b (clean env opts g reported b)"
| en_awake: "b_coordinator b = Waiting \<Longrightarrow> b_wake b \<Longrightarrow> entry_step env opts b (awake b)"

inductive scope_step :: "('c, 't) scope \<Rightarrow> ('c, 't) scope \<Rightarrow> bool" where
  sc_base_ended: "ctx_err (s_base st) = None \<Longrightarrow> ctx_err c \<noteq> None \<Longrightarrow> scope_step st (st\<lparr>s_base := c\<rparr>)"
| sc_bind: "Bind (Some st) decl = (result, Some st') \<Longrightarrow> scope_step st st'"
| sc_enter: "s_gate st = None \<Longrightarrow> scope_step st (snd (enterApply early stopped_early choice st))"
| sc_seal: "s_gate st = Some Entered \<Longrightarrow> scope_step st (snd (Apply_seal view st))"
| sc_prepare: "s_gate st = Some (Preparing n i) \<Longrightarrow> i < n \<Longrightarrow>
    scope_step st (snd (Apply_prepare ctx view n i st))"
| sc_commit: "s_gate st = Some (Preparing n n) \<Longrightarrow> scope_step st (snd (Apply_commit ctx st))"
| sc_retry: "s_gate st = Some Entered \<Longrightarrow> i < length (s_entries st) \<Longrightarrow>
    scope_step st (snd (Retry_locked ctx i st))"
| sc_shutdown: "scope_step st (shutdown cause st)"
| sc_turn: "scope_step st (shutdown_turn st)"
| sc_watch: "scope_Watch (Some st) ctx input = (result, Some st') \<Longrightarrow> scope_step st st'"
| sc_receiver: "s_watch st = Some w \<Longrightarrow> watch_step scope (w, got) (w', got') \<Longrightarrow>
    scope_step st (st\<lparr>s_watch := Some w'\<rparr>)"
| sc_slot: "i < length (s_entries st) \<Longrightarrow> b_coordinator (snd (s_entries st ! i)) = Constructing g \<Longrightarrow>
    i \<notin> set (s_slots st) \<Longrightarrow> int (length (s_slots st)) < opt_max_preparing (s_options st) \<Longrightarrow>
    scope_step st (st\<lparr>s_slots := i # s_slots st\<rparr>)"
| sc_construct: "i < length (s_entries st) \<Longrightarrow> s_entries st ! i = (opts, b) \<Longrightarrow>
    b_coordinator b = Constructing g \<Longrightarrow>
    b' = construct_finish (env_of st) later opts g
      (construct_attempt (i \<in> set (s_slots st)) cx stopped_before cx' stopped_after built) b \<Longrightarrow>
    scope_step st ((update_entry i (\<lambda>_ _. b') st)\<lparr>s_slots := remove1 i (s_slots st)\<rparr>)"
| sc_entry: "i < length (s_entries st) \<Longrightarrow> s_entries st ! i = (opts, b) \<Longrightarrow>
    entry_step (env_of st) opts b b' \<Longrightarrow> scope_step st (update_entry i (\<lambda>_ _. b') st)"

definition scope_initial :: "('c, 't) scope \<Rightarrow> bool" where
  "scope_initial st \<longleftrightarrow> (\<exists>ctx opts. resource_New ctx opts = Inr st)"

section \<open>Invariant\<close>

text \<open>Every entry is a binding in a state its own system reaches.\<close>

definition genuine :: "'c binding_options \<times> ('c, 't) binding \<Rightarrow> bool" where
  "genuine e \<longleftrightarrow> reach (binding_initial (fst e)) (binding_step (fst e)) (snd e)"

definition inv_gate :: "('c, 't) scope \<Rightarrow> bool" where
  "inv_gate st \<longleftrightarrow>
     (case s_gate st of
        Some (Preparing n k) \<Rightarrow> n = length (s_entries st) \<and> k \<le> n \<and> s_sealed st \<and>
          (\<forall>j<n. b_prepared (snd (s_entries st ! j)) = None \<longleftrightarrow> k \<le> j)
      | _ \<Rightarrow> \<forall>j<length (s_entries st). b_prepared (snd (s_entries st ! j)) = None)"

definition stopped_upto :: "closer \<Rightarrow> nat \<Rightarrow> bool" where
  "stopped_upto closer j \<longleftrightarrow>
     (case closer of Open \<Rightarrow> False | CancelWatch _ \<Rightarrow> False | StopEntries _ k \<Rightarrow> j < k | _ \<Rightarrow> True)"

definition inv_stop :: "('c, 't) scope \<Rightarrow> bool" where
  "inv_stop st \<longleftrightarrow> (s_stopping st \<longleftrightarrow> s_closer st \<noteq> Open) \<and>
     (\<forall>j<length (s_entries st). b_stopping (snd (s_entries st ! j)) \<longleftrightarrow> stopped_upto (s_closer st) j)"

definition inv_join :: "('c, 't) scope \<Rightarrow> bool" where
  "inv_join st \<longleftrightarrow>
     (s_closer st \<in> {JoinEntries, Done} \<longrightarrow> s_gate st = None) \<and>
     (s_closer st \<in> {JoinGate, JoinEntries, Done} \<longrightarrow> (\<forall>w. s_watch st = Some w \<longrightarrow> w_done w)) \<and>
     (s_closer st = Done \<longrightarrow> (\<forall>j<length (s_entries st). b_exited (snd (s_entries st ! j))))"

definition inv_declared :: "('c, 't) scope \<Rightarrow> bool" where
  "inv_declared st \<longleftrightarrow> s_names st = rev (map (\<lambda>e. bopt_name (fst e)) (s_entries st)) \<and>
     distinct (map (\<lambda>e. bopt_name (fst e)) (s_entries st)) \<and>
     int (length (s_entries st)) \<le> opt_max_bindings (s_options st)"

definition inv_slots :: "('c, 't) scope \<Rightarrow> bool" where
  "inv_slots st \<longleftrightarrow> distinct (s_slots st) \<and> int (length (s_slots st)) \<le> opt_max_preparing (s_options st) \<and>
     (\<forall>i\<in>set (s_slots st). i < length (s_entries st) \<and>
        (\<exists>g. b_coordinator (snd (s_entries st ! i)) = Constructing g))"

definition scope_inv :: "('c, 't) scope \<Rightarrow> bool" where
  "scope_inv st \<longleftrightarrow> (\<forall>j<length (s_entries st). genuine (s_entries st ! j)) \<and>
     inv_gate st \<and> inv_stop st \<and> inv_join st \<and> inv_declared st \<and> inv_slots st"

lemma scope_invD:
  assumes "scope_inv st"
  shows "j < length (s_entries st) \<Longrightarrow> genuine (s_entries st ! j)"
    and "inv_gate st" and "inv_stop st" and "inv_join st" and "inv_declared st" and "inv_slots st"
  using assms by (simp_all add: scope_inv_def)

lemma update_entry_simps [simp]:
  "s_options (update_entry i f st) = s_options st" "s_base (update_entry i f st) = s_base st"
  "s_stopping (update_entry i f st) = s_stopping st" "s_sealed (update_entry i f st) = s_sealed st"
  "s_names (update_entry i f st) = s_names st" "s_gate (update_entry i f st) = s_gate st"
  "s_slots (update_entry i f st) = s_slots st" "s_closer (update_entry i f st) = s_closer st"
  "s_watch (update_entry i f st) = s_watch st" "s_sequence (update_entry i f st) = s_sequence st"
  "length (s_entries (update_entry i f st)) = length (s_entries st)"
  by (simp_all add: update_entry_def)

lemma map_entries_simps [simp]:
  "s_options (map_entries f st) = s_options st" "s_base (map_entries f st) = s_base st"
  "s_stopping (map_entries f st) = s_stopping st" "s_sealed (map_entries f st) = s_sealed st"
  "s_names (map_entries f st) = s_names st" "s_gate (map_entries f st) = s_gate st"
  "s_slots (map_entries f st) = s_slots st" "s_closer (map_entries f st) = s_closer st"
  "s_watch (map_entries f st) = s_watch st" "s_sequence (map_entries f st) = s_sequence st"
  "length (s_entries (map_entries f st)) = length (s_entries st)"
  by (simp_all add: map_entries_def)

lemma update_entry_nth:
  assumes "j < length (s_entries st)"
  shows "s_entries (update_entry i f st) ! j =
    (if j = i then (fst (s_entries st ! i), f (fst (s_entries st ! i)) (snd (s_entries st ! i)))
     else s_entries st ! j)"
  using assms by (simp add: update_entry_def nth_list_update split: prod.split)

lemma map_entries_nth:
  assumes "j < length (s_entries st)"
  shows "s_entries (map_entries f st) ! j =
    (fst (s_entries st ! j), f (fst (s_entries st ! j)) (snd (s_entries st ! j)))"
  using assms by (simp add: map_entries_def split: prod.split)

lemma names_entries:
  "map (\<lambda>e. bopt_name (fst e)) (s_entries (update_entry i f st)) =
     map (\<lambda>e. bopt_name (fst e)) (s_entries st)"
  "map (\<lambda>e. bopt_name (fst e)) (s_entries (map_entries f st)) =
     map (\<lambda>e. bopt_name (fst e)) (s_entries st)"
  by (rule nth_equalityI; simp add: update_entry_nth map_entries_nth)+

lemma inv_declared_cong:
  assumes "inv_declared st" and "s_names st' = s_names st" and "s_options st' = s_options st"
    and "map (\<lambda>e. bopt_name (fst e)) (s_entries st') = map (\<lambda>e. bopt_name (fst e)) (s_entries st)"
  shows "inv_declared st'"
proof -
  have "length (s_entries st') = length (s_entries st)" using assms(4) by (metis length_map)
  then show ?thesis using assms by (simp add: inv_declared_def)
qed

lemma genuine_step:
  "genuine (opts, b) \<Longrightarrow> binding_step opts b b' \<Longrightarrow> genuine (opts, b')"
  unfolding genuine_def fst_conv snd_conv by (rule reach_step)

lemma genuine_abandon: "genuine e \<Longrightarrow> genuine (fst e, (snd e)\<lparr>b_prepared := None\<rparr>)"
  by (cases e) (simp add: genuine_step [OF _ step_abandon])

lemma run_frames:
  "b_stopping (run_section env opts b) = b_stopping b"
  "b_exited b \<longrightarrow> b_exited (run_section env opts b)"
  by (simp_all add: run_section_def Let_def split: option.split)

lemma construct_frames:
  "b_stopping (construct_finish env later opts g attempt b) = b_stopping b"
  "b_exited (construct_finish env later opts g attempt b) = b_exited b"
  by (cases attempt; simp add: construct_finish_def Let_def split: option.split)+

lemma entry_step_frames:
  assumes "entry_step env opts b b'"
  shows "binding_step opts b b'" and "b_prepared b' = b_prepared b" and "b_stopping b' = b_stopping b"
    and "b_exited b \<Longrightarrow> b_exited b'"
    and "b_coordinator b = Constructing g \<Longrightarrow> b_coordinator b' = Constructing g"
proof -
  show "binding_step opts b b'" using assms by cases (auto intro: binding_step.intros)
  have "b_prepared b' = b_prepared b \<and> b_stopping b' = b_stopping b \<and> (b_exited b \<longrightarrow> b_exited b') \<and>
      (b_coordinator b = Constructing g \<longrightarrow> b_coordinator b' = Constructing g)"
    using assms
    by cases (simp_all add: acquire_def release_claim_def release_return_def retryCleanup_def awake_def
        clean_def desired_run run_frames Let_def split: option.split)
  then show "b_prepared b' = b_prepared b" and "b_stopping b' = b_stopping b"
    and "b_exited b \<Longrightarrow> b_exited b'"
    and "b_coordinator b = Constructing g \<Longrightarrow> b_coordinator b' = Constructing g"
    by simp_all
qed

text \<open>A binding's own step, seen from its scope.\<close>

lemma entry_changes_inv:
  assumes "scope_inv st" and "i < length (s_entries st)" and "s_entries st ! i = (opts, b)"
    and "binding_step opts b b'" and "b_prepared b' = b_prepared b" and "b_stopping b' = b_stopping b"
    and "b_exited b \<Longrightarrow> b_exited b'"
    and "slots = remove1 i (s_slots st) \<or>
      slots = s_slots st \<and> (\<forall>g. b_coordinator b = Constructing g \<longrightarrow> b_coordinator b' = Constructing g)"
  shows "scope_inv ((update_entry i (\<lambda>_ _. b') st)\<lparr>s_slots := slots\<rparr>)"
proof -
  let ?st = "(update_entry i (\<lambda>_ _. b') st)\<lparr>s_slots := slots\<rparr>"
  note inv = scope_invD [OF assms(1)]
  have entry: "s_entries (update_entry i (\<lambda>_ _. b') st) ! j = (if j = i then (opts, b') else s_entries st ! j)"
    if "j < length (s_entries st)" for j
    using that assms(3) by (simp add: update_entry_nth)
  have "genuine (opts, b')"
    using inv(1) [OF assms(2)] assms(3, 4) by (auto intro: genuine_step)
  then have "genuine (s_entries ?st ! j)" if "j < length (s_entries st)" for j
    using that inv(1) by (simp add: entry)
  moreover have "inv_gate ?st"
    using inv(2) assms(3, 5) by (auto simp: inv_gate_def entry split: option.splits holder.splits)
  moreover have "inv_stop ?st" using inv(3) assms(2, 3, 6) by (auto simp: inv_stop_def entry)
  moreover have "inv_join ?st" using inv(4) assms(2, 3, 7) by (auto simp: inv_join_def entry)
  moreover have "inv_declared ?st"
    by (rule inv_declared_cong [OF inv(5)]) (simp_all add: names_entries)
  moreover have "inv_slots ?st"
  proof -
    have "\<exists>g. b_coordinator b = Constructing g" if "i \<in> set (s_slots st)"
      using inv(6) assms(3) that by (force simp: inv_slots_def)
    then have "\<exists>g. b_coordinator b' = Constructing g" if "i \<in> set slots"
      using that assms(8) inv(6) by (auto simp: inv_slots_def)
    then show ?thesis
      using inv(6) assms(8)
      by (auto simp: inv_slots_def entry length_remove1 dest: notin_set_remove1)
  qed
  ultimately show ?thesis by (simp add: scope_inv_def)
qed

text \<open>Changes of the entries, the gate, the seal and the sequence only.\<close>

lemma entries_changed_inv:
  assumes "inv_stop st" and "inv_join st" and "inv_declared st" and "inv_slots st"
    and "map fst (s_entries st') = map fst (s_entries st)"
    and "s_options st' = s_options st" "s_stopping st' = s_stopping st" "s_closer st' = s_closer st"
      "s_watch st' = s_watch st" "s_names st' = s_names st" "s_slots st' = s_slots st"
    and "s_gate st' = None \<or> s_closer st \<notin> {JoinEntries, Done}"
    and "\<And>j. j < length (s_entries st) \<Longrightarrow> genuine (s_entries st' ! j) \<and>
      b_stopping (snd (s_entries st' ! j)) = b_stopping (snd (s_entries st ! j)) \<and>
      b_exited (snd (s_entries st' ! j)) = b_exited (snd (s_entries st ! j)) \<and>
      b_coordinator (snd (s_entries st' ! j)) = b_coordinator (snd (s_entries st ! j))"
    and "inv_gate st'"
  shows "scope_inv st'"
proof -
  have len: "length (s_entries st') = length (s_entries st)" using assms(5) by (metis length_map)
  have same: "genuine (s_entries st' ! j)"
      "b_stopping (snd (s_entries st' ! j)) = b_stopping (snd (s_entries st ! j))"
      "b_exited (snd (s_entries st' ! j)) = b_exited (snd (s_entries st ! j))"
      "b_coordinator (snd (s_entries st' ! j)) = b_coordinator (snd (s_entries st ! j))"
    if "j < length (s_entries st)" for j
    using assms(13) [OF that] by blast+
  have names: "map (\<lambda>e. bopt_name (fst e)) (s_entries st') = map (\<lambda>e. bopt_name (fst e)) (s_entries st)"
    using arg_cong [OF assms(5), of "map bopt_name"] by (simp add: comp_def)
  have "inv_stop st'" using assms(1) by (simp add: inv_stop_def assms(7, 8) same(2) len)
  moreover have "inv_join st'"
    using assms(2, 12) by (auto simp: inv_join_def assms(8, 9) same(3) len)
  moreover have "inv_declared st'" by (rule inv_declared_cong [OF assms(3, 10, 6) names])
  moreover have "inv_slots st'" using assms(4) by (simp add: inv_slots_def assms(6, 11) same(4) len)
  ultimately show ?thesis using assms(14) same(1) by (simp add: scope_inv_def len)
qed

text \<open>Leaving the gate.\<close>

lemma fst_entries [simp]:
  "map fst (s_entries (update_entry i f st)) = map fst (s_entries st)"
  "map fst (s_entries (map_entries f st)) = map fst (s_entries st)"
  by (rule nth_equalityI; simp add: update_entry_nth map_entries_nth)+

lemma leave_inv:
  assumes "scope_inv st" and "s_gate st \<noteq> None"
  shows "scope_inv (leave st)"
proof (rule entries_changed_inv [OF scope_invD(3-6) [OF assms(1)]])
  fix j
  assume j: "j < length (s_entries st)"
  have entry: "s_entries (leave st) ! j =
      (fst (s_entries st ! j), (snd (s_entries st ! j))\<lparr>b_prepared := None\<rparr>)"
    using j by (simp add: leave_def map_entries_nth)
  then have "genuine (s_entries (leave st) ! j)"
    using genuine_abandon [OF scope_invD(1) [OF assms(1) j]] by simp
  with entry show "genuine (s_entries (leave st) ! j) \<and>
      b_stopping (snd (s_entries (leave st) ! j)) = b_stopping (snd (s_entries st ! j)) \<and>
      b_exited (snd (s_entries (leave st) ! j)) = b_exited (snd (s_entries st ! j)) \<and>
      b_coordinator (snd (s_entries (leave st) ! j)) = b_coordinator (snd (s_entries st ! j))"
    by simp
qed (simp_all add: leave_def inv_gate_def map_entries_nth)

lemma commit_entry_frames:
  "b_stopping (snd (commit_entry env opts b)) = b_stopping b"
  "b_exited (snd (commit_entry env opts b)) = b_exited b"
  "b_coordinator (snd (commit_entry env opts b)) = b_coordinator b"
  "b_prepared (snd (commit_entry env opts b)) = None"
proof -
  have "b_stopping (snd (commit env opts plan b)) = b_stopping b \<and>
      b_exited (snd (commit env opts plan b)) = b_exited b \<and>
      b_coordinator (snd (commit env opts plan b)) = b_coordinator b" for plan
    by (cases plan) (simp_all add: Let_def split: option.split)
  then show "b_stopping (snd (commit_entry env opts b)) = b_stopping b"
    "b_exited (snd (commit_entry env opts b)) = b_exited b"
    "b_coordinator (snd (commit_entry env opts b)) = b_coordinator b"
    "b_prepared (snd (commit_entry env opts b)) = None"
    by (simp_all add: commit_entry_def split: option.split prod.split)
      (metis snd_conv)+
qed

lemma genuine_commit:
  assumes "genuine (opts, b)" and "\<not> b_stopping b"
  shows "genuine (opts, snd (commit_entry env opts b))"
proof (cases "b_prepared b")
  case (Some plan)
  then have "snd (commit_entry env opts b) = (snd (commit env opts plan b))\<lparr>b_prepared := None\<rparr>"
    by (simp add: commit_entry_def split: prod.split)
  then show ?thesis
    using genuine_step [OF assms(1) step_commit [OF Some assms(2)]] by simp
qed (use assms in \<open>simp add: commit_entry_def\<close>)

lemma not_stopped:
  assumes "scope_inv st" and "j < length (s_entries st)" and "\<not> s_stopping st"
  shows "\<not> b_stopping (snd (s_entries st ! j))" and "s_closer st = Open"
  using scope_invD(3) [OF assms(1)] assms(2, 3) by (simp_all add: inv_stop_def stopped_upto_def)

lemma gate_not_joined:
  assumes "scope_inv st" and "s_gate st \<noteq> None"
  shows "s_closer st \<notin> {JoinEntries, Done}"
  using scope_invD(4) [OF assms(1)] assms(2) by (auto simp: inv_join_def)

lemma Apply_seal_inv:
  assumes "scope_inv st" and "s_gate st = Some Entered"
  shows "scope_inv (snd (Apply_seal view st))"
proof (cases "view = None")
  case True
  then show ?thesis using leave_inv [OF assms(1)] assms(2) by (simp add: Apply_seal_def)
next
  case False
  have "s_closer st \<notin> {JoinEntries, Done}" by (rule gate_not_joined [OF assms(1)]) (simp add: assms(2))
  then show ?thesis
    using False assms
    by (auto simp: scope_inv_def Apply_seal_def inv_gate_def inv_stop_def inv_join_def inv_declared_def inv_slots_def)
qed

lemma Apply_prepare_inv:
  assumes "scope_inv st" and "s_gate st = Some (Preparing n i)" and "i < n"
  shows "scope_inv (snd (Apply_prepare ctx view n i st))"
proof -
  note inv = scope_invD [OF assms(1)]
  obtain opts b where e: "s_entries st ! i = (opts, b)" by fastforce
  have n: "n = length (s_entries st)" using inv(2) assms(2) by (simp add: inv_gate_def)
  show ?thesis
  proof (cases "\<exists>plan. ctx_err ctx = None \<and> prepare (env_of st) opts view b = Inr plan")
    case False
    then have "snd (Apply_prepare ctx view n i st) = leave st"
      by (auto simp: Apply_prepare_def e split: sum.split)
    then show ?thesis using leave_inv [OF assms(1)] assms(2) by simp
  next
    case True
    then obtain plan where p: "prepare (env_of st) opts view b = Inr plan"
      "snd (Apply_prepare ctx view n i st) =
        (update_entry i (\<lambda>_ b. b\<lparr>b_prepared := Some plan\<rparr>) st)\<lparr>s_gate := Some (Preparing n (Suc i))\<rparr>"
      by (auto simp: Apply_prepare_def e)
    let ?upd = "update_entry i (\<lambda>_ b. b\<lparr>b_prepared := Some plan\<rparr>) st"
    have entry: "s_entries ?upd ! j = (if j = i then (opts, b\<lparr>b_prepared := Some plan\<rparr>) else s_entries st ! j)"
      if "j < length (s_entries st)" for j using that e by (simp add: update_entry_nth)
    have "b_prepared b = None" using inv(2) assms(2, 3) e n by (auto simp: inv_gate_def)
    then have "binding_step opts b (b\<lparr>b_prepared := Some plan\<rparr>)" using p(1) by (rule step_prepare)
    then have genuine: "genuine (opts, b\<lparr>b_prepared := Some plan\<rparr>)"
      using inv(1) [of i] assms(3) n e by (auto intro: genuine_step)
    show ?thesis
      unfolding p(2)
    proof (rule entries_changed_inv [OF inv(3-6)])
      show "inv_gate (?upd\<lparr>s_gate := Some (Preparing n (Suc i))\<rparr>)"
        using inv(2) assms(2, 3) n by (auto simp: inv_gate_def entry)
    next
      show "s_gate (?upd\<lparr>s_gate := Some (Preparing n (Suc i))\<rparr>) = None \<or> s_closer st \<notin> {JoinEntries, Done}"
        using gate_not_joined [OF assms(1)] assms(2) by simp
    qed (use e genuine inv(1) in \<open>simp_all add: entry\<close>)
  qed
qed

lemma Apply_commit_inv:
  assumes "scope_inv st" and "s_gate st \<noteq> None"
  shows "scope_inv (snd (Apply_commit ctx st))"
proof -
  note inv = scope_invD [OF assms(1)]
  let ?done = "map_entries (\<lambda>opts b. snd (commit_entry (env_of st) opts b))
      (st\<lparr>s_sequence := inc64 (s_sequence st)\<rparr>)"
  show ?thesis
  proof (cases "snd (Apply_commit ctx st) = leave st")
    case True
    then show ?thesis using leave_inv [OF assms] by simp
  next
    case False
    then have run: "\<not> s_stopping st" "snd (Apply_commit ctx st) = leave ?done"
      by (auto simp: Apply_commit_def Let_def split: if_splits)
    show ?thesis
      unfolding run(2)
    proof (rule entries_changed_inv [OF inv(3-6)])
      fix j
      assume j: "j < length (s_entries st)"
      obtain opts b where e: "s_entries st ! j = (opts, b)" by fastforce
      have "s_entries (leave ?done) ! j =
          (opts, (snd (commit_entry (env_of st) opts b))\<lparr>b_prepared := None\<rparr>)"
        using j e by (simp add: leave_def map_entries_nth)
      moreover have "genuine (opts, (snd (commit_entry (env_of st) opts b))\<lparr>b_prepared := None\<rparr>)"
        using genuine_step [OF genuine_commit step_abandon] inv(1) [OF j]
          not_stopped(1) [OF assms(1) j run(1)] e by simp
      ultimately show "genuine (s_entries (leave ?done) ! j) \<and>
          b_stopping (snd (s_entries (leave ?done) ! j)) = b_stopping (snd (s_entries st ! j)) \<and>
          b_exited (snd (s_entries (leave ?done) ! j)) = b_exited (snd (s_entries st ! j)) \<and>
          b_coordinator (snd (s_entries (leave ?done) ! j)) = b_coordinator (snd (s_entries st ! j))"
        using e by (simp add: commit_entry_frames)
    qed (simp_all add: leave_def inv_gate_def map_entries_nth)
  qed
qed

lemma retry_frames:
  assumes "retry_locked env opts closing ctx sequence b = Inr (sequence', version, b')"
  shows "b_stopping b' = b_stopping b" and "b_exited b' = b_exited b"
    and "b_coordinator b' = b_coordinator b" and "\<not> closing"
  using assms
  by (auto simp: retry_locked_def Let_def split: if_splits option.splits prod.splits)

lemma Retry_inv:
  assumes "scope_inv st" and "s_gate st = Some Entered" and "i < length (s_entries st)"
  shows "scope_inv (snd (Retry_locked ctx i st))"
proof -
  note inv = scope_invD [OF assms(1)]
  obtain opts b where e: "s_entries st ! i = (opts, b)" by fastforce
  let ?retried = "retry_locked (env_of st) opts (s_stopping st \<or> ctx_err (s_base st) \<noteq> None) ctx
      (s_sequence st) b"
  show ?thesis
  proof (cases ?retried)
    case (Inl err)
    then have "snd (Retry_locked ctx i st) = leave st" by (simp add: Retry_locked_def e)
    then show ?thesis using leave_inv [OF assms(1)] assms(2) by simp
  next
    case (Inr r)
    then obtain sequence version b' where r: "?retried = Inr (sequence, version, b')"
      by (cases r) auto
    then have st': "snd (Retry_locked ctx i st) =
        leave (update_entry i (\<lambda>_ _. b') (st\<lparr>s_sequence := sequence\<rparr>))"
      by (simp add: Retry_locked_def e)
    note frames = retry_frames [OF r]
    have stop: "\<not> b_stopping b" using not_stopped(1) [OF assms(1, 3)] frames(4) e by simp
    have free: "b_prepared b = None" using inv(2) assms(2, 3) e by (auto simp: inv_gate_def)
    from step_retry [OF this stop r] have "genuine (opts, b')"
      using inv(1) [OF assms(3)] e by (auto intro: genuine_step)
    then have "scope_inv (update_entry i (\<lambda>_ _. b') (st\<lparr>s_sequence := sequence\<rparr>))"
      using inv(1, 2) frames(1-3) e free assms(2) retry_desired [OF r] not_stopped(2) [OF assms(1, 3)] frames(4)
      by (intro entries_changed_inv [OF inv(3-6)]) (simp_all add: update_entry_nth inv_gate_def)
    then show ?thesis unfolding st' using assms(2) by (intro leave_inv) simp_all
  qed
qed

lemma enterApply_inv:
  assumes "scope_inv st" and "s_gate st = None"
  shows "scope_inv (snd (enterApply early stopped_early choice st))"
proof (cases "snd (enterApply early stopped_early choice st) = st")
  case False
  then have entered: "snd (enterApply early stopped_early choice st) = st\<lparr>s_gate := Some Entered\<rparr>"
    and "\<not> s_stopping st"
    by (auto simp: enterApply_def Let_def stopped_def split: option.splits if_splits gate_choice.splits)
  then have "s_closer st = Open" using scope_invD(3) [OF assms(1)] by (simp add: inv_stop_def)
  then show ?thesis
    unfolding entered using scope_invD [OF assms(1)] assms(2)
    by (intro entries_changed_inv [of st]) (simp_all add: inv_gate_def)
qed (use assms in simp)

lemma Bind_inv:
  assumes "scope_inv st" and "Bind (Some st) decl = (result, Some st')"
  shows "scope_inv st'"
proof (cases "st' = st")
  case False
  note inv = scope_invD [OF assms(1)]
  from False assms(2) obtain opts where opts: "check_binding (opt_name (s_options st)) decl = Inr opts"
    and st': "st' = st\<lparr>s_entries := s_entries st @ [(opts, new_binding)], s_names := bopt_name opts # s_names st\<rparr>"
    and guard: "\<not> s_stopping st" "\<not> s_sealed st" "bopt_name opts \<notin> set (s_names st)"
      "int (length (s_entries st)) \<noteq> opt_max_bindings (s_options st)"
    by (auto simp: Bind_def Let_def split: sum.splits if_splits)
  have "genuine (opts, new_binding)"
    using check_binding_Inr [OF opts] unfolding genuine_def
    by (intro reach_initial) (simp add: binding_initial_def admitted_def)
  then have "genuine (s_entries st' ! j)" if "j < length (s_entries st')" for j
    using that inv(1) by (cases "j < length (s_entries st)") (simp_all add: st' nth_append less_Suc_eq)
  moreover have "inv_gate st'"
    using inv(2) guard(2)
    by (auto simp: inv_gate_def st' nth_append new_binding_def split: option.splits holder.splits)
  moreover have "s_closer st = Open" using inv(3) guard(1) by (simp add: inv_stop_def)
  then have "inv_stop st'" "inv_join st'"
    using inv(3) by (auto simp: inv_stop_def inv_join_def st' nth_append new_binding_def stopped_upto_def)
  moreover have "inv_declared st'"
    using inv(5) guard(3, 4) by (auto simp: inv_declared_def st')
  moreover have "inv_slots st'" using inv(6) by (auto simp: inv_slots_def st' nth_append)
  ultimately show ?thesis by (simp add: scope_inv_def)
qed (use assms in simp)

text \<open>The parts of the invariant do not depend on the other fields.\<close>

lemma inv_gate_frame [simp]:
  "inv_gate (st\<lparr>s_base := c\<rparr>) = inv_gate st" "inv_gate (st\<lparr>s_watch := w\<rparr>) = inv_gate st"
  "inv_gate (st\<lparr>s_slots := slots\<rparr>) = inv_gate st" "inv_gate (st\<lparr>s_closer := k\<rparr>) = inv_gate st"
  "inv_gate (st\<lparr>s_stopping := x\<rparr>) = inv_gate st"
  by (simp_all add: inv_gate_def split: option.split holder.split)

lemma inv_stop_frame [simp]:
  "inv_stop (st\<lparr>s_base := c\<rparr>) = inv_stop st" "inv_stop (st\<lparr>s_watch := w\<rparr>) = inv_stop st"
  "inv_stop (st\<lparr>s_slots := slots\<rparr>) = inv_stop st" "inv_stop (st\<lparr>s_sealed := x\<rparr>) = inv_stop st"
  by (simp_all add: inv_stop_def)

lemma inv_join_frame [simp]:
  "inv_join (st\<lparr>s_base := c\<rparr>) = inv_join st" "inv_join (st\<lparr>s_slots := slots\<rparr>) = inv_join st"
  by (simp_all add: inv_join_def)

lemma inv_declared_frame [simp]:
  "inv_declared (st\<lparr>s_base := c\<rparr>) = inv_declared st" "inv_declared (st\<lparr>s_watch := w\<rparr>) = inv_declared st"
  "inv_declared (st\<lparr>s_slots := slots\<rparr>) = inv_declared st"
  "inv_declared (st\<lparr>s_closer := k\<rparr>) = inv_declared st"
  "inv_declared (st\<lparr>s_stopping := x\<rparr>) = inv_declared st"
  "inv_declared (st\<lparr>s_sealed := x\<rparr>) = inv_declared st"
  by (simp_all add: inv_declared_def)

lemma inv_slots_frame [simp]:
  "inv_slots (st\<lparr>s_base := c\<rparr>) = inv_slots st" "inv_slots (st\<lparr>s_watch := w\<rparr>) = inv_slots st"
  "inv_slots (st\<lparr>s_closer := k\<rparr>) = inv_slots st" "inv_slots (st\<lparr>s_stopping := x\<rparr>) = inv_slots st"
  "inv_slots (st\<lparr>s_sealed := x\<rparr>) = inv_slots st"
  by (simp_all add: inv_slots_def)

lemma update_entry_slots [simp]: "update_entry i f st\<lparr>s_slots := s_slots st\<rparr> = update_entry i f st"
  by (simp add: update_entry_def)

lemma watch_done_kept:
  "watch_step scope (w, got) (w', got') \<Longrightarrow> w_done w \<Longrightarrow> w_done w'"
  by (erule watch_step.cases)
    (auto simp: w_done_def watch_cancel_def Watch_Next_def split: if_splits option.splits)

lemma scope_other_inv:
  assumes "scope_inv st"
  shows "scope_inv (st\<lparr>s_base := c\<rparr>)"
    and "s_watch st = Some w \<Longrightarrow> watch_step scope (w, got) (w', got') \<Longrightarrow>
      scope_inv (st\<lparr>s_watch := Some w'\<rparr>)"
    and "scope_Watch (Some st) ctx input = (result, Some st') \<Longrightarrow> scope_inv st'"
    and "i < length (s_entries st) \<Longrightarrow> b_coordinator (snd (s_entries st ! i)) = Constructing g \<Longrightarrow>
      i \<notin> set (s_slots st) \<Longrightarrow> int (length (s_slots st)) < opt_max_preparing (s_options st) \<Longrightarrow>
      scope_inv (st\<lparr>s_slots := i # s_slots st\<rparr>)"
    and "scope_inv (shutdown cause st)"
proof -
  note inv = scope_invD [OF assms]
  show "scope_inv (st\<lparr>s_base := c\<rparr>)" using assms by (simp add: scope_inv_def)
  show "scope_inv (st\<lparr>s_watch := Some w'\<rparr>)"
    if "s_watch st = Some w" "watch_step scope (w, got) (w', got')"
    using assms that(1) watch_done_kept [OF that(2)] by (auto simp: scope_inv_def inv_join_def)
  show "scope_inv (st\<lparr>s_slots := i # s_slots st\<rparr>)"
    if "i < length (s_entries st)" "b_coordinator (snd (s_entries st ! i)) = Constructing g"
      "i \<notin> set (s_slots st)" "int (length (s_slots st)) < opt_max_preparing (s_options st)"
    using assms that by (auto simp: scope_inv_def inv_slots_def)
  show "scope_inv (shutdown cause st)"
    using assms by (auto simp: scope_inv_def shutdown_def stopped_upto_def inv_stop_def inv_join_def)
  show "scope_inv st'" if watch: "scope_Watch (Some st) ctx input = (result, Some st')"
  proof (cases "st' = st")
    case False
    then obtain c where st': "st' = st\<lparr>s_watch := Some (new_watch c), s_sealed := True\<rparr>" "\<not> s_stopping st"
      using watch by (auto simp: scope_Watch_def split: option.splits if_splits)
    then have "s_closer st = Open" using inv(3) by (simp add: inv_stop_def)
    moreover have "inv_gate st'"
      using inv(2) by (auto simp: inv_gate_def st'(1) split: option.splits holder.splits)
    ultimately show ?thesis
      using assms by (simp add: scope_inv_def st'(1) inv_join_def)
  qed (use assms in simp)
qed

lemma stop_frames:
  "b_stopping (stop env opts cause b)" "b_exited (stop env opts cause b) = b_exited b"
  "b_coordinator (stop env opts cause b) = b_coordinator b"
  "b_prepared (stop env opts cause b) = b_prepared b"
  by (simp_all add: stop_def Let_def split: option.split)

lemma stop_entry_inv:
  assumes "scope_inv st" and "s_closer st = StopEntries cause i" and "i < length (s_entries st)"
  shows "scope_inv ((update_entry i (\<lambda>opts b. stop (env_of st) opts cause b) st)
    \<lparr>s_closer := StopEntries cause (Suc i)\<rparr>)" (is "scope_inv ?st")
proof -
  note inv = scope_invD [OF assms(1)]
  obtain opts b where e: "s_entries st ! i = (opts, b)" by fastforce
  let ?upd = "update_entry i (\<lambda>opts b. stop (env_of st) opts cause b) st"
  have entry: "s_entries ?upd ! j = (if j = i then (opts, stop (env_of st) opts cause b) else s_entries st ! j)"
    if "j < length (s_entries st)" for j using that e by (simp add: update_entry_nth)
  have "genuine (opts, stop (env_of st) opts cause b)"
    using inv(1) [OF assms(3)] e by (auto intro: genuine_step step_stop)
  then have "genuine (s_entries ?st ! j)" if "j < length (s_entries st)" for j
    using that inv(1) by (simp add: entry)
  moreover have "inv_gate ?st"
    using inv(2) e by (auto simp: inv_gate_def entry stop_frames split: option.splits holder.splits)
  moreover have "inv_stop ?st" using inv(3) assms(2)
    by (auto simp: inv_stop_def entry stop_frames stopped_upto_def less_Suc_eq)
  moreover have "inv_join ?st" by (simp add: inv_join_def)
  moreover have "inv_declared ?st"
    by (rule inv_declared_cong [OF inv(5)]) (simp_all add: names_entries)
  moreover have "inv_slots ?st" using inv(6) e by (auto simp: inv_slots_def entry stop_frames)
  ultimately show ?thesis by (simp add: scope_inv_def)
qed

lemma shutdown_turn_inv:
  assumes "scope_inv st"
  shows "scope_inv (shutdown_turn st)"
proof -
  note inv = scope_invD [OF assms] and join = inv_stop_def inv_join_def stopped_upto_def
  show ?thesis
  proof (cases "s_closer st")
    case (StopEntries cause i)
    then show ?thesis
      using stop_entry_inv [OF assms StopEntries] assms
      by (auto simp: shutdown_turn_def scope_inv_def join)
  next
    case (CancelWatch cause)
    then show ?thesis using assms by (auto simp: shutdown_turn_def scope_inv_def join)
  next
    case JoinWatch
    then show ?thesis using assms by (auto simp: shutdown_turn_def scope_inv_def join split: option.split)
  next
    case JoinGate
    then show ?thesis using assms by (auto simp: shutdown_turn_def scope_inv_def join)
  next
    case JoinEntries
    then show ?thesis
      using assms by (auto simp: shutdown_turn_def scope_inv_def join list_all_length case_prod_beta)
  qed (use assms in \<open>simp_all add: shutdown_turn_def\<close>)
qed

lemma scope_step_inv:
  assumes "scope_step st st'" and "scope_inv st"
  shows "scope_inv st'"
  using assms
proof (cases rule: scope_step.cases)
  case (sc_construct i opts b g b' later cx stopped_before cx' stopped_after built)
  show ?thesis
    unfolding sc_construct(1)
    by (rule entry_changes_inv [OF assms(2) sc_construct(2, 3)])
      (simp_all add: sc_construct(5) step_construct [OF sc_construct(4)] construct_frames desired_construct)
next
  case (sc_entry i opts b b')
  note frames = entry_step_frames [OF sc_entry(4)]
  have "scope_inv ((update_entry i (\<lambda>_ _. b') st)\<lparr>s_slots := s_slots st\<rparr>)"
    by (rule entry_changes_inv [OF assms(2) sc_entry(2, 3) frames(1-4)]) (simp_all add: frames(5))
  then show ?thesis by (simp add: sc_entry(1))
qed (use scope_other_inv [OF assms(2)] Bind_inv [OF assms(2)] enterApply_inv [OF assms(2)]
    Apply_seal_inv [OF assms(2)] Apply_prepare_inv [OF assms(2)] Apply_commit_inv [OF assms(2)]
    Retry_inv [OF assms(2)] shutdown_turn_inv [OF assms(2)] in simp_all)

lemma scope_initialE:
  assumes "scope_initial st"
  obtains ctx opts norm where "resource_normalize opts = Inr norm" and "ctx_err ctx = None" and "st =
    \<lparr>s_options = norm, s_base = ctx, s_stopping = False, s_sealed = False, s_entries = [],
     s_names = [], s_gate = None, s_slots = [], s_closer = Open, s_watch = None, s_sequence = 0\<rparr>"
proof -
  from assms obtain given opts where "resource_New given opts = Inr st"
    by (auto simp: scope_initial_def)
  with that show thesis
    by (cases given; cases "resource_normalize opts") (auto simp: resource_New_def split: if_splits)
qed

interpretation scopes: transition_system scope_initial scope_step scope_inv
proof
  show "scope_inv st" if "scope_initial st" for st :: "('c, 't) scope"
    using that
  proof (rule scope_initialE)
    fix ctx opts norm
    assume norm: "resource_normalize opts = Inr norm" and st: "st =
        \<lparr>s_options = norm, s_base = ctx, s_stopping = False, s_sealed = False, s_entries = [],
         s_names = [], s_gate = None, s_slots = [], s_closer = Open, s_watch = None, s_sequence = 0\<rparr>"
    show ?thesis
      using normalize_Inr(2, 3) [OF norm]
      by (simp add: st scope_inv_def inv_gate_def inv_stop_def inv_join_def inv_declared_def inv_slots_def)
  qed
  show "scope_inv st'" if "scope_inv st" "scope_step st st'" for st st' :: "('c, 't) scope"
    using scope_step_inv [OF that(2, 1)] .
qed

end
