(* ===== verification/Scope_Behaviour.thy ===== *)
theory Scope_Behaviour
  imports Resource_Scope
begin

text \<open>
  What a scope guarantees in every reachable state: its entries are bindings in states their own system
  reaches, shutdown completes only when everything has ended, the declared bounds hold, and an
  uninterrupted \<^verbatim>\<open>Apply\<close> admits an input completely or not at all.
\<close>

section \<open>What a scope guarantees\<close>

text \<open>A scope runs its bindings correctly. In every state a scope can reach by any interleaving of
  its callers, its watch, its coordinators and its shutdown, each entry is in a state that its own
  binding system reaches from a new binding, so every guarantee of a single binding holds for every
  entry of a scope.\<close>

theorem scope_entries_genuine:
  assumes "reach scope_initial scope_step st" and "(opts, b) \<in> set (s_entries st)"
  shows "reach (binding_initial opts) (binding_step opts) b"
proof -
  obtain j where "j < length (s_entries st)" "s_entries st ! j = (opts, b)"
    using assms(2) by (auto simp: in_set_conv_nth)
  then show ?thesis
    using scope_invD(1) [OF scopes.reach_inv [OF assms(1)], of j] by (simp add: genuine_def)
qed

lemma exited_binding:
  assumes "genuine (opts, b)" and "b_exited b"
  shows "owned_gens b = []" and "live_all (b_leases b) = 0" and "b_coordinator b \<noteq> Constructing g"
proof -
  have inv: "binding_inv opts b"
    using bindings.reach_inv assms(1) by (simp add: genuine_def)
  note parts = binding_invD [OF inv]
  show "owned_gens b = []" "b_coordinator b \<noteq> Constructing g"
    using assms(2) parts(3) by (cases "b_pending b", auto simp: inv_coordinator_def owned_gens_def)+
  have "live_all (b_leases b) = sum_list (map (live (b_leases b)) (opt_list (b_active b) @ b_retired b))"
    using borrow_facts(2, 3) [OF inv] by (intro live_total)
  then show "live_all (b_leases b) = 0" using assms(2) parts(3) by (simp add: inv_coordinator_def)
qed

text \<open>C11: shutdown is complete only when everything has ended. When a reachable scope reports
  \<^verbatim>\<open>ShutdownComplete\<close>, every coordinator has exited, no binding owns a generation, no lease is
  outstanding, no \<^verbatim>\<open>Apply\<close> or \<^verbatim>\<open>Retry\<close> holds the gate, no construction holds a slot and the watch
  receiver is gone.\<close>

theorem shutdown_complete_releases:
  assumes "reach scope_initial scope_step st" and "ShutdownComplete (Some st)"
  shows "(\<forall>opts b. (opts, b) \<in> set (s_entries st) \<longrightarrow>
      b_exited b \<and> owned_gens b = [] \<and> live_all (b_leases b) = 0) \<and>
    s_gate st = None \<and> s_slots st = [] \<and> (\<forall>w. s_watch st = Some w \<longrightarrow> w_done w)"
proof -
  note inv = scope_invD [OF scopes.reach_inv [OF assms(1)]]
  have exited: "b_exited (snd (s_entries st ! j))" if "j < length (s_entries st)" for j
    using that inv(4) assms(2) by (simp add: inv_join_def ShutdownComplete_def)
  have ended: "genuine e \<and> b_exited (snd e)" if "e \<in> set (s_entries st)" for e
    using that exited inv(1) by (auto simp: in_set_conv_nth)
  have "s_slots st = []"
  proof (cases "s_slots st")
    case (Cons i rest)
    then obtain g where "i < length (s_entries st)" "b_coordinator (snd (s_entries st ! i)) = Constructing g"
      using inv(6) by (auto simp: inv_slots_def)
    then show ?thesis
      using exited_binding(3) [of "fst (s_entries st ! i)" "snd (s_entries st ! i)" g] exited inv(1) by simp
  qed
  then show ?thesis
    using inv(4) assms(2) ended exited_binding(1, 2) by (fastforce simp: inv_join_def ShutdownComplete_def)
qed

text \<open>The bounds of a scope. In every reachable scope the binding names are distinct and their
  number is at most \<^verbatim>\<open>MaxBindings\<close>, at most \<^verbatim>\<open>MaxPreparing\<close> constructions hold a slot, each for
  a different binding that is constructing, and an \<^verbatim>\<open>Apply\<close> in progress excludes further
  declarations.\<close>

theorem scope_bounds:
  assumes "reach scope_initial scope_step st"
  shows "distinct (map (\<lambda>e. bopt_name (fst e)) (s_entries st)) \<and>
    int (length (s_entries st)) \<le> opt_max_bindings (s_options st) \<and>
    distinct (s_slots st) \<and> int (length (s_slots st)) \<le> opt_max_preparing (s_options st) \<and>
    (\<forall>i. i \<in> set (s_slots st) \<longrightarrow> (\<exists>g. b_coordinator (snd (s_entries st ! i)) = Constructing g)) \<and>
    (\<forall>n k. s_gate st = Some (Preparing n k) \<longrightarrow> n = length (s_entries st) \<and> s_sealed st)"
  using scope_invD(2, 5, 6) [OF scopes.reach_inv [OF assms]]
  by (auto simp: inv_declared_def inv_slots_def inv_gate_def)

section \<open>Apply\<close>

text \<open>The sequence stays a 64 bit number.\<close>

lemma inc64_le [simp]: "inc64 n \<le> MaxUint64"
  by (simp add: inc64_def MaxUint64_def)

lemma shutdown_turn_sequence [simp]: "s_sequence (shutdown_turn st) = s_sequence st"
  by (simp add: shutdown_turn_def split: closer.split)

lemma retry_sequence:
  "retry_locked env opts closing ctx sequence b = Inr (sequence', version, b') \<Longrightarrow>
   sequence' \<le> MaxUint64"
  by (auto simp: retry_locked_def Let_def split: if_splits option.splits prod.splits)

interpretation sequences: transition_system scope_initial scope_step "\<lambda>st. s_sequence st \<le> MaxUint64"
proof
  show "s_sequence st \<le> MaxUint64" if "scope_initial st" for st :: "('c, 't) scope"
    using that by (auto elim: scope_initialE)
  show "s_sequence st' \<le> MaxUint64" if "s_sequence st \<le> MaxUint64" "scope_step st st'"
    for st st' :: "('c, 't) scope"
    using that(2, 1)
  proof cases
    case (sc_retry i ctx)
    then show ?thesis
      using that(1) by (auto simp: Retry_locked_def leave_def dest: retry_sequence split: prod.split sum.split)
  qed (auto simp: Bind_def enterApply_def Apply_seal_def Apply_prepare_def Apply_commit_def shutdown_def
      scope_Watch_def leave_def Let_def
      split: option.splits sum.splits prod.splits if_splits gate_choice.splits)
qed

text \<open>Preparing only ever fills in plans, which leaving the gate drops.\<close>

lemma leave_prepared [simp]:
  "leave ((update_entry i (\<lambda>_ b. b\<lparr>b_prepared := p\<rparr>) st)\<lparr>s_gate := g\<rparr>) = leave st"
proof -
  have "s_entries (leave ((update_entry i (\<lambda>_ b. b\<lparr>b_prepared := p\<rparr>) st)\<lparr>s_gate := g\<rparr>)) =
      s_entries (leave st)"
    by (rule nth_equalityI) (simp_all add: leave_def map_entries_nth update_entry_nth)
  then show ?thesis by (simp add: leave_def map_entries_def update_entry_def)
qed

lemma leave_gate [simp]: "leave (st\<lparr>s_sealed := x, s_gate := g\<rparr>) = (leave st)\<lparr>s_sealed := x\<rparr>"
  by (simp add: leave_def map_entries_def)

lemma leave_free:
  assumes "s_gate st = None" and "\<forall>j<length (s_entries st). b_prepared (snd (s_entries st ! j)) = None"
  shows "leave st = st"
proof -
  have "map (\<lambda>(opts, b). (opts, b\<lparr>b_prepared := None\<rparr>)) (s_entries st) = s_entries st"
    by (rule nth_equalityI) (use assms(2) in \<open>auto split: prod.split\<close>)
  then show ?thesis using assms(1) by (simp add: leave_def map_entries_def)
qed

lemma prepare_loop_cases:
  assumes "scope_inv st" and "s_gate st = Some (Preparing n k)" and "k \<le> n"
    and "prepare_loop ctx view n [k..<n] st = (err, st')"
  shows "(err \<noteq> None \<longrightarrow> st' = leave st) \<and>
    (err = None \<longrightarrow> scope_inv st' \<and> s_gate st' = Some (Preparing n n) \<and> leave st' = leave st)"
  using assms
proof (induction "n - k" arbitrary: k st)
  case 0
  then show ?case by simp
next
  case (Suc d)
  then have k: "k < n" and rest: "[k..<n] = k # [Suc k..<n]" by (simp_all add: upt_conv_Cons)
  obtain e st1 where one: "Apply_prepare ctx view n k st = (e, st1)" by fastforce
  show ?case
  proof (cases e)
    case (Some x)
    then have "st1 = leave st" using one by (auto simp: Apply_prepare_def split: prod.splits if_splits sum.splits)
    then show ?thesis using Suc.prems(4) one Some unfolding rest by auto
  next
    case None
    have inv: "scope_inv st1" using Apply_prepare_inv [OF Suc.prems(1, 2) k] one by (metis snd_conv)
    from one None have "s_gate st1 = Some (Preparing n (Suc k))" "leave st1 = leave st"
      by (auto simp: Apply_prepare_def split: prod.splits if_splits sum.splits)
    then show ?thesis
      using Suc.hyps(1) [of "Suc k" st1] Suc.hyps(2) Suc.prems(4) inv one None k unfolding rest by simp
  qed
qed

lemma commit_entry_version:
  assumes "genuine (opts, b)" and "b_prepared b \<noteq> None"
  shows "fst (commit_entry env opts b) = b_version (snd (commit_entry env opts b))"
proof -
  obtain plan where plan: "b_prepared b = Some plan" using assms(2) by blast
  have inv: "inv_plan b"
    using binding_invD(5) [OF bindings.reach_inv] assms(1) by (auto simp: genuine_def)
  show ?thesis
  proof (cases plan)
    case (KeepTarget v)
    then show ?thesis using inv plan by (simp add: commit_entry_def inv_plan_def)
  next
    case (InstallTarget previous active val equal)
    then show ?thesis by (simp add: commit_entry_def plan Let_def split: option.split)
  qed
qed

lemma Apply_commit_receipt:
  assumes "scope_inv st" and "s_gate st = Some (Preparing n n)"
    and "Apply_commit ctx st = (Inr update, st')" and "leave st = before"
    and "s_sequence before \<le> MaxUint64"
  shows "up_sequence update = Suc (s_sequence before)" and "s_sequence st' = Suc (s_sequence before)"
    and "s_sealed st' = s_sealed before" and "s_gate st' = None"
    and "up_targets update = map (\<lambda>(opts, b). (bopt_name opts, b_version b)) (s_entries st')"
    and "map fst (s_entries st') = map fst (s_entries before)"
proof -
  let ?done = "map_entries (\<lambda>opts b. snd (commit_entry (env_of st) opts b))
      (st\<lparr>s_sequence := inc64 (s_sequence st)\<rparr>)"
  have below: "s_sequence st \<noteq> MaxUint64" and st': "st' = leave ?done"
    and update: "update = \<lparr>up_sequence = inc64 (s_sequence st), up_scope = opt_name (s_options st),
      up_targets = map (\<lambda>(opts, b). (bopt_name opts, fst (commit_entry (env_of st) opts b))) (s_entries st)\<rparr>"
    using assms(3) by (auto simp: Apply_commit_def Let_def split: if_splits)
  have same: "s_sequence before = s_sequence st" "s_sealed before = s_sealed st"
    "map fst (s_entries before) = map fst (s_entries st)"
    unfolding assms(4) [symmetric] by (simp_all add: leave_def)
  have "inc64 (s_sequence st) = Suc (s_sequence st)" using below assms(5) same(1) by simp
  then show "up_sequence update = Suc (s_sequence before)" "s_sequence st' = Suc (s_sequence before)"
    "s_sealed st' = s_sealed before" "s_gate st' = None"
    "map fst (s_entries st') = map fst (s_entries before)"
    by (simp_all add: update st' same leave_def)
  note inv = scope_invD [OF assms(1)]
  show "up_targets update = map (\<lambda>(opts, b). (bopt_name opts, b_version b)) (s_entries st')"
  proof (rule nth_equalityI)
    fix j
    assume "j < length (up_targets update)"
    then have j: "j < length (s_entries st)" by (simp add: update)
    obtain opts b where e: "s_entries st ! j = (opts, b)" by fastforce
    have "b_prepared b \<noteq> None" using inv(2) assms(2) j e by (auto simp: inv_gate_def)
    then have "fst (commit_entry (env_of st) opts b) = b_version (snd (commit_entry (env_of st) opts b))"
      using inv(1) [OF j] e by (intro commit_entry_version) simp_all
    then show "up_targets update ! j =
        map (\<lambda>(opts, b). (bopt_name opts, b_version b)) (s_entries st') ! j"
      using j e by (simp add: update st' leave_def map_entries_nth)
  qed (simp add: update st' leave_def)
qed

text \<open>An uninterrupted \<^verbatim>\<open>Apply\<close> fails at the gate or for a nil view, or runs the preparing loop and
  then commits.\<close>

lemma Apply_runs:
  assumes "scope_inv st" and "s_gate st = None" and "Apply (Some st) ctx view = (result, Some st')"
  obtains (refused) err where "result = Inl err" "st' = st"
  | (prepared) err prepared where "scope_inv prepared \<or> err \<noteq> None"
      "err \<noteq> None \<Longrightarrow> prepared = st\<lparr>s_sealed := True\<rparr>"
      "err = None \<Longrightarrow> s_gate prepared = Some (Preparing (length (s_entries st)) (length (s_entries st)))"
      "err = None \<Longrightarrow> leave prepared = st\<lparr>s_sealed := True\<rparr>"
      "(result, st') = (case err of Some e \<Rightarrow> (Inl e, prepared) | None \<Rightarrow> Apply_commit (the ctx) prepared)"
proof -
  have free: "leave st = st"
    using scope_invD(2) [OF assms(1)] assms(2) by (intro leave_free) (simp_all add: inv_gate_def)
  let ?entered = "st\<lparr>s_gate := Some Entered\<rparr>" and ?n = "length (s_entries st)"
  let ?sealed = "st\<lparr>s_sealed := True, s_gate := Some (Preparing ?n 0)\<rparr>"
  obtain err prep where loop: "prepare_loop (the ctx) view ?n [0..<?n] ?sealed = (err, prep)"
    by fastforce
  show thesis
  proof (cases "fst (enterApply ctx (stopped st) TakeGate st) = None \<and> view \<noteq> None")
    case False
    have "leave ?entered = st" using free by (simp add: leave_def map_entries_def)
    with False have "(\<exists>err. result = Inl err) \<and> st' = st"
      using assms(3) by (auto simp: Apply_def enterApply_def Apply_seal_def Let_def split: option.splits if_splits)
    then show thesis using refused by blast
  next
    case True
    then have entered: "enterApply ctx (stopped st) TakeGate st = (None, ?entered)"
      using assms(2) by (auto simp: enterApply_def Let_def split: option.splits if_splits)
    have "scope_inv ?entered" using enterApply_inv [OF assms(1, 2)] entered by (metis snd_conv)
    then have "scope_inv ?sealed"
      using Apply_seal_inv [of ?entered view] True by (simp add: Apply_seal_def)
    from prepare_loop_cases [OF this _ _ loop]
    show thesis
      using assms(3) loop True
      by (intro prepared [of prep err])
        (auto simp: free Apply_def entered Apply_seal_def split: option.splits prod.splits)
  qed
qed

text \<open>C12: \<^verbatim>\<open>Apply\<close> admits an input completely or not at all. Called on a reachable scope whose
  gate is free, and not interrupted, a failed \<^verbatim>\<open>Apply\<close> changes nothing but the seal; a successful
  one increases the sequence by one, keeps the declarations, seals them, frees the gate, and its receipt
  names, for every binding in declaration order, the target that is then current.\<close>

theorem Apply_all_or_nothing:
  assumes "reach scope_initial scope_step st" and "s_gate st = None"
    and "Apply (Some st) ctx view = (result, Some st')"
  shows "(\<forall>err. result = Inl err \<longrightarrow> (\<exists>sealed. st' = st\<lparr>s_sealed := sealed\<rparr>)) \<and>
    (\<forall>update. result = Inr update \<longrightarrow>
       up_sequence update = Suc (s_sequence st) \<and> s_sequence st' = Suc (s_sequence st) \<and>
       s_sealed st' \<and> s_gate st' = None \<and>
       up_targets update = map (\<lambda>(opts, b). (bopt_name opts, b_version b)) (s_entries st') \<and>
       map fst (s_entries st') = map fst (s_entries st))"
proof -
  have inv: "scope_inv st" by (rule scopes.reach_inv [OF assms(1)])
  from inv assms(2, 3) show ?thesis
  proof (cases rule: Apply_runs)
    case (refused err)
    then show ?thesis by (auto intro: exI [of _ "s_sealed st"])
  next
    case (prepared err prep)
    show ?thesis
    proof (cases "err = None \<and> (\<exists>update. result = Inr update)")
      case False
      then have "st' = st\<lparr>s_sealed := True\<rparr>"
        using prepared(2, 4, 5) by (auto simp: Apply_commit_def Let_def split: option.splits if_splits)
      then show ?thesis using False prepared(5) by (auto split: option.splits)
    next
      case True
      then obtain update where "result = Inr update" by blast
      then show ?thesis
        using Apply_commit_receipt [of prep _ "the ctx" update st' "st\<lparr>s_sealed := True\<rparr>"] prepared True
          sequences.reach_inv [OF assms(1)] by simp
    qed
  qed
qed

section \<open>An execution\<close>

text \<open>A scope with one fixed binding, applied once in one run and shut down unused in another.\<close>

definition ex_decl :: "nat Binding" where
  "ex_decl = \<lparr>decl_name = ''db'', decl_policy = Fixed, decl_select = Some (\<lambda>_. Inr 7),
     decl_clone = Some id, decl_equal = Some (=), decl_build = True, decl_max_generations = 0,
     decl_max_borrowers = 1\<rparr>"

definition ex_bound :: "(nat, nat) scope" where
  "ex_bound = \<lparr>s_options = \<lparr>opt_name = [], opt_max_bindings = 64, opt_max_preparing = 4,
       opt_cleanup_timeout = 5 * 10 ^ 9\<rparr>, s_base = live_ctx, s_stopping = False, s_sealed = False,
     s_entries = [(ex_opts, new_binding)], s_names = [''db''], s_gate = None, s_slots = [],
     s_closer = Open, s_watch = None, s_sequence = 0\<rparr>"

lemma validName_db: "validName ''db''"
  by (simp add: validName_def runes_def resource_name_rune_def is_lower_def)

lemma ex_bound_reached: "reach scope_initial scope_step ex_bound"
proof (rule reach_step)
  let ?empty = "ex_bound\<lparr>s_entries := [], s_names := []\<rparr>"
  have "resource_New (Some live_ctx) \<lparr>opt_name = [], opt_max_bindings = 0, opt_max_preparing = 0,
      opt_cleanup_timeout = 0\<rparr> = Inr ?empty"
    by (simp add: resource_New_def resource_normalize_def default_to_def live_ctx_def ex_bound_def)
  then show "reach scope_initial scope_step ?empty"
    by (intro reach_initial) (auto simp: scope_initial_def)
  have "check_binding [] ex_decl = Inr ex_opts"
    by (simp add: check_binding_def ex_decl_def ex_opts_def default_to_def validName_db)
  then have "Bind (Some ?empty) ex_decl = (Inr 0, Some ex_bound)"
    by (simp add: Bind_def ex_bound_def ex_opts_def live_ctx_def)
  then show "scope_step ?empty ex_bound" by (rule sc_bind)
qed

definition ex_closing :: "(nat, nat) scope" where
  "ex_closing = (shutdown_turn ^^ 5) (shutdown None ex_bound)"

lemma turns_reached:
  "reach scope_initial scope_step st \<Longrightarrow> reach scope_initial scope_step ((shutdown_turn ^^ n) st)"
  by (induction n) (auto intro: reach_step [where step = scope_step, OF _ sc_turn])

lemma ex_closing_eq: "ex_closing = ex_bound\<lparr>s_stopping := True, s_closer := JoinEntries,
    s_entries := [(ex_opts, new_binding\<lparr>b_stopping := True, b_wake := True, b_notices := 1\<rparr>)]\<rparr>"
  by (simp add: ex_closing_def shutdown_def shutdown_turn_def ex_bound_def eval_nat_numeral update_entry_def
      stop_def signal_def new_binding_def)

definition ex_complete :: "(nat, nat) scope" where
  "ex_complete = shutdown_turn (update_entry 0
     (\<lambda>_ _. run_section (env_of ex_closing) ex_opts (snd (s_entries ex_closing ! 0))) ex_closing)"

lemma ex_complete_reached: "reach scope_initial scope_step ex_complete"
  unfolding ex_complete_def
proof (rule reach_step [where step = scope_step, OF reach_step sc_turn])
  show "reach scope_initial scope_step ex_closing"
    unfolding ex_closing_def by (rule turns_reached [OF reach_step [OF ex_bound_reached sc_shutdown]])
  have "entry_step (env_of ex_closing) ex_opts (snd (s_entries ex_closing ! 0))
      (run_section (env_of ex_closing) ex_opts (snd (s_entries ex_closing ! 0)))"
    by (rule en_run) (simp add: ex_closing_eq new_binding_def)
  then show "scope_step ex_closing (update_entry 0
      (\<lambda>_ _. run_section (env_of ex_closing) ex_opts (snd (s_entries ex_closing ! 0))) ex_closing)"
    by (intro sc_entry) (simp_all add: ex_closing_eq)
qed

theorem scope_entries_genuine_witness:
  "reach (binding_initial ex_opts) (binding_step ex_opts) (new_binding :: (nat, nat) binding)"
  by (rule scope_entries_genuine [OF ex_bound_reached]) (simp add: ex_bound_def)

theorem shutdown_complete_releases_witness:
  "ShutdownComplete (Some ex_complete) \<and> s_slots ex_complete = [] \<and>
   (\<exists>b. s_entries ex_complete = [(ex_opts, b)] \<and> b_exited b \<and> owned_gens b = [])"
proof -
  have complete: "ShutdownComplete (Some ex_complete)" "\<exists>b. s_entries ex_complete = [(ex_opts, b)]"
    by (simp_all add: ShutdownComplete_def ex_complete_def ex_closing_eq ex_bound_def shutdown_turn_def
        update_entry_def run_section_def new_binding_def)
  from shutdown_complete_releases [OF ex_complete_reached complete(1)] complete show ?thesis by auto
qed

theorem scope_bounds_witness:
  "distinct (map (\<lambda>e. bopt_name (fst e)) (s_entries ex_bound)) \<and>
   int (length (s_entries ex_bound)) \<le> opt_max_bindings (s_options ex_bound)"
  using scope_bounds [OF ex_bound_reached] by simp

theorem Apply_all_or_nothing_witness:
  "let view = Some settings_example;
       applied = Apply (Some ex_bound) (Some live_ctx) view
   in \<exists>update st'. applied = (Inr update, Some st') \<and> up_sequence update = 1 \<and>
        up_targets update = map (\<lambda>(opts, b). (bopt_name opts, b_version b)) (s_entries st') \<and>
        Apply (Some ex_bound) (Some live_ctx) None =
          (fst (Apply (Some ex_bound) (Some live_ctx) None), Some ex_bound)"
proof -
  obtain update st' where ok: "Apply (Some ex_bound) (Some live_ctx) (Some settings_example) = (Inr update, Some st')"
    by (simp add: Apply_def enterApply_def Apply_seal_def Apply_prepare_def Apply_commit_def ex_bound_def
        prepare_def new_binding_def ex_opts_def stopped_def live_ctx_def equal_to_def MaxUint64_def
        update_entry_def Let_def)
  obtain err st2 where failed: "Apply (Some ex_bound) (Some live_ctx) None = (Inl err, Some st2)" "s_sealed st2 = False"
    by (simp add: Apply_def enterApply_def Apply_seal_def ex_bound_def stopped_def live_ctx_def leave_def)
  have gate: "s_gate ex_bound = None" "s_sequence ex_bound = 0" "ex_bound\<lparr>s_sealed := False\<rparr> = ex_bound"
    by (simp_all add: ex_bound_def)
  obtain sealed where "st2 = ex_bound\<lparr>s_sealed := sealed\<rparr>"
    using Apply_all_or_nothing [OF ex_bound_reached gate(1) failed(1)] by auto
  then have "st2 = ex_bound" using failed(2) gate(3) by simp
  then show ?thesis
    using Apply_all_or_nothing [OF ex_bound_reached gate(1) ok] ok failed(1) gate(2) by simp
qed

end
