(* ===== verification/Resource_Handles.thy ===== *)
theory Resource_Handles
  imports Scope_Behaviour
begin

text \<open>
  The handles users hold: \<^verbatim>\<open>Ref\<close> of \<^verbatim>\<open>resource/v1/lease.go\<close>, which forwards to its binding
  and refuses when it is zero, and the renderings of every handle type in \<^verbatim>\<open>diagnostics.go\<close>.
\<close>

section \<open>References\<close>

definition Ref_Acquire ::
  "scope_env \<Rightarrow> 'c binding_options \<Rightarrow> go_ctx option \<Rightarrow> go_ctx \<Rightarrow> ('c, 't) binding option \<Rightarrow>
     (gerr + nat) \<times> ('c, 't) binding option" where
  "Ref_Acquire env opts early late ref =
     (case ref of
        None \<Rightarrow> (Inl (resource_fail resource_ErrScope ''acquire'' [] no_details []), None)
      | Some b \<Rightarrow> (case acquire env opts early late b of (result, b') \<Rightarrow> (result, Some b')))"

definition Ref_Inspect :: "'c binding_options \<Rightarrow> ('c, 't) binding option \<Rightarrow> gerr + Status" where
  "Ref_Inspect opts ref =
     (case ref of
        None \<Rightarrow> Inl (resource_fail resource_ErrScope ''inspect'' [] no_details [])
      | Some b \<Rightarrow> Inr (binding_inspect opts b))"

text \<open>\<^verbatim>\<open>Retry\<close> as one uninterrupted call: \<open>ref\<close> is the index of its binding in the scope.\<close>

definition Ref_Retry ::
  "go_ctx option \<Rightarrow> nat option \<Rightarrow> ('c, 't) scope \<Rightarrow> (gerr + Update) \<times> ('c, 't) scope" where
  "Ref_Retry ctx ref st =
     (case ref of
        None \<Rightarrow> (Inl (resource_fail resource_ErrScope ''retry'' [] no_details []), st)
      | Some i \<Rightarrow>
          (case enterApply ctx (stopped st) TakeGate st of
             (Some err, st') \<Rightarrow> (Inl err, st')
           | (None, entered) \<Rightarrow> Retry_locked (the ctx) i entered))"

definition lease_Generation :: "nat \<Rightarrow> ('c, 't) binding \<Rightarrow> nat" where
  "lease_Generation l st = (if l < length (b_leases st) then lease_generation (b_leases st ! l) else 0)"

section \<open>Rendering\<close>

text \<open>What a handle type's methods return; \<^verbatim>\<open>Format\<close> writes a string chosen by the verb.\<close>

record handle_methods =
  hm_format :: "rune \<Rightarrow> string"
  hm_string :: string
  hm_gostring :: string
  hm_logvalue :: log_value
  hm_marshal :: "gerr + string"
  hm_unmarshal :: "string \<Rightarrow> gerr option"

text \<open>\<^verbatim>\<open>%q\<close> of a name without characters that need escaping.\<close>

definition formatHandle :: "string \<Rightarrow> rune \<Rightarrow> string" where
  "formatHandle name verb = (if verb = 0x71 then [CHR 0x22] @ name @ [CHR 0x22] else name)"

datatype resource_handle =
    HScope | HRef | HLease | HBinding | HInstance | HUpdate | HWatch | HObservation | HStatus | HReleaseResult

definition opaque_methods :: "string \<Rightarrow> handle_methods" where
  "opaque_methods name =
     \<lparr>hm_format = formatHandle name, hm_string = name, hm_gostring = name,
      hm_logvalue = LogString name,
      hm_marshal = Inl (resource_fail resource_ErrSerialization ''marshal'' [] no_details []),
      hm_unmarshal = (\<lambda>_. Some (resource_fail resource_ErrSerialization ''unmarshal'' [] no_details []))\<rparr>"

fun resource_methods :: "resource_handle \<Rightarrow> handle_methods" where
  "resource_methods HScope = opaque_methods ''resource.Scope''"
| "resource_methods HRef = opaque_methods ''resource.Ref''"
| "resource_methods HLease = opaque_methods ''resource.Lease''"
| "resource_methods HBinding = opaque_methods ''resource.Binding''"
| "resource_methods HInstance = opaque_methods ''resource.Instance''"
| "resource_methods HUpdate = opaque_methods ''resource.Update''"
| "resource_methods HWatch = opaque_methods ''resource.Watch''"
| "resource_methods HObservation = opaque_methods ''resource.Observation''"
| "resource_methods HStatus = opaque_methods ''resource.Status''"
| "resource_methods HReleaseResult = opaque_methods ''resource.ReleaseResult''"

section \<open>A retried target\<close>

lemma blocked_update:
  "blocked_of (update_gen h (\<lambda>gen. gen\<lparr>gen_blocked := False\<rparr>) b) g \<longleftrightarrow> blocked_of b g \<and> h \<noteq> g"
  by (auto simp: blocked_of_def split: option.splits)

lemma unblock_clears:
  "blocked_of (fold (\<lambda>g. update_gen g (\<lambda>gen. gen\<lparr>gen_blocked := False\<rparr>)) gs b) g \<longleftrightarrow>
     blocked_of b g \<and> g \<notin> set gs"
  by (induction gs arbitrary: b) (auto simp: blocked_update)

lemma blocked_after_unblock: "g \<in> set (b_retired b) \<Longrightarrow> \<not> blocked_of (signal (unblock b)) g"
  using unblock_clears [of "b_retired b" b g] by (simp add: unblock_def blocked_of_def)

lemma prepared_frame:
  "target_result v (b\<lparr>b_prepared := p\<rparr>) = target_result v b"
  "blocked_of (b\<lparr>b_prepared := p\<rparr>) g = blocked_of b g"
  by (simp_all add: target_result_def blocked_of_def)

lemma retry_result:
  assumes "binding_inv opts b" and "b_desired b = Some d" and "sequence \<le> MaxUint64"
    and "retry_locked env opts closing ctx sequence b = Inr (sequence', version, b')"
    and "failed = (fst (target_result (sel_version d) b) \<and> snd (target_result (sel_version d) b) \<noteq> None \<and>
      b_pending b = None)"
  shows "sequence' = Suc sequence \<and> version = b_version b' \<and>
    b_version b' = (if failed then Suc (b_version b) else b_version b) \<and>
    b_desired b' = Some (d\<lparr>sel_version := b_version b'\<rparr>) \<and>
    (failed \<longrightarrow> b_wanted b' \<and> target_result (b_version b') b' = (False, None)) \<and>
    (\<forall>g. g \<in> set (b_retired b') \<longrightarrow> \<not> blocked_of b' g)"
proof -
  note tgt = inv_targetD [OF binding_invD(4) [OF assms(1)]]
  have v: "sel_version d = b_version b" by (rule tgt(4) [OF assms(2)])
  define renewed where "renewed = (newTarget (inc64 (b_version b)) b)
    \<lparr>b_version := inc64 (b_version b), b_desired := Some (d\<lparr>sel_version := inc64 (b_version b)\<rparr>),
     b_wanted := True, b_lastError := None\<rparr>"
  have seq: "sequence' = Suc sequence" "failed \<longrightarrow> b_version b \<noteq> MaxUint64"
    and b': "b' = signal (unblock (if failed then renewed else b))"
      "version = (if failed then inc64 (b_version b) else b_version b)"
    using assms(3, 4) unfolding retry_locked_def assms(2, 5) option.case Let_def renewed_def
    by (auto split: if_splits prod.splits simp: v)
  have blocked: "\<forall>g. g \<in> set (b_retired b') \<longrightarrow> \<not> blocked_of b' g"
    using blocked_after_unblock [of _ "if failed then renewed else b"] by (simp add: b'(1))
  have "inc64 (b_version b) = Suc (b_version b)" if failed
    using that seq(2) tgt(2) by simp
  then show ?thesis
    using seq(1) blocked b' assms(2) v
    by (auto simp: renewed_def target_result_def newTarget_def)
qed

text \<open>C14: \<^verbatim>\<open>Retry\<close> renews a failed target exactly once. On a reachable scope with a free gate, a
  successful uninterrupted \<^verbatim>\<open>Retry\<close> of a binding increases the sequence by one and frees the gate;
  if the binding's current target had failed and nothing is being constructed, the receipt names the
  next version and the binding wants it, with the same selection; otherwise the receipt names the
  current target and the binding's targets, selection and version are unchanged. Every held back release
  of the binding is allowed again.\<close>

theorem Retry_renews_failed_target:
  assumes "reach scope_initial scope_step st" and "s_gate st = None"
    and "i < length (s_entries st)" and "s_entries st ! i = (opts, b)"
    and "Ref_Retry ctx (Some i) st = (Inr update, st')" and "s_entries st' ! i = (opts', b')"
    and "b_desired b = Some d"
    and "failed = (fst (target_result (sel_version d) b) \<and> snd (target_result (sel_version d) b) \<noteq> None \<and>
      b_pending b = None)"
  shows "up_sequence update = Suc (s_sequence st) \<and> s_gate st' = None \<and>
    up_targets update = [(bopt_name opts, b_version b')] \<and>
    b_version b' = (if failed then Suc (b_version b) else b_version b) \<and>
    b_desired b' = Some (d\<lparr>sel_version := b_version b'\<rparr>) \<and>
    (failed \<longrightarrow> b_wanted b' \<and> target_result (b_version b') b' = (False, None)) \<and>
    (\<forall>g. g \<in> set (b_retired b') \<longrightarrow> \<not> blocked_of b' g)"
proof -
  have inv: "scope_inv st" by (rule scopes.reach_inv [OF assms(1)])
  have "binding_inv opts b"
    using bindings.reach_inv scope_invD(1) [OF inv assms(3)] assms(4) by (simp add: genuine_def)
  moreover have "s_sequence st \<le> MaxUint64" by (rule sequences.reach_inv [OF assms(1)])
  moreover obtain env closing ctx' sequence version b1 where
    r: "retry_locked env opts closing ctx' (s_sequence st) b = Inr (sequence, version, b1)"
    and st': "st' = leave (update_entry i (\<lambda>_ _. b1) (st\<lparr>s_gate := Some Entered, s_sequence := sequence\<rparr>))"
    and update: "up_sequence update = sequence" "up_targets update = [(bopt_name opts, version)]"
    using assms(4, 5)
    by (auto simp: Ref_Retry_def enterApply_def Let_def Retry_locked_def
        split: option.splits if_splits sum.splits prod.splits)
  moreover have "b' = b1\<lparr>b_prepared := None\<rparr>" "s_gate st' = None"
    using assms(3, 6) by (simp_all add: st' leave_def map_entries_nth update_entry_nth)
  ultimately show ?thesis
    using retry_result [OF _ assms(7) _ r assms(8)]
    by (cases failed) (auto simp: prepared_frame)
qed

text \<open>An uninterrupted \<^verbatim>\<open>Apply\<close> is a run of the scope's steps.\<close>

lemma prepare_loop_reached:
  assumes "reach scope_initial scope_step st" and "s_gate st = Some (Preparing n k)" and "k \<le> n"
    and "prepare_loop ctx view n [k..<n] st = (err, st')"
  shows "reach scope_initial scope_step st' \<and> (err = None \<longrightarrow> s_gate st' = Some (Preparing n n))"
  using assms
proof (induction "n - k" arbitrary: k st)
  case 0
  then show ?case by simp
next
  case (Suc d)
  then have k: "k < n" and rest: "[k..<n] = k # [Suc k..<n]" by (simp_all add: upt_conv_Cons)
  obtain e st1 where one: "Apply_prepare ctx view n k st = (e, st1)" by fastforce
  have st1: "reach scope_initial scope_step st1"
    using reach_step [OF Suc.prems(1) sc_prepare [OF Suc.prems(2) k]] one by (metis snd_conv)
  show ?case
  proof (cases e)
    case None
    then have "s_gate st1 = Some (Preparing n (Suc k))"
      using one by (auto simp: Apply_prepare_def split: prod.splits if_splits sum.splits)
    then show ?thesis
      using Suc.hyps(1) [of "Suc k" st1] Suc.hyps(2) Suc.prems(4) st1 one None k unfolding rest by simp
  qed (use Suc.prems(4) st1 one in \<open>auto simp: rest\<close>)
qed

lemma Apply_reached:
  assumes "reach scope_initial scope_step st" and "s_gate st = None"
    and "Apply (Some st) ctx view = (result, Some st')"
  shows "reach scope_initial scope_step st'"
proof -
  obtain err1 entered where enter: "enterApply ctx (stopped st) TakeGate st = (err1, entered)" by fastforce
  have r1: "reach scope_initial scope_step entered"
    using reach_step [OF assms(1) sc_enter [OF assms(2)]] enter by (metis snd_conv)
  obtain err2 sealed where seal: "Apply_seal view entered = (err2, sealed)" by fastforce
  obtain err3 prepared where loop: "prepare_loop (the ctx) view (length (s_entries sealed))
      [0..<length (s_entries sealed)] sealed = (err3, prepared)" by fastforce
  show ?thesis
  proof (cases err1)
    case (Some e)
    then show ?thesis using assms(3) r1 enter by (simp add: Apply_def)
  next
    case ok: None
    then have gate: "s_gate entered = Some Entered"
      using enter by (auto simp: enterApply_def Let_def split: option.splits if_splits)
    have r2: "reach scope_initial scope_step sealed"
      using reach_step [OF r1 sc_seal [OF gate]] seal by (metis snd_conv)
    show ?thesis
    proof (cases err2)
      case (Some e)
      then show ?thesis using assms(3) ok r2 enter seal by (simp add: Apply_def)
    next
      case ok2: None
      then have "s_gate sealed = Some (Preparing (length (s_entries sealed)) 0)"
        using seal by (auto simp: Apply_seal_def split: if_splits)
      note r3 = prepare_loop_reached [OF r2 this _ loop]
      obtain outcome st2 where commit: "Apply_commit (the ctx) prepared = (outcome, st2)" by fastforce
      have "err3 = None \<Longrightarrow> reach scope_initial scope_step st2"
        using reach_step [where step = scope_step, OF _ sc_commit] r3 commit by (metis le0 snd_conv)
      then show ?thesis
        using assms(3) ok ok2 enter seal loop commit r3 by (simp add: Apply_def split: option.splits)
    qed
  qed
qed

theorem Retry_renews_failed_target_witness:
  "let applied = the (snd (Apply (Some ex_bound) (Some live_ctx) (Some settings_example)))
   in \<exists>update st'. Ref_Retry (Some live_ctx) (Some 0) applied = (Inr update, st') \<and>
        up_sequence update = 2 \<and> up_targets update = [(''db'', 1)]"
proof -
  obtain result applied where ok: "Apply (Some ex_bound) (Some live_ctx) (Some settings_example) = (result, Some applied)"
    and applied: "s_entries applied = [(ex_opts, ex_wanted)]" "s_gate applied = None" "s_sequence applied = 1"
      "s_base applied = live_ctx" "\<not> s_stopping applied" "s_options applied = s_options ex_bound"
    by (simp add: Apply_def enterApply_def Apply_seal_def Apply_prepare_def Apply_commit_def ex_bound_def
        prepare_def new_binding_def ex_opts_def stopped_def live_ctx_def equal_to_def MaxUint64_def
        update_entry_def Let_def commit_entry_def ex_wanted_eq signal_def newTarget_def leave_def
        map_entries_def inc64_def)
  have reached: "reach scope_initial scope_step applied"
    using Apply_reached [OF ex_bound_reached _ ok] by (simp add: ex_bound_def)
  obtain update st' where r: "Ref_Retry (Some live_ctx) (Some 0) applied = (Inr update, st')"
    by (simp add: Ref_Retry_def enterApply_def Retry_locked_def retry_locked_def applied stopped_def
        live_ctx_def ex_wanted_eq new_binding_def target_result_def MaxUint64_def Let_def)
  obtain opts' b' where "s_entries st' ! 0 = (opts', b')" by fastforce
  from Retry_renews_failed_target [OF reached applied(2) _ _ r this, of ex_opts ex_wanted
      "\<lparr>sel_value = 7, sel_version = 1\<rparr>" False]
  show ?thesis
    using r ok by (simp add: applied ex_wanted_eq new_binding_def target_result_def ex_opts_def)
qed

end
