(* ===== verification/Operation_Options.thy ===== *)
theory Operation_Options
  imports Resource_Handles
begin

text \<open>
  The declarations, options and requests of \<^verbatim>\<open>adapters/v1\<close>: \<^verbatim>\<open>definitions.go\<close>,
  \<^verbatim>\<open>error.go\<close> and \<^verbatim>\<open>options.go\<close>.
\<close>

section \<open>Declarations\<close>

abbreviation operation_ErrOptions :: code where
  "operation_ErrOptions \<equiv> compose_code FacilityOperation 0x0001"

abbreviation operation_ErrHandle :: code where
  "operation_ErrHandle \<equiv> compose_code FacilityOperation 0x0002"

abbreviation operation_ErrClosed :: code where
  "operation_ErrClosed \<equiv> compose_code FacilityOperation 0x0003"

abbreviation operation_ErrLimit :: code where
  "operation_ErrLimit \<equiv> compose_code FacilityOperation 0x0004"

abbreviation operation_ErrWait :: code where
  "operation_ErrWait \<equiv> compose_code FacilityOperation 0x0005"

abbreviation operation_ErrRequest :: code where
  "operation_ErrRequest \<equiv> compose_code FacilityOperation 0x0006"

abbreviation operation_ErrOutcome :: code where
  "operation_ErrOutcome \<equiv> compose_code FacilityOperation 0x0007"

abbreviation operation_ErrSettled :: code where
  "operation_ErrSettled \<equiv> compose_code FacilityOperation 0x0008"

abbreviation operation_ErrReleased :: code where
  "operation_ErrReleased \<equiv> compose_code FacilityOperation 0x0009"

abbreviation operation_ErrPending :: code where
  "operation_ErrPending \<equiv> compose_code FacilityOperation 0x000A"

abbreviation operation_ErrEvidence :: code where
  "operation_ErrEvidence \<equiv> compose_code FacilityOperation 0x000B"

abbreviation operation_ErrOperation :: code where
  "operation_ErrOperation \<equiv> compose_code FacilityOperation 0x000C"

abbreviation operation_ErrSource :: code where
  "operation_ErrSource \<equiv> compose_code FacilityOperation 0x000D"

abbreviation operation_ErrSerialization :: code where
  "operation_ErrSerialization \<equiv> compose_code FacilityOperation 0x000E"

definition operation_text :: "code \<Rightarrow> string \<times> string \<times> string" where
  "operation_text code =
     (if code = operation_ErrOptions then
        (''invalid_options'', ''The operation runtime options or declaration are invalid.'', [])
      else if code = operation_ErrHandle then
        (''invalid_handle'', ''The operation runtime or handle is not initialized.'', [])
      else if code = operation_ErrClosed then
        (''closed'', ''The operation runtime or receiver is closing or closed.'', [])
      else if code = operation_ErrLimit then
        (''limit_exceeded'', ''An operation admission or ownership bound was exceeded.'', [])
      else if code = operation_ErrWait then
        (''wait_interrupted'', ''Waiting ended without confirming the requested completion.'', [])
      else if code = operation_ErrRequest then
        (''invalid_request'', ''The operation metadata or reservation is invalid.'', [])
      else if code = operation_ErrOutcome then
        (''missing_outcome'', ''Actual operation work ended without a reported outcome.'', [])
      else if code = operation_ErrSettled then
        (''outcome_settled'', ''The operation outcome is already being published or settled.'', [])
      else if code = operation_ErrReleased then
        (''authority_released'', ''This operation or delivery authority has already been released.'', [])
      else if code = operation_ErrPending then
        (''work_pending'', ''Actual operation work has not been confirmed released.'', [])
      else if code = operation_ErrEvidence then
        (''evidence_failed'', ''Required operation evidence could not be admitted or received.'', [])
      else if code = operation_ErrOperation then
        (''operation_failed'', ''The accepted operation reported a primary or cleanup failure.'', [])
      else if code = operation_ErrSource then
        (''source_unavailable'', ''The explicitly selected resource could not be borrowed.'', [])
      else if code = operation_ErrSerialization then
        (''runtime_serialization'', ''Operation runtime handle serialization is unsupported.'', [])
      else ([], [], []))"

abbreviation operation_codes :: "code list" where
  "operation_codes \<equiv>
     [operation_ErrOptions, operation_ErrHandle, operation_ErrClosed, operation_ErrLimit, operation_ErrWait, operation_ErrRequest, operation_ErrOutcome, operation_ErrSettled, operation_ErrReleased, operation_ErrPending, operation_ErrEvidence, operation_ErrOperation, operation_ErrSource, operation_ErrSerialization]"

abbreviation operation_contract :: Contract where
  "operation_contract \<equiv> \<lparr>contract_id = ''fathomry.operation.details'', contract_version = 1\<rparr>"

definition operation_definition :: "code \<Rightarrow> Definition" where
  "operation_definition code =
     (case operation_text code of (reason, message, _) \<Rightarrow>
        \<lparr>def_code = code, def_identifier = ''fathomry.operation.'' @ reason,
         def_module = ''fathomry'', def_component = ''operation'', def_revision = 1,
         def_message = message, def_description = [], def_details = operation_contract\<rparr>)"

definition Definitions_operation :: "Definition list" where
  "Definitions_operation = map operation_definition operation_codes"

definition failureOf ::
  "code \<Rightarrow> string \<Rightarrow> string \<Rightarrow> operation_details \<Rightarrow> gerr option list \<Rightarrow> gerr" where
  "failureOf code operation scope details causes =
     (case NewDetailed (operation_definition code)
         \<lparr>loc_operation = operation, loc_instance = scope\<rparr>
         (OperationDetails details) (Some (\<lambda>v. v)) causes of
        Inl err \<Rightarrow> err
      | Inr occurrence \<Rightarrow> occurrence)"

abbreviation no_operation :: operation_details where
  "no_operation \<equiv> \<lparr>operation_sequence = 0, operation_parent = 0, operation_pending = False\<rparr>"

section \<open>Options and requests\<close>

text \<open>Byte counts are \<^verbatim>\<open>int64\<close>: admitted values are at most $2^{40}$ each and the runtime's sums stay
  within its options, so they are integers here.\<close>

record operation_options =
  oopt_name :: string
  oopt_max_active :: int
  oopt_max_queued :: int
  oopt_max_work_bytes :: int
  oopt_max_queued_bytes :: int
  oopt_max_tasks :: int
  oopt_max_depth :: int
  oopt_max_holds :: int

record EvidenceOptions =
  ev_capacity :: int
  ev_max_bytes :: int

record Request =
  req_operation :: string
  req_id :: string
  req_work_bytes :: int
  req_evidence_bytes :: int

record 'v Outcome =
  out_value :: "'v option"
  out_primary :: "gerr option"
  out_cleanup :: "gerr option"

definition dotted_part :: "string \<Rightarrow> bool" where
  "dotted_part part =
     (\<not> (part = [] \<or> byte (hd part) < 0x61 \<or> byte (hd part) > 0x7A) \<and>
      list_all (\<lambda>c. is_lower c \<or> is_digit c \<or> c = 0x5F \<or> c = 0x2D) (runes part))"

definition operation_label :: "string \<Rightarrow> nat \<Rightarrow> bool \<Rightarrow> bool" where
  "operation_label value maximum dotted =
     (if value = [] \<or> length value > maximum then False
      else if dotted then list_all dotted_part (split_on (CHR ''.'') value)
      else list_all (\<lambda>c. is_lower c \<or> is_upper c \<or> is_digit c \<or> c = 0x5F \<or> c = 0x2D \<or> c = 0x2E)
        (runes value))"

definition operation_normalize :: "operation_options \<Rightarrow> gerr + operation_options" where
  "operation_normalize opts =
     (let refused = Inl (failureOf operation_ErrOptions ''new'' [] no_operation []) in
      if oopt_name opts \<noteq> [] \<and> \<not> operation_label (oopt_name opts) 64 False then refused
      else
        (let active = default_to 16 (oopt_max_active opts);
             queued = oopt_max_queued opts;
             work = default_to (64 * 2 ^ 20) (oopt_max_work_bytes opts);
             waiting = (if oopt_max_queued_bytes opts = 0 \<and> queued > 0 then work
               else oopt_max_queued_bytes opts);
             tasks = default_to 64 (oopt_max_tasks opts);
             depth = default_to 8 (oopt_max_depth opts);
             holds = default_to 64 (oopt_max_holds opts)
         in if active < 1 \<or> active > 1024 \<or> queued < 0 \<or> queued > 4096 \<or>
              work < 1 \<or> work > 2 ^ 40 \<or> waiting < 0 \<or> waiting > 2 ^ 40 \<or>
              queued = 0 \<and> waiting \<noteq> 0 \<or> tasks < 1 \<or> tasks > 4096 \<or>
              depth < 1 \<or> depth > 32 \<or> holds < 1 \<or> holds > 65536
            then refused
            else Inr \<lparr>oopt_name = oopt_name opts, oopt_max_active = active, oopt_max_queued = queued,
                  oopt_max_work_bytes = work, oopt_max_queued_bytes = waiting,
                  oopt_max_tasks = tasks, oopt_max_depth = depth, oopt_max_holds = holds\<rparr>))"

definition validRequest :: "Request \<Rightarrow> bool \<Rightarrow> bool" where
  "validRequest request child =
     (if \<not> operation_label (req_operation request) 64 True \<or> length (req_id request) > 256 \<or>
        \<not> valid_utf8 (req_id request) \<or>
        req_evidence_bytes request < 1 \<or> req_evidence_bytes request > 2 ^ 40
      then False
      else if list_ex (\<lambda>c. c < 0x20 \<or> c = 0x7F) (runes (req_id request)) then False
      else if child then req_work_bytes request = 0
      else req_work_bytes request > 0 \<and> req_work_bytes request \<le> 2 ^ 40)"

section \<open>The package's declarations are admissible\<close>

lemma allocated_operation:
  "def_module d = ''fathomry'' \<Longrightarrow> def_component d = ''operation'' \<Longrightarrow>
   allocated_to Allocations FacilityOperation d"
  by (simp add: Allocations_def)

lemma FacilityOperation_valid [simp]: "Facility_Valid FacilityOperation"
  by (simp add: Facility_Valid_def)

interpretation operation: declarations "''operation''" FacilityOperation operation_contract
  operation_codes operation_text operation_definition
proof unfold_locales
  show "list_all (\<lambda>c. plain_entry (operation_text c)) operation_codes"
    by (simp add: operation_text_def plain_entry_def plain_text_def label_syntax)
  show "distinct (map (\<lambda>c. fst (operation_text c)) operation_codes)"
    by (simp add: operation_text_def)
  have "list_all (\<lambda>c. snd (snd (operation_text c)) = []) operation_codes"
    by (simp add: operation_text_def)
  then show "operation_definition c =
      \<lparr>def_code = c, def_identifier = ''fathomry.'' @ ''operation'' @ ''.'' @ fst (operation_text c),
       def_module = ''fathomry'', def_component = ''operation'', def_revision = 1,
       def_message = fst (snd (operation_text c)), def_description = snd (snd (operation_text c)),
       def_details = operation_contract\<rparr>" if "c \<in> set operation_codes" for c
    using that unfolding list_all_iff by (auto simp: operation_definition_def split: prod.split)
qed (simp_all only: allocated_operation, simp_all add: label_syntax)

text \<open>The labels of this package are those the failure package accepts as locations.\<close>

lemma operation_label_dotted: "operation_label value m True \<longleftrightarrow> namespace value m"
proof -
  have "(\<lambda>c. is_lower c \<or> is_digit c \<or> c = 0x5F \<or> c = 0x2D) = label_rune"
    by (simp add: fun_eq_iff label_rune_def)
  then have part: "dotted_part part \<longleftrightarrow> label part m" if "length part \<le> m" for part
    using that unfolding dotted_part_def
    by (cases part) (auto simp: label_bytes runes_all_bytes label_rune_def is_lower_def)
  have "length part \<le> length value" if "part \<in> set (split_on (CHR ''.'') value)" for part
    using split_on_length [OF that] .
  then have "list_all dotted_part (split_on (CHR ''.'') value) \<longleftrightarrow>
      list_all (\<lambda>part. label part m) (split_on (CHR ''.'') value)" if "length value \<le> m"
    using that part unfolding list_all_iff by (meson le_trans)
  then show ?thesis by (auto simp: operation_label_def namespace_def)
qed


lemma operation_label_plain: "operation_label value 64 False \<Longrightarrow> instanceLabel value"
proof -
  have "(\<lambda>c. is_lower c \<or> is_upper c \<or> is_digit c \<or> c = 0x5F \<or> c = 0x2D \<or> c = 0x2E) = instance_rune"
    by (auto simp: fun_eq_iff instance_rune_def)
  then show "operation_label value 64 False \<Longrightarrow> instanceLabel value"
    by (auto simp: operation_label_def instanceLabel_def split: if_splits)
qed

lemma operation_normalize_Inr:
  assumes "operation_normalize opts = Inr norm"
  shows "oopt_name norm = [] \<or> operation_label (oopt_name norm) 64 False"
    and "oopt_max_active norm \<in> {1..1024}" and "oopt_max_queued norm \<in> {0..4096}"
    and "oopt_max_work_bytes norm \<in> {1..2 ^ 40}" and "oopt_max_queued_bytes norm \<in> {0..2 ^ 40}"
    and "oopt_max_queued norm = 0 \<longleftrightarrow> oopt_max_queued_bytes norm = 0"
    and "oopt_max_tasks norm \<in> {1..4096}" and "oopt_max_depth norm \<in> {1..32}"
    and "oopt_max_holds norm \<in> {1..65536}"
  using assms unfolding operation_normalize_def Let_def by (auto split: if_splits)

lemma operation_normalize_again:
  assumes "oopt_name norm = [] \<or> operation_label (oopt_name norm) 64 False"
    and "oopt_max_active norm \<in> {1..1024}" and "oopt_max_queued norm \<in> {0..4096}"
    and "oopt_max_work_bytes norm \<in> {1..2 ^ 40}" and "oopt_max_queued_bytes norm \<in> {0..2 ^ 40}"
    and "oopt_max_queued norm = 0 \<longleftrightarrow> oopt_max_queued_bytes norm = 0"
    and "oopt_max_tasks norm \<in> {1..4096}" and "oopt_max_depth norm \<in> {1..32}"
    and "oopt_max_holds norm \<in> {1..65536}"
  shows "operation_normalize norm = Inr norm"
  using assms unfolding operation_normalize_def Let_def by (auto simp: default_to_def)

lemma failureOf_occurrence:
  assumes "c \<in> set operation_codes" and "namespace operation 64"
    and "scope = [] \<or> operation_label scope 64 False" and "length causes \<le> MaxCauses"
  shows "failureOf c operation scope details causes =
    Detailed \<lparr>diag_definition = operation_definition c,
      diag_location = \<lparr>loc_operation = operation, loc_instance = scope\<rparr>,
      diag_cause_count = length (non_nil causes)\<rparr> (non_nil causes) (OperationDetails details)"
proof -
  have "Location_Valid \<lparr>loc_operation = operation, loc_instance = scope\<rparr>"
    using assms(2, 3) operation_label_plain by (auto simp: Location_Valid_def)
  then show ?thesis
    using operation.detailed_occurrence [OF assms(1) _ assms(4), where clone = "\<lambda>v. v"]
    by (simp add: failureOf_def)
qed

text \<open>A request that is admitted reports its failures under their own codes. For every code of the
  package, every request the endpoint accepts and every runtime whose options were normalised, the
  failure reported for that request is an occurrence of that code at the request's operation, carrying
  the non-nil causes in order and the given details, never a construction error, for up to
  \<^verbatim>\<open>MaxCauses\<close> causes.\<close>

theorem request_failures_coded:
  assumes "validRequest request child" and "operation_normalize opts = Inr norm"
    and "c \<in> set operation_codes" and "length causes \<le> MaxCauses"
  shows "own_code (failureOf c (req_operation request) (oopt_name norm) details causes) = c \<and>
    (\<forall>target. errors_is target (failureOf c (req_operation request) (oopt_name norm) details causes) \<longleftrightarrow>
       target = c \<or> list_ex (errors_is target) (non_nil causes)) \<and>
    Detailed_Details (\<lambda>v. v) (failureOf c (req_operation request) (oopt_name norm) details causes) =
      Some (OperationDetails details)"
proof -
  have "namespace (req_operation request) 64"
    using assms(1) by (auto simp: validRequest_def operation_label_dotted split: if_splits)
  note occurrence = failureOf_occurrence [OF assms(3) this operation_normalize_Inr(1) [OF assms(2)] assms(4)]
  show ?thesis
    using operation.definition_of_code [OF assms(3)] operation.declared_valid [OF assms(3)]
    by (auto simp: occurrence Detailed_Details_def Error_Is_def dest: Definition_Valid_code)
qed

text \<open>Normalised runtime options lie within the documented bounds and are a fixed point. Queueing is
  disabled exactly when no queued bytes are allowed, so an unqueued runtime never holds a waiter.\<close>

theorem operation_options_bounded:
  assumes "operation_normalize opts = Inr norm"
  shows "oopt_max_active norm \<in> {1..1024} \<and> oopt_max_queued norm \<in> {0..4096} \<and>
    oopt_max_work_bytes norm \<in> {1..2 ^ 40} \<and> oopt_max_queued_bytes norm \<in> {0..2 ^ 40} \<and>
    (oopt_max_queued norm = 0 \<longleftrightarrow> oopt_max_queued_bytes norm = 0) \<and>
    oopt_max_tasks norm \<in> {1..4096} \<and> oopt_max_depth norm \<in> {1..32} \<and>
    oopt_max_holds norm \<in> {1..65536} \<and> operation_normalize norm = Inr norm"
  using operation_normalize_Inr [OF assms] operation_normalize_again by blast

definition ex_options :: operation_options where
  "ex_options = \<lparr>oopt_name = ''app'', oopt_max_active = 1, oopt_max_queued = 1, oopt_max_work_bytes = 10,
     oopt_max_queued_bytes = 10, oopt_max_tasks = 2, oopt_max_depth = 2, oopt_max_holds = 1\<rparr>"

definition ex_request :: Request where
  "ex_request = \<lparr>req_operation = ''sql.query'', req_id = [], req_work_bytes = 4, req_evidence_bytes = 1\<rparr>"

lemma ex_options_normal: "operation_normalize ex_options = Inr ex_options"
  by (simp add: operation_normalize_def ex_options_def default_to_def operation_label_def char_class_defs
      rune_list_ascii runes_def)

lemma ex_request_valid: "validRequest ex_request False"
  by (simp add: validRequest_def ex_request_def operation_label_dotted label_syntax valid_utf8_def runes_def)

theorem request_failures_coded_witness:
  "own_code (failureOf operation_ErrClosed ''sql.query'' ''app'' no_operation [None]) = operation_ErrClosed"
  using request_failures_coded [OF ex_request_valid ex_options_normal, of operation_ErrClosed "[None]"]
  by (simp add: ex_request_def ex_options_def)

theorem operation_options_bounded_witness:
  "operation_normalize ex_options = Inr ex_options \<and> oopt_max_active ex_options \<in> {1..1024}"
  using operation_options_bounded [OF ex_options_normal] ex_options_normal by simp

end
