(* ===== verification/Operation_Admission.thy ===== *)
theory Operation_Admission
  imports Operation_Options "HOL-Library.Multiset"
begin

text \<open>
  Admission of \<^verbatim>\<open>adapters/v1/runtime.go\<close>: the permits of a runtime, the queue of callers waiting for
  one, and shutdown. \<open>gate\<close> is the part of \<^verbatim>\<open>runtimeState\<close> these operations use. Waiters are the
  objects \<^verbatim>\<open>acquire\<close> allocates, kept in a list and named by their index; the queue holds indices.
  \<^verbatim>\<open>acquire\<close> is two sections under the runtime's lock with a wait in between.
\<close>

section \<open>Model\<close>

text \<open>\<open>wt_ready\<close>: the waiter's channel is closed; \<open>wt_left\<close>: its caller is past the second section.\<close>

record waiter =
  wt_ctx :: go_ctx
  wt_bytes :: int
  wt_ready :: bool
  wt_granted :: bool
  wt_err :: "gerr option"
  wt_left :: bool

record gate =
  rt_options :: operation_options
  rt_base :: go_ctx
  rt_closing :: bool
  rt_closed :: bool
  rt_active :: int
  rt_work_bytes :: int
  rt_queued_bytes :: int
  rt_queue :: "nat list"
  rt_waiters :: "waiter list"

abbreviation rt_name :: "gate \<Rightarrow> string" where
  "rt_name g \<equiv> oopt_name (rt_options g)"

definition operation_New :: "go_ctx option \<Rightarrow> operation_options \<Rightarrow> gerr + gate" where
  "operation_New ctx opts =
     (case ctx of
        None \<Rightarrow> Inl (failureOf operation_ErrOptions ''new'' [] no_operation [])
      | Some c \<Rightarrow>
          (case operation_normalize opts of
             Inl err \<Rightarrow> Inl err
           | Inr norm \<Rightarrow>
               if ctx_err c \<noteq> None
               then Inl (failureOf operation_ErrClosed ''new'' (oopt_name norm) no_operation
                 [ctx_err c, ctx_cause c])
               else Inr \<lparr>rt_options = norm, rt_base = c, rt_closing = False, rt_closed = False,
                 rt_active = 0, rt_work_bytes = 0, rt_queued_bytes = 0, rt_queue = [], rt_waiters = []\<rparr>))"

text \<open>The \<^verbatim>\<open>stop\<close> channel is closed exactly when the runtime is closing.\<close>

definition runtime_stopped :: "gate \<Rightarrow> bool" where
  "runtime_stopped g = (rt_closing g \<or> ctx_err (rt_base g) \<noteq> None)"

definition fits :: "gate \<Rightarrow> int \<Rightarrow> bool" where
  "fits g bytes =
     (rt_active g < oopt_max_active (rt_options g) \<and>
      bytes \<le> oopt_max_work_bytes (rt_options g) - rt_work_bytes g)"

text \<open>One pass of the loop of \<^verbatim>\<open>promoteLocked\<close>, for a head that is leaving the queue.\<close>

definition promote_head :: "nat \<Rightarrow> gate \<Rightarrow> gate" where
  "promote_head p g =
     (let w = rt_waiters g ! p;
          popped = g\<lparr>rt_queue := tl (rt_queue g), rt_queued_bytes := rt_queued_bytes g - wt_bytes w\<rparr>
      in if ctx_err (wt_ctx w) \<noteq> None
         then popped\<lparr>rt_waiters := (rt_waiters g)[p := w\<lparr>wt_ready := True,
           wt_err := Some (failureOf operation_ErrWait ''admit'' (rt_name g) no_operation
             [ctx_err (wt_ctx w), ctx_cause (wt_ctx w)])\<rparr>]\<rparr>
         else popped\<lparr>rt_active := rt_active g + 1, rt_work_bytes := rt_work_bytes g + wt_bytes w,
           rt_waiters := (rt_waiters g)[p := w\<lparr>wt_ready := True, wt_granted := True\<rparr>]\<rparr>)"

lemma promote_head_queue [simp]: "rt_queue (promote_head p g) = tl (rt_queue g)"
  by (simp add: promote_head_def Let_def)

function promote_loop :: "gate \<Rightarrow> gate" where
  "promote_loop g =
     (case rt_queue g of
        [] \<Rightarrow> g
      | p # _ \<Rightarrow>
          if ctx_err (wt_ctx (rt_waiters g ! p)) = None \<and> \<not> fits g (wt_bytes (rt_waiters g ! p)) then g
          else promote_loop (promote_head p g))"
  by pat_completeness auto

termination
  by (relation "measure (length \<circ> rt_queue)") auto

declare promote_loop.simps [simp del]

definition promoteLocked :: "gate \<Rightarrow> gate" where
  "promoteLocked g = (if rt_closing g then g else promote_loop g)"

definition closeDoneLocked :: "gate \<Rightarrow> gate" where
  "closeDoneLocked g = (if rt_closing g \<and> rt_active g = 0 \<and> \<not> rt_closed g then g\<lparr>rt_closed := True\<rparr> else g)"

definition releasePermitLocked :: "int \<Rightarrow> gate \<Rightarrow> gate" where
  "releasePermitLocked bytes g =
     closeDoneLocked (promoteLocked
       (g\<lparr>rt_active := rt_active g - 1, rt_work_bytes := rt_work_bytes g - bytes\<rparr>))"

text \<open>\<^verbatim>\<open>acquire\<close> up to the wait: an error, a permit, or the waiter that joined the queue.\<close>

definition acquire_enter :: "go_ctx \<Rightarrow> int \<Rightarrow> gate \<Rightarrow> (gerr + nat option) \<times> gate" where
  "acquire_enter ctx bytes g =
     (if rt_closing g \<or> ctx_err (rt_base g) \<noteq> None
      then (Inl (failureOf operation_ErrClosed ''admit'' (rt_name g) no_operation []), g)
      else if ctx_err ctx \<noteq> None
      then (Inl (failureOf operation_ErrWait ''admit'' (rt_name g) no_operation
        [ctx_err ctx, ctx_cause ctx]), g)
      else if bytes > oopt_max_work_bytes (rt_options g)
      then (Inl (failureOf operation_ErrLimit ''admit'' (rt_name g) no_operation []), g)
      else if rt_queue g = [] \<and> fits g bytes
      then (Inr None, g\<lparr>rt_active := rt_active g + 1, rt_work_bytes := rt_work_bytes g + bytes\<rparr>)
      else if int (length (rt_queue g)) \<ge> oopt_max_queued (rt_options g) \<or>
        bytes > oopt_max_queued_bytes (rt_options g) - rt_queued_bytes g
      then (Inl (failureOf operation_ErrLimit ''admit'' (rt_name g) no_operation []), g)
      else
        (let p = length (rt_waiters g) in
         (Inr (Some p), g\<lparr>rt_waiters := rt_waiters g @ [\<lparr>wt_ctx = ctx, wt_bytes = bytes, wt_ready = False,
             wt_granted = False, wt_err = None, wt_left = False\<rparr>],
           rt_queue := rt_queue g @ [p], rt_queued_bytes := rt_queued_bytes g + bytes\<rparr>)))"

text \<open>\<^verbatim>\<open>acquire\<close> after the wait; \<open>None\<close> while neither the waiter nor its context is ready.\<close>

definition acquire_return :: "nat \<Rightarrow> gate \<Rightarrow> gerr option option \<times> gate" where
  "acquire_return p g =
     (let w = rt_waiters g ! p; ctx = wt_ctx w;
          left = g\<lparr>rt_waiters := (rt_waiters g)[p := w\<lparr>wt_left := True\<rparr>]\<rparr>
      in if \<not> wt_ready w \<and> ctx_err ctx = None then (None, g)
         else if wt_granted w \<and> ctx_err ctx = None \<and> \<not> rt_closing g \<and> ctx_err (rt_base g) = None
         then (Some None, left)
         else
           (let settled =
              (if wt_granted w then releasePermitLocked (wt_bytes w) left
               else if wt_err w = None
               then promoteLocked
                 (if p \<in> set (rt_queue g)
                  then left\<lparr>rt_queue := remove1 p (rt_queue g),
                    rt_queued_bytes := rt_queued_bytes g - wt_bytes w\<rparr>
                  else left)
               else left)
            in (Some (Some
                 (if wt_err (rt_waiters settled ! p) \<noteq> None then the (wt_err (rt_waiters settled ! p))
                  else if rt_closing settled \<or> ctx_err (rt_base settled) \<noteq> None
                  then failureOf operation_ErrClosed ''admit'' (rt_name g) no_operation []
                  else failureOf operation_ErrWait ''admit'' (rt_name g) no_operation
                    [ctx_err ctx, ctx_cause ctx])), settled)))"

text \<open>The admission part of \<^verbatim>\<open>shutdown\<close>.\<close>

definition refuse_waiter :: "gerr option \<Rightarrow> gate \<Rightarrow> waiter \<Rightarrow> waiter" where
  "refuse_waiter cause g w = w\<lparr>wt_ready := True,
     wt_err := Some (failureOf operation_ErrClosed ''admit'' (rt_name g) no_operation [cause])\<rparr>"

definition shutdown_gate :: "gerr option \<Rightarrow> gate \<Rightarrow> gate" where
  "shutdown_gate cause g =
     (if rt_closing g then g
      else closeDoneLocked (g\<lparr>rt_closing := True,
        rt_waiters := fold (\<lambda>p ws. ws[p := refuse_waiter cause g (ws ! p)]) (rt_queue g) (rt_waiters g),
        rt_queue := [], rt_queued_bytes := 0\<rparr>))"

section \<open>Invariant\<close>

lemma mset_filter_update:
  assumes "i < length xs"
  shows "mset (map f (filter P (xs[i := x]))) =
    mset (map f (filter P xs)) - (if P (xs ! i) then {#f (xs ! i)#} else {#}) + (if P x then {#f x#} else {#})"
  using assms
proof (induction xs arbitrary: i)
  case (Cons a xs)
  show ?case
  proof (cases i)
    case (Suc j)
    have "f (xs ! j) \<in># mset (map f (filter P xs))" if "P (xs ! j)"
      using that Cons(2) Suc by (auto intro!: image_eqI nth_mem)
    then show ?thesis using Cons Suc by auto
  qed simp
qed simp

text \<open>Permits granted to waiters that have not returned to their callers yet; \<open>held\<close> below are the bytes
  of the permits callers hold.\<close>

definition owed :: "waiter \<Rightarrow> bool" where
  "owed w = (wt_granted w \<and> \<not> wt_left w)"

definition owed_count :: "waiter list \<Rightarrow> int" where
  "owed_count ws = (\<Sum>w\<leftarrow>ws. if owed w then 1 else 0)"

definition owed_bytes :: "waiter list \<Rightarrow> int" where
  "owed_bytes ws = (\<Sum>w\<leftarrow>ws. if owed w then wt_bytes w else 0)"

definition queue_bytes :: "waiter list \<Rightarrow> nat list \<Rightarrow> int" where
  "queue_bytes ws ps = (\<Sum>p\<leftarrow>ps. wt_bytes (ws ! p))"

definition waiter_ok :: "waiter \<Rightarrow> bool" where
  "waiter_ok w \<longleftrightarrow> wt_bytes w \<ge> 1 \<and> (wt_granted w \<longrightarrow> wt_err w = None) \<and>
     (wt_ready w \<longleftrightarrow> wt_granted w \<or> wt_err w \<noteq> None)"

definition inv_waiters :: "gate \<Rightarrow> bool" where
  "inv_waiters g \<longleftrightarrow> (\<forall>p < length (rt_waiters g). waiter_ok (rt_waiters g ! p)) \<and> distinct (rt_queue g) \<and>
     (\<forall>p. p \<in> set (rt_queue g) \<longleftrightarrow>
        p < length (rt_waiters g) \<and> \<not> wt_ready (rt_waiters g ! p) \<and> \<not> wt_left (rt_waiters g ! p))"

definition inv_queue :: "gate \<Rightarrow> bool" where
  "inv_queue g \<longleftrightarrow> rt_queued_bytes g = queue_bytes (rt_waiters g) (rt_queue g) \<and>
     int (length (rt_queue g)) \<le> oopt_max_queued (rt_options g) \<and>
     rt_queued_bytes g \<le> oopt_max_queued_bytes (rt_options g) \<and>
     (rt_closing g \<longrightarrow> rt_queue g = []) \<and> (rt_closed g \<longrightarrow> rt_closing g \<and> rt_active g = 0)"

definition inv_permits :: "gate \<Rightarrow> int multiset \<Rightarrow> bool" where
  "inv_permits g held \<longleftrightarrow> (\<forall>b\<in>#held. b \<ge> 1) \<and>
     rt_active g = int (size held) + owed_count (rt_waiters g) \<and>
     rt_work_bytes g = sum_mset held + owed_bytes (rt_waiters g) \<and>
     rt_active g \<le> oopt_max_active (rt_options g) \<and> rt_work_bytes g \<le> oopt_max_work_bytes (rt_options g)"

definition gate_core :: "gate \<Rightarrow> int multiset \<Rightarrow> bool" where
  "gate_core g held \<longleftrightarrow> inv_waiters g \<and> inv_queue g \<and> inv_permits g held"

text \<open>No waiter at the head of the queue could be admitted.\<close>

definition head_blocked :: "gate \<Rightarrow> bool" where
  "head_blocked g \<longleftrightarrow>
     (case rt_queue g of [] \<Rightarrow> True | p # _ \<Rightarrow> \<not> fits g (wt_bytes (rt_waiters g ! p)))"

definition gate_inv :: "gate \<times> int multiset \<Rightarrow> bool" where
  "gate_inv gh \<longleftrightarrow> gate_core (fst gh) (snd gh) \<and> head_blocked (fst gh) \<and>
     (rt_closing (fst gh) \<and> rt_active (fst gh) = 0 \<longrightarrow> rt_closed (fst gh))"

lemma gate_coreD:
  assumes "gate_core g held"
  shows "inv_waiters g" and "inv_queue g" and "inv_permits g held"
  using assms by (simp_all add: gate_core_def)

lemma queued_waiter:
  assumes "inv_waiters g" and "p \<in> set (rt_queue g)"
  shows "p < length (rt_waiters g)" and "\<not> wt_ready (rt_waiters g ! p)" and "\<not> wt_left (rt_waiters g ! p)"
    and "\<not> wt_granted (rt_waiters g ! p)" and "wt_err (rt_waiters g ! p) = None"
    and "wt_bytes (rt_waiters g ! p) \<ge> 1"
  using assms by (auto simp: inv_waiters_def waiter_ok_def)

lemma owed_update:
  assumes "p < length ws"
  shows "owed_count (ws[p := w]) = owed_count ws - (if owed (ws ! p) then 1 else 0) + (if owed w then 1 else 0)"
    and "owed_bytes (ws[p := w]) =
      owed_bytes ws - (if owed (ws ! p) then wt_bytes (ws ! p) else 0) + (if owed w then wt_bytes w else 0)"
  unfolding owed_count_def owed_bytes_def by (simp_all add: sum_list_map_update [OF assms])

lemma owed_nonneg:
  assumes "\<forall>p < length ws. waiter_ok (ws ! p)"
  shows "owed_count ws \<ge> 0" and "owed_bytes ws \<ge> 0"
proof -
  have "wt_bytes w \<ge> 0" if "w \<in> set ws" for w
    using assms that by (force simp: in_set_conv_nth waiter_ok_def)
  then show "owed_count ws \<ge> 0" and "owed_bytes ws \<ge> 0"
    unfolding owed_count_def owed_bytes_def by (auto intro!: sum_list_nonneg)
qed

lemma queue_bytes_cong:
  "(\<And>p. p \<in> set ps \<Longrightarrow> wt_bytes (ws' ! p) = wt_bytes (ws ! p)) \<Longrightarrow> queue_bytes ws' ps = queue_bytes ws ps"
  unfolding queue_bytes_def by (rule arg_cong [of _ _ sum_list], rule map_cong) simp_all

lemma queue_bytes_simps [simp]:
  "queue_bytes ws [] = 0" "queue_bytes ws (p # ps) = wt_bytes (ws ! p) + queue_bytes ws ps"
  "queue_bytes ws (ps @ qs) = queue_bytes ws ps + queue_bytes ws qs"
  by (simp_all add: queue_bytes_def)

lemma queue_bytes_nonneg: "inv_waiters g \<Longrightarrow> queue_bytes (rt_waiters g) (rt_queue g) \<ge> 0"
  unfolding queue_bytes_def by (rule sum_list_nonneg) (force dest: queued_waiter(6))

lemma waiter_update:
  assumes "p < length ws"
  shows "ws[p := w] ! q = (if q = p then w else ws ! q)"
  using assms by (auto simp: nth_list_update)

section \<open>Promotion\<close>

lemma promote_head_core:
  assumes "gate_core g held" and "rt_queue g = p # rest"
    and "ctx_err (wt_ctx (rt_waiters g ! p)) \<noteq> None \<or> fits g (wt_bytes (rt_waiters g ! p))"
  shows "gate_core (promote_head p g) held"
proof -
  note inv = gate_coreD [OF assms(1)]
  have p: "p \<in> set (rt_queue g)" "p \<notin> set rest" using assms(2) inv(1) by (simp_all add: inv_waiters_def)
  note w = queued_waiter [OF inv(1) p(1)]
  let ?g = "promote_head p g"
  obtain x where x: "rt_waiters ?g = (rt_waiters g)[p := x]" "wt_bytes x = wt_bytes (rt_waiters g ! p)"
    "wt_ready x" "waiter_ok x"
    using w by (cases "ctx_err (wt_ctx (rt_waiters g ! p))") (simp_all add: promote_head_def Let_def waiter_ok_def)
  have "inv_waiters ?g"
    using inv(1) p w(1) assms(2) x by (auto simp: inv_waiters_def waiter_update)
  moreover have "queue_bytes (rt_waiters ?g) rest = queue_bytes (rt_waiters g) rest"
    using p(2) x by (intro queue_bytes_cong) (auto simp: waiter_update w(1))
  then have "inv_queue ?g"
    using inv(2) assms(2) w(6) by (auto simp: inv_queue_def promote_head_def Let_def)
  moreover have "inv_permits ?g held"
    using inv(3) w assms(3) by (auto simp: inv_permits_def promote_head_def Let_def owed_update owed_def fits_def)
  ultimately show ?thesis by (simp add: gate_core_def)
qed

lemma promote_loop_core:
  "gate_core g held \<Longrightarrow> gate_core (promote_loop g) held \<and> head_blocked (promote_loop g)"
proof (induction g rule: promote_loop.induct)
  case (1 g)
  show ?case
  proof (cases "rt_queue g")
    case Nil
    then show ?thesis using 1(2) by (simp add: promote_loop.simps [of g] head_blocked_def)
  next
    case (Cons p rest)
    show ?thesis
    proof (cases "ctx_err (wt_ctx (rt_waiters g ! p)) = None \<and> \<not> fits g (wt_bytes (rt_waiters g ! p))")
      case True
      then show ?thesis using 1(2) Cons by (simp add: promote_loop.simps [of g] head_blocked_def)
    next
      case False
      then have "gate_core (promote_head p g) held" by (intro promote_head_core [OF 1(2) Cons]) auto
      then show ?thesis using 1(1) [OF Cons False] Cons False by (auto simp: promote_loop.simps [of g])
    qed
  qed
qed

lemma promoteLocked_core:
  assumes "gate_core g held"
  shows "gate_core (promoteLocked g) held" and "head_blocked (promoteLocked g)"
  using promote_loop_core [OF assms] assms
  by (auto simp: promoteLocked_def gate_core_def inv_queue_def head_blocked_def)

lemma promote_loop_frame:
  "rt_closing (promote_loop g) = rt_closing g \<and> rt_closed (promote_loop g) = rt_closed g \<and>
   rt_base (promote_loop g) = rt_base g \<and> rt_options (promote_loop g) = rt_options g \<and>
   length (rt_waiters (promote_loop g)) = length (rt_waiters g) \<and>
   (\<forall>p. p \<notin> set (rt_queue g) \<longrightarrow> rt_waiters (promote_loop g) ! p = rt_waiters g ! p)"
proof (induction g rule: promote_loop.induct)
  case (1 g)
  have head: "rt_closing (promote_head p g) = rt_closing g" "rt_closed (promote_head p g) = rt_closed g"
    "rt_base (promote_head p g) = rt_base g" "rt_options (promote_head p g) = rt_options g"
    "length (rt_waiters (promote_head p g)) = length (rt_waiters g)"
    "q \<noteq> p \<Longrightarrow> rt_waiters (promote_head p g) ! q = rt_waiters g ! q" for p q
    by (simp_all add: promote_head_def Let_def)
  show ?case
  proof (cases "rt_queue g")
    case (Cons p rest)
    show ?thesis
      using 1 [OF Cons] Cons by (cases "ctx_err (wt_ctx (rt_waiters g ! p)) = None \<and>
        \<not> fits g (wt_bytes (rt_waiters g ! p))") (simp_all add: promote_loop.simps [of g] head)
  qed (simp add: promote_loop.simps [of g])
qed

lemma promoteLocked_frame [simp]:
  "rt_closing (promoteLocked g) = rt_closing g" "rt_closed (promoteLocked g) = rt_closed g"
  "rt_base (promoteLocked g) = rt_base g" "rt_options (promoteLocked g) = rt_options g"
  "length (rt_waiters (promoteLocked g)) = length (rt_waiters g)"
  "p \<notin> set (rt_queue g) \<Longrightarrow> rt_waiters (promoteLocked g) ! p = rt_waiters g ! p"
  by (simp_all add: promoteLocked_def promote_loop_frame)

section \<open>Steps\<close>

text \<open>The lock sections callers run, with the permits they hold: a permit is returned by a caller that
  holds one, once. Contexts end at any time.\<close>

inductive gate_step :: "gate \<times> int multiset \<Rightarrow> gate \<times> int multiset \<Rightarrow> bool" where
  gt_enter: "acquire_enter ctx bytes g = (result, g') \<Longrightarrow> bytes \<ge> 1 \<Longrightarrow>
    gate_step (g, held) (g', if result = Inr None then add_mset bytes held else held)"
| gt_return: "acquire_return p g = (result, g') \<Longrightarrow> p < length (rt_waiters g) \<Longrightarrow>
    \<not> wt_left (rt_waiters g ! p) \<Longrightarrow>
    gate_step (g, held) (g', if result = Some None then add_mset (wt_bytes (rt_waiters g ! p)) held else held)"
| gt_release: "bytes \<in># held \<Longrightarrow> gate_step (g, held) (releasePermitLocked bytes g, held - {#bytes#})"
| gt_shutdown: "gate_step (g, held) (shutdown_gate cause g, held)"
| gt_cancel: "p < length (rt_waiters g) \<Longrightarrow>
    gate_step (g, held) (g\<lparr>rt_waiters := (rt_waiters g)[p := (rt_waiters g ! p)\<lparr>wt_ctx := ctx\<rparr>]\<rparr>, held)"
| gt_base: "gate_step (g, held) (g\<lparr>rt_base := ctx\<rparr>, held)"

definition gate_initial :: "gate \<times> int multiset \<Rightarrow> bool" where
  "gate_initial gh \<longleftrightarrow> (\<exists>ctx opts. operation_New ctx opts = Inr (fst gh)) \<and> snd gh = {#}"

lemma closeDoneLocked_inv:
  assumes "gate_core g held" and "head_blocked g"
  shows "gate_inv (closeDoneLocked g, held)"
proof -
  have "gate_core (closeDoneLocked g) held" and "head_blocked (closeDoneLocked g)"
    using assms by (auto simp: gate_core_def inv_waiters_def inv_queue_def inv_permits_def head_blocked_def
        fits_def closeDoneLocked_def split: list.splits)
  then show ?thesis by (simp add: gate_inv_def) (simp add: closeDoneLocked_def)
qed

lemma release_core:
  assumes "gate_core g (add_mset bytes held)"
  shows "gate_core (g\<lparr>rt_active := rt_active g - 1, rt_work_bytes := rt_work_bytes g - bytes\<rparr>) held"
proof -
  note inv = gate_coreD [OF assms]
  have "owed_count (rt_waiters g) \<ge> 0" using inv(1) by (intro owed_nonneg) (simp add: inv_waiters_def)
  then have "\<not> rt_closed g" using inv(2, 3) by (auto simp: inv_queue_def inv_permits_def)
  then show ?thesis
    using inv by (auto simp: gate_core_def inv_waiters_def inv_queue_def inv_permits_def)
qed

lemma releasePermitLocked_inv:
  assumes "gate_core g (add_mset bytes held)"
  shows "gate_inv (releasePermitLocked bytes g, held)"
  unfolding releasePermitLocked_def
  using promoteLocked_core [OF release_core [OF assms]] by (rule closeDoneLocked_inv)

text \<open>A caller that leaves with its grant takes the permit over.\<close>

lemma leave_core:
  assumes "gate_core g held" and "p < length (rt_waiters g)" and "wt_ready (rt_waiters g ! p)"
    and "\<not> wt_left (rt_waiters g ! p)"
  shows "gate_core (g\<lparr>rt_waiters := (rt_waiters g)[p := (rt_waiters g ! p)\<lparr>wt_left := True\<rparr>]\<rparr>)
    (if wt_granted (rt_waiters g ! p) then add_mset (wt_bytes (rt_waiters g ! p)) held else held)"
proof -
  note inv = gate_coreD [OF assms(1)]
  have notin: "p \<notin> set (rt_queue g)" using inv(1) assms(3) by (simp add: inv_waiters_def)
  have "queue_bytes ((rt_waiters g)[p := x]) (rt_queue g) = queue_bytes (rt_waiters g) (rt_queue g)" for x
    using notin by (intro queue_bytes_cong) (auto simp: waiter_update [OF assms(2)])
  moreover have "waiter_ok (rt_waiters g ! p)" using inv(1) assms(2) by (simp add: inv_waiters_def)
  ultimately show ?thesis
    using inv assms(2-4) notin
    by (auto simp: gate_core_def inv_waiters_def inv_queue_def inv_permits_def waiter_update owed_update
        owed_def waiter_ok_def)
qed

lemma withdraw_core:
  assumes "gate_core g held" and "p \<in> set (rt_queue g)"
  shows "gate_core (g\<lparr>rt_waiters := (rt_waiters g)[p := (rt_waiters g ! p)\<lparr>wt_left := True\<rparr>],
    rt_queue := remove1 p (rt_queue g), rt_queued_bytes := rt_queued_bytes g - wt_bytes (rt_waiters g ! p)\<rparr>) held"
proof -
  note inv = gate_coreD [OF assms(1)]
  note w = queued_waiter [OF inv(1) assms(2)]
  have d: "distinct (rt_queue g)" using inv(1) by (simp add: inv_waiters_def)
  have "queue_bytes ((rt_waiters g)[p := x]) (remove1 p (rt_queue g)) =
      queue_bytes (rt_waiters g) (remove1 p (rt_queue g))" for x
    using d by (intro queue_bytes_cong) (auto simp: waiter_update [OF w(1)])
  moreover have "queue_bytes (rt_waiters g) (remove1 p (rt_queue g)) =
      queue_bytes (rt_waiters g) (rt_queue g) - wt_bytes (rt_waiters g ! p)"
    unfolding queue_bytes_def by (rule sum_list_map_remove1 [OF assms(2)])
  moreover have "int (length (remove1 p (rt_queue g))) \<le> int (length (rt_queue g))"
    by (simp add: length_remove1)
  ultimately show ?thesis
    using inv w d by (auto simp: gate_core_def inv_waiters_def inv_queue_def inv_permits_def waiter_update
        owed_update owed_def waiter_ok_def)
qed

lemma gate_invD:
  assumes "gate_inv (g, held)"
  shows "inv_waiters g" and "inv_queue g" and "inv_permits g held" and "head_blocked g"
    and "rt_closing g \<Longrightarrow> rt_active g = 0 \<Longrightarrow> rt_closed g" and "gate_core g held"
  using assms by (simp_all add: gate_inv_def gate_core_def)

lemma acquire_enter_cases:
  assumes "acquire_enter ctx bytes g = (result, g')"
  obtains (refused) err where "result = Inl err" "g' = g"
  | (permit) "result = Inr None" "rt_queue g = []" "fits g bytes" "\<not> rt_closing g"
      "g' = g\<lparr>rt_active := rt_active g + 1, rt_work_bytes := rt_work_bytes g + bytes\<rparr>"
  | (wait) "result = Inr (Some (length (rt_waiters g)))" "\<not> (rt_queue g = [] \<and> fits g bytes)"
      "\<not> rt_closing g" "int (length (rt_queue g)) < oopt_max_queued (rt_options g)"
      "bytes \<le> oopt_max_queued_bytes (rt_options g) - rt_queued_bytes g"
      "g' = g\<lparr>rt_waiters := rt_waiters g @ [\<lparr>wt_ctx = ctx, wt_bytes = bytes, wt_ready = False,
             wt_granted = False, wt_err = None, wt_left = False\<rparr>],
           rt_queue := rt_queue g @ [length (rt_waiters g)], rt_queued_bytes := rt_queued_bytes g + bytes\<rparr>"
proof -
  note enter = assms [unfolded acquire_enter_def Let_def]
  consider "rt_closing g \<or> ctx_err (rt_base g) \<noteq> None \<or> ctx_err ctx \<noteq> None \<or>
      bytes > oopt_max_work_bytes (rt_options g)"
    | "\<not> (rt_closing g \<or> ctx_err (rt_base g) \<noteq> None)" "\<not> ctx_err ctx \<noteq> None"
      "\<not> bytes > oopt_max_work_bytes (rt_options g)" by blast
  then show thesis
  proof cases
    case 1
    then have "\<exists>err. result = Inl err \<and> g' = g" using enter by (auto split: if_splits)
    then show thesis using refused by blast
  next
    case 2
    note enter = enter [unfolded if_not_P [OF 2(1)] if_not_P [OF 2(2)] if_not_P [OF 2(3)]]
    show thesis
    proof (cases "rt_queue g = [] \<and> fits g bytes")
      case True
      then show thesis using enter 2 permit by simp
    next
      case False
      note enter = enter [unfolded if_not_P [OF False]]
      show thesis
      proof (cases "int (length (rt_queue g)) \<ge> oopt_max_queued (rt_options g) \<or>
          bytes > oopt_max_queued_bytes (rt_options g) - rt_queued_bytes g")
        case True
        then show thesis using enter refused by auto
      next
        case full: False
        show thesis
          by (rule wait) (use enter [unfolded if_not_P [OF full]] False full 2 in \<open>simp_all add: not_le not_less\<close>)
      qed
    qed
  qed
qed

lemma enter_inv:
  assumes "gate_inv (g, held)" and "acquire_enter ctx bytes g = (result, g')" and "bytes \<ge> 1"
  shows "gate_inv (g', if result = Inr None then add_mset bytes held else held)"
proof -
  note inv = gate_invD [OF assms(1)]
  from assms(2) show ?thesis
  proof (cases rule: acquire_enter_cases)
    case refused
    then show ?thesis using assms(1) by simp
  next
    case permit
    then show ?thesis
      using inv(1-3) assms(3) by (auto simp: gate_inv_def gate_core_def inv_waiters_def inv_queue_def
          inv_permits_def head_blocked_def fits_def)
  next
    case wait
    let ?w = "\<lparr>wt_ctx = ctx, wt_bytes = bytes, wt_ready = False, wt_granted = False, wt_err = None,
      wt_left = False\<rparr>"
    have old: "(rt_waiters g @ [?w]) ! q = rt_waiters g ! q" if "q \<in> set (rt_queue g)" for q
      using queued_waiter(1) [OF inv(1) that] by (simp add: nth_append)
    have "inv_waiters g'"
      using inv(1) assms(3) wait by (auto simp: inv_waiters_def nth_append less_Suc_eq waiter_ok_def)
    moreover have "queue_bytes (rt_waiters g @ [?w]) (rt_queue g) = queue_bytes (rt_waiters g) (rt_queue g)"
      by (rule queue_bytes_cong) (simp add: old)
    then have "inv_queue g'" using inv(2) wait by (simp add: inv_queue_def)
    moreover have "inv_permits g' held"
      using inv(3) wait by (simp add: inv_permits_def owed_count_def owed_bytes_def owed_def)
    moreover have "head_blocked g'"
      using inv(4) wait old by (cases "rt_queue g") (auto simp: head_blocked_def fits_def)
    ultimately show ?thesis using wait by (simp add: gate_inv_def gate_core_def)
  qed
qed

text \<open>What the second section of \<^verbatim>\<open>acquire\<close> does for a caller that is not blocked.\<close>

lemma acquire_return_cases:
  assumes "inv_waiters g" and "p < length (rt_waiters g)" and "\<not> wt_left (rt_waiters g ! p)"
    and "acquire_return p g = (result, g')"
  obtains (blocked) "result = None" "g' = g"
  | (taken) "result = Some None" "wt_ready (rt_waiters g ! p)" "wt_granted (rt_waiters g ! p)" "\<not> rt_closing g"
      "g' = g\<lparr>rt_waiters := (rt_waiters g)[p := (rt_waiters g ! p)\<lparr>wt_left := True\<rparr>]\<rparr>"
  | (returned) err where "result = Some (Some err)" "wt_ready (rt_waiters g ! p)" "wt_granted (rt_waiters g ! p)"
      "g' = releasePermitLocked (wt_bytes (rt_waiters g ! p))
        (g\<lparr>rt_waiters := (rt_waiters g)[p := (rt_waiters g ! p)\<lparr>wt_left := True\<rparr>]\<rparr>)"
  | (refused) err where "result = Some (Some err)" "wt_ready (rt_waiters g ! p)" "\<not> wt_granted (rt_waiters g ! p)"
      "g' = g\<lparr>rt_waiters := (rt_waiters g)[p := (rt_waiters g ! p)\<lparr>wt_left := True\<rparr>]\<rparr>"
  | (withdrawn) err where "result = Some (Some err)" "p \<in> set (rt_queue g)"
      "g' = promoteLocked (g\<lparr>rt_waiters := (rt_waiters g)[p := (rt_waiters g ! p)\<lparr>wt_left := True\<rparr>],
        rt_queue := remove1 p (rt_queue g), rt_queued_bytes := rt_queued_bytes g - wt_bytes (rt_waiters g ! p)\<rparr>)"
proof -
  let ?w = "rt_waiters g ! p"
  have ok: "waiter_ok ?w" "p \<in> set (rt_queue g) \<longleftrightarrow> \<not> wt_ready ?w"
    using assms(1-3) by (simp_all add: inv_waiters_def)
  note reply = assms(4) [unfolded acquire_return_def Let_def]
  consider "\<not> wt_ready ?w \<and> ctx_err (wt_ctx ?w) = None"
    | "\<not> (\<not> wt_ready ?w \<and> ctx_err (wt_ctx ?w) = None)"
      "wt_granted ?w \<and> ctx_err (wt_ctx ?w) = None \<and> \<not> rt_closing g \<and> ctx_err (rt_base g) = None"
    | "\<not> (\<not> wt_ready ?w \<and> ctx_err (wt_ctx ?w) = None)"
      "\<not> (wt_granted ?w \<and> ctx_err (wt_ctx ?w) = None \<and> \<not> rt_closing g \<and> ctx_err (rt_base g) = None)"
    by blast
  then show thesis
  proof cases
    case 1
    then show thesis using reply [unfolded if_P [OF 1]] blocked by simp
  next
    case 2
    then show thesis using reply [unfolded if_not_P [OF 2(1)] if_P [OF 2(2)]] taken ok by (simp add: waiter_ok_def)
  next
    case 3
    note reply = reply [unfolded if_not_P [OF 3(1)] if_not_P [OF 3(2)]]
    have err: "\<exists>err. result = Some (Some err)" using reply by blast
    show thesis
    proof (cases "wt_granted ?w")
      case True
      then show thesis using reply err returned ok by (auto simp: waiter_ok_def)
    next
      case False
      then show thesis
        using reply err refused withdrawn ok by (cases "wt_err ?w") (auto simp: waiter_ok_def)
    qed
  qed
qed

lemma acquire_return_inv:
  assumes "gate_inv (g, held)" and "acquire_return p g = (result, g')" and "p < length (rt_waiters g)"
    and "\<not> wt_left (rt_waiters g ! p)"
  shows "gate_inv (g', if result = Some None then add_mset (wt_bytes (rt_waiters g ! p)) held else held)"
proof -
  note inv = gate_invD [OF assms(1)]
  have blocked: "head_blocked (g\<lparr>rt_waiters := (rt_waiters g)[p := (rt_waiters g ! p)\<lparr>wt_left := True\<rparr>]\<rparr>)"
    using inv(4) by (cases "rt_queue g") (auto simp: head_blocked_def fits_def waiter_update [OF assms(3)])
  from inv(1) assms(3, 4, 2) show ?thesis
  proof (cases rule: acquire_return_cases)
    case blocked
    then show ?thesis using assms(1) by simp
  next
    case taken
    then show ?thesis
      using leave_core [OF inv(6) assms(3) taken(2) assms(4)] blocked by (simp add: gate_inv_def)
  next
    case (returned err)
    then show ?thesis
      using leave_core [OF inv(6) assms(3) returned(2) assms(4)] releasePermitLocked_inv by simp
  next
    case (refused err)
    then show ?thesis
      using leave_core [OF inv(6) assms(3) refused(2) assms(4)] blocked inv(5) by (simp add: gate_inv_def)
  next
    case (withdrawn err)
    have "\<not> rt_closing g" using withdrawn(2) inv(2) by (auto simp: inv_queue_def)
    then show ?thesis
      using promoteLocked_core [OF withdraw_core [OF inv(6) withdrawn(2)]] withdrawn by (simp add: gate_inv_def)
  qed
qed

text \<open>Shutdown answers every queued waiter.\<close>

lemma owed_cong:
  assumes "length ws' = length ws" and "\<And>q. q < length ws \<Longrightarrow> owed (ws' ! q) = owed (ws ! q)"
    and "\<And>q. q < length ws \<Longrightarrow> wt_bytes (ws' ! q) = wt_bytes (ws ! q)"
  shows "owed_count ws' = owed_count ws" and "owed_bytes ws' = owed_bytes ws"
proof -
  have "map (\<lambda>w. if owed w then 1 else (0 :: int)) ws' = map (\<lambda>w. if owed w then 1 else 0) ws"
    "map (\<lambda>w. if owed w then wt_bytes w else 0) ws' = map (\<lambda>w. if owed w then wt_bytes w else 0) ws"
    using assms by (auto intro!: nth_equalityI)
  then show "owed_count ws' = owed_count ws" and "owed_bytes ws' = owed_bytes ws"
    unfolding owed_count_def owed_bytes_def by simp_all
qed

lemma shutdown_gate_inv:
  assumes "gate_inv (g, held)"
  shows "gate_inv (shutdown_gate cause g, held)"
proof (cases "rt_closing g")
  case False
  note inv = gate_invD [OF assms]
  define ws where "ws = fold (\<lambda>p ws. ws[p := refuse_waiter cause g (ws ! p)]) (rt_queue g) (rt_waiters g)"
  let ?g = "g\<lparr>rt_closing := True, rt_waiters := ws, rt_queue := [], rt_queued_bytes := 0\<rparr>"
  have d: "distinct (rt_queue g)" using inv(1) by (simp add: inv_waiters_def)
  note all = fold_update_nth [OF d, where xs = "rt_waiters g" and f = "refuse_waiter cause g", folded ws_def]
  have len: "length ws = length (rt_waiters g)" using all(1) queued_waiter(1) [OF inv(1)] by blast
  have nth: "ws ! q = (if q \<in> set (rt_queue g) then refuse_waiter cause g (rt_waiters g ! q) else rt_waiters g ! q)"
    if "q < length (rt_waiters g)" for q
    using all(2) queued_waiter(1) [OF inv(1)] that by blast
  have ready: "waiter_ok (ws ! q)" "wt_ready (ws ! q) \<or> wt_left (ws ! q)" "owed (ws ! q) = owed (rt_waiters g ! q)"
    "wt_bytes (ws ! q) = wt_bytes (rt_waiters g ! q)" if "q < length (rt_waiters g)" for q
  proof -
    have "waiter_ok (rt_waiters g ! q)"
      and "q \<in> set (rt_queue g) \<longleftrightarrow> \<not> wt_ready (rt_waiters g ! q) \<and> \<not> wt_left (rt_waiters g ! q)"
      using inv(1) that unfolding inv_waiters_def by blast+
    then show "waiter_ok (ws ! q)" "wt_ready (ws ! q) \<or> wt_left (ws ! q)"
      "owed (ws ! q) = owed (rt_waiters g ! q)" "wt_bytes (ws ! q) = wt_bytes (rt_waiters g ! q)"
      unfolding nth [OF that] by (auto simp: refuse_waiter_def waiter_ok_def owed_def)
  qed
  then have "inv_waiters ?g" unfolding inv_waiters_def by (auto simp: len)
  moreover have "inv_queue ?g"
    using inv(2) queue_bytes_nonneg [OF inv(1)] by (auto simp: inv_queue_def)
  moreover have "owed_count ws = owed_count (rt_waiters g)" "owed_bytes ws = owed_bytes (rt_waiters g)"
    by (rule owed_cong; simp add: len ready)+
  then have "inv_permits ?g held" using inv(3) by (simp add: inv_permits_def)
  ultimately have "gate_core ?g held" by (simp add: gate_core_def)
  moreover have "head_blocked ?g" by (simp add: head_blocked_def)
  ultimately show ?thesis using closeDoneLocked_inv False by (simp add: shutdown_gate_def ws_def)
qed (use assms in \<open>simp add: shutdown_gate_def\<close>)

lemma cancel_inv:
  assumes "gate_inv (g, held)" and "p < length (rt_waiters g)"
  shows "gate_inv (g\<lparr>rt_waiters := (rt_waiters g)[p := (rt_waiters g ! p)\<lparr>wt_ctx := ctx\<rparr>]\<rparr>, held)"
proof -
  note inv = gate_invD [OF assms(1)]
  let ?ws = "(rt_waiters g)[p := (rt_waiters g ! p)\<lparr>wt_ctx := ctx\<rparr>]"
  have "inv_waiters (g\<lparr>rt_waiters := ?ws\<rparr>)"
    using inv(1) assms(2) by (auto simp: inv_waiters_def waiter_update waiter_ok_def)
  moreover have "queue_bytes ?ws (rt_queue g) = queue_bytes (rt_waiters g) (rt_queue g)"
    by (rule queue_bytes_cong) (simp add: waiter_update [OF assms(2)])
  then have "inv_queue (g\<lparr>rt_waiters := ?ws\<rparr>)" using inv(2) by (simp add: inv_queue_def)
  moreover have "inv_permits (g\<lparr>rt_waiters := ?ws\<rparr>) held"
    using inv(3) assms(2) by (simp add: inv_permits_def owed_update owed_def)
  moreover have "head_blocked (g\<lparr>rt_waiters := ?ws\<rparr>)"
    using inv(4) by (cases "rt_queue g") (auto simp: head_blocked_def fits_def waiter_update [OF assms(2)])
  ultimately show ?thesis using inv(5) by (simp add: gate_inv_def gate_core_def)
qed

lemma base_inv:
  assumes "gate_inv (g, held)"
  shows "gate_inv (g\<lparr>rt_base := ctx\<rparr>, held)"
proof -
  note inv = gate_invD [OF assms]
  have "head_blocked (g\<lparr>rt_base := ctx\<rparr>)"
    using inv(4) by (cases "rt_queue g") (simp_all add: head_blocked_def fits_def)
  then show ?thesis
    using inv(1-3, 5) by (simp add: gate_inv_def gate_core_def inv_waiters_def inv_queue_def inv_permits_def)
qed

lemma operation_New_Inr:
  assumes "operation_New ctx opts = Inr g"
  obtains norm c where "operation_normalize opts = Inr norm"
    "g = \<lparr>rt_options = norm, rt_base = c, rt_closing = False, rt_closed = False, rt_active = 0,
      rt_work_bytes = 0, rt_queued_bytes = 0, rt_queue = [], rt_waiters = []\<rparr>"
  using assms unfolding operation_New_def
  by (cases ctx; cases "operation_normalize opts") (auto split: if_splits)

interpretation gates: transition_system gate_initial gate_step gate_inv
proof
  show "gate_inv gh" if "gate_initial gh" for gh
  proof -
    obtain g held where gh: "gh = (g, held)" by (cases gh)
    with that obtain ctx opts where new: "operation_New ctx opts = Inr g" "held = {#}"
      by (auto simp: gate_initial_def)
    from new(1) obtain norm c where "operation_normalize opts = Inr norm"
      "g = \<lparr>rt_options = norm, rt_base = c, rt_closing = False, rt_closed = False, rt_active = 0,
        rt_work_bytes = 0, rt_queued_bytes = 0, rt_queue = [], rt_waiters = []\<rparr>"
      by (rule operation_New_Inr)
    then show ?thesis
      using operation_normalize_Inr [of opts norm] new(2)
      by (simp add: gh gate_inv_def gate_core_def inv_waiters_def inv_queue_def inv_permits_def head_blocked_def
          owed_count_def owed_bytes_def)
  qed
  show "gate_inv t" if "gate_inv s" "gate_step s t" for s t
    using that(2)
  proof cases
    case (gt_enter ctx bytes g result g' held)
    then show ?thesis using enter_inv that(1) by simp
  next
    case (gt_return p g result g' held)
    then show ?thesis using acquire_return_inv that(1) by simp
  next
    case (gt_shutdown g held cause)
    then show ?thesis using shutdown_gate_inv that(1) by simp
  next
    case (gt_release bytes held g)
    then have "gate_core g (add_mset bytes (held - {#bytes#}))" using that(1) by (simp add: gate_inv_def)
    then show ?thesis using releasePermitLocked_inv gt_release by simp
  next
    case (gt_cancel p g held ctx)
    then show ?thesis using that(1) cancel_inv by simp
  next
    case (gt_base g held ctx)
    then show ?thesis using that(1) base_inv by simp
  qed
qed

section \<open>What admission guarantees\<close>

lemma owed_card:
  "owed_count ws = int (card {p. p < length ws \<and> owed (ws ! p)})"
  "owed_bytes ws = (\<Sum>p | p < length ws \<and> owed (ws ! p). wt_bytes (ws ! p))"
proof -
  have split: "(\<Sum>p<length ws. if owed (ws ! p) then f p else 0) = (\<Sum>p | p < length ws \<and> owed (ws ! p). f p)"
    for f :: "nat \<Rightarrow> int"
    using sum.inter_filter [of "{..<length ws}" f "\<lambda>p. owed (ws ! p)"] by simp
  have "owed_count ws = (\<Sum>p<length ws. if owed (ws ! p) then 1 else 0)"
    "owed_bytes ws = (\<Sum>p<length ws. if owed (ws ! p) then wt_bytes (ws ! p) else 0)"
    unfolding owed_count_def owed_bytes_def by (simp_all add: sum_list_sum_nth atLeast0LessThan)
  then show "owed_count ws = int (card {p. p < length ws \<and> owed (ws ! p)})"
    "owed_bytes ws = (\<Sum>p | p < length ws \<and> owed (ws ! p). wt_bytes (ws ! p))"
    by (simp_all add: split)
qed

text \<open>The runtime's admission counters are exact and bounded. In every reachable state the active count
  is the number of permits held by callers or granted to waiters that have not returned yet, the work
  bytes are the sum of their declared bytes, both within the options; the queue and its bytes are exactly
  the unanswered waiters and theirs, within the options too.\<close>

theorem admission_counters_exact:
  assumes "reach gate_initial gate_step (g, held)"
  shows "rt_active g = int (size held) + int (card {p. p < length (rt_waiters g) \<and> owed (rt_waiters g ! p)}) \<and>
    rt_work_bytes g = sum_mset held +
      (\<Sum>p | p < length (rt_waiters g) \<and> owed (rt_waiters g ! p). wt_bytes (rt_waiters g ! p)) \<and>
    rt_active g \<le> oopt_max_active (rt_options g) \<and> rt_work_bytes g \<le> oopt_max_work_bytes (rt_options g) \<and>
    distinct (rt_queue g) \<and> set (rt_queue g) = {p. p < length (rt_waiters g) \<and>
      \<not> wt_ready (rt_waiters g ! p) \<and> \<not> wt_left (rt_waiters g ! p)} \<and>
    rt_queued_bytes g = (\<Sum>p\<leftarrow>rt_queue g. wt_bytes (rt_waiters g ! p)) \<and>
    int (length (rt_queue g)) \<le> oopt_max_queued (rt_options g) \<and>
    rt_queued_bytes g \<le> oopt_max_queued_bytes (rt_options g)"
  using gate_invD(1-3) [OF gates.reach_inv [OF assms]]
  by (auto simp: inv_waiters_def inv_queue_def inv_permits_def owed_card queue_bytes_def)

text \<open>C33: capacity is never idle while a caller waits, and a closing runtime leaves no caller waiting. In
  every reachable state the head of a non-empty queue does not fit the free capacity; every waiter that
  is not in the queue has been answered or has left; and a closing runtime has an empty queue.\<close>

theorem no_idle_capacity:
  assumes "reach gate_initial gate_step (g, held)"
  shows "(\<forall>p rest. rt_queue g = p # rest \<longrightarrow> \<not> fits g (wt_bytes (rt_waiters g ! p))) \<and>
    (\<forall>p. p < length (rt_waiters g) \<and> p \<notin> set (rt_queue g) \<longrightarrow>
       wt_left (rt_waiters g ! p) \<or>
       wt_ready (rt_waiters g ! p) \<and> (wt_granted (rt_waiters g ! p) \<noteq> (wt_err (rt_waiters g ! p) \<noteq> None))) \<and>
    (rt_closing g \<longrightarrow> rt_queue g = [])"
proof -
  note inv = gate_invD [OF gates.reach_inv [OF assms]]
  have "wt_left (rt_waiters g ! p) \<or>
       wt_ready (rt_waiters g ! p) \<and> (wt_granted (rt_waiters g ! p) \<noteq> (wt_err (rt_waiters g ! p) \<noteq> None))"
    if "p < length (rt_waiters g)" "p \<notin> set (rt_queue g)" for p
  proof -
    have "waiter_ok (rt_waiters g ! p)" "wt_ready (rt_waiters g ! p) \<or> wt_left (rt_waiters g ! p)"
      using inv(1) that unfolding inv_waiters_def by blast+
    then show ?thesis by (auto simp: waiter_ok_def)
  qed
  then show ?thesis using inv(2, 4) by (auto simp: inv_queue_def head_blocked_def)
qed

text \<open>The runtime is closed exactly when it is closing and every permit has been returned: no caller
  holds one and no granted waiter still has to collect its own.\<close>

theorem closed_means_drained:
  assumes "reach gate_initial gate_step (g, held)"
  shows "rt_closed g \<longleftrightarrow> rt_closing g \<and> held = {#} \<and>
    (\<forall>p. p < length (rt_waiters g) \<longrightarrow> wt_granted (rt_waiters g ! p) \<longrightarrow> wt_left (rt_waiters g ! p))"
proof -
  note inv = gate_invD [OF gates.reach_inv [OF assms]]
  let ?O = "{p. p < length (rt_waiters g) \<and> owed (rt_waiters g ! p)}"
  have "rt_active g = int (size held) + int (card ?O)"
    using inv(3) by (simp add: inv_permits_def owed_card)
  then have "rt_active g = 0 \<longleftrightarrow> size held = 0 \<and> card ?O = 0" by linarith
  then have "rt_active g = 0 \<longleftrightarrow> held = {#} \<and> ?O = {}" by simp
  then have "rt_active g = 0 \<longleftrightarrow> held = {#} \<and>
      (\<forall>p. p < length (rt_waiters g) \<longrightarrow> wt_granted (rt_waiters g ! p) \<longrightarrow> wt_left (rt_waiters g ! p))"
    by (auto simp: owed_def)
  then show ?thesis using inv(2, 5) by (auto simp: inv_queue_def)
qed

text \<open>A served waiter: granted when its context is live, refused otherwise.\<close>

definition served :: "waiter \<Rightarrow> waiter \<Rightarrow> bool" where
  "served before after \<longleftrightarrow> wt_ready after \<and> wt_bytes after = wt_bytes before \<and>
     (if ctx_err (wt_ctx before) = None then wt_granted after \<and> wt_err after = None
      else \<not> wt_granted after \<and> wt_err after \<noteq> None)"

lemma promote_head_served:
  assumes "gate_core g held" and "rt_queue g = p # rest"
  shows "served (rt_waiters g ! p) (rt_waiters (promote_head p g) ! p)"
    and "q \<noteq> p \<Longrightarrow> rt_waiters (promote_head p g) ! q = rt_waiters g ! q"
  using queued_waiter [OF gate_coreD(1) [OF assms(1)], of p] assms(2)
  by (auto simp: served_def promote_head_def Let_def)

lemma promote_loop_serves:
  "gate_core g held \<Longrightarrow> \<exists>k \<le> length (rt_queue g). rt_queue (promote_loop g) = drop k (rt_queue g) \<and>
    (\<forall>p. if p \<in> set (take k (rt_queue g)) then served (rt_waiters g ! p) (rt_waiters (promote_loop g) ! p)
      else rt_waiters (promote_loop g) ! p = rt_waiters g ! p)"
proof (induction g rule: promote_loop.induct)
  case (1 g)
  show ?case
  proof (cases "\<exists>p rest. rt_queue g = p # rest \<and>
      \<not> (ctx_err (wt_ctx (rt_waiters g ! p)) = None \<and> \<not> fits g (wt_bytes (rt_waiters g ! p)))")
    case False
    then have "promote_loop g = g" by (cases "rt_queue g") (auto simp: promote_loop.simps [of g])
    then show ?thesis by (intro exI [of _ 0]) simp
  next
    case True
    then obtain p rest where p: "rt_queue g = p # rest"
      "\<not> (ctx_err (wt_ctx (rt_waiters g ! p)) = None \<and> \<not> fits g (wt_bytes (rt_waiters g ! p)))" by blast
    let ?g = "promote_head p g"
    have loop: "promote_loop g = promote_loop ?g" using p by (auto simp: promote_loop.simps [of g])
    have "gate_core ?g held" using p(2) by (intro promote_head_core [OF 1(2) p(1)]) auto
    from 1(1) [OF p(1, 2) this] obtain k where k: "k \<le> length rest" "rt_queue (promote_loop ?g) = drop k rest"
      "\<And>q. if q \<in> set (take k rest) then served (rt_waiters ?g ! q) (rt_waiters (promote_loop ?g) ! q)
        else rt_waiters (promote_loop ?g) ! q = rt_waiters ?g ! q"
      using p(1) by auto
    have "p \<notin> set rest" using p(1) gate_coreD(1) [OF 1(2)] by (simp add: inv_waiters_def)
    then have p_out: "p \<notin> set (take k rest)" using set_take_subset by fastforce
    have "if q \<in> set (take (Suc k) (p # rest)) then served (rt_waiters g ! q) (rt_waiters (promote_loop ?g) ! q)
        else rt_waiters (promote_loop ?g) ! q = rt_waiters g ! q" for q
      using k(3) [of q] p_out promote_head_served [OF 1(2) p(1)] by (cases "q = p") auto
    then show ?thesis using k(1, 2) p(1) loop by (intro exI [of _ "Suc k"]) simp
  qed
qed


section \<open>A runtime with one permit and one waiter\<close>

definition ex_gate :: gate where
  "ex_gate = \<lparr>rt_options = ex_options, rt_base = live_ctx, rt_closing = False, rt_closed = False, rt_active = 0,
     rt_work_bytes = 0, rt_queued_bytes = 0, rt_queue = [], rt_waiters = []\<rparr>"

definition ex_waiter :: waiter where
  "ex_waiter = \<lparr>wt_ctx = live_ctx, wt_bytes = 5, wt_ready = False, wt_granted = False, wt_err = None,
     wt_left = False\<rparr>"

definition ex_busy :: gate where
  "ex_busy = ex_gate\<lparr>rt_active := 1, rt_work_bytes := 4, rt_queued_bytes := 5, rt_queue := [0],
     rt_waiters := [ex_waiter]\<rparr>"

lemmas ex_gate_defs = ex_gate_def ex_waiter_def ex_busy_def live_ctx_def ex_options_def

lemma ex_gate_start: "reach gate_initial gate_step (ex_gate, {#})"
proof (rule reach_initial)
  have "operation_New (Some live_ctx) ex_options = Inr ex_gate"
    by (simp add: operation_New_def ex_options_normal ex_gate_def live_ctx_def)
  then show "gate_initial (ex_gate, {#})" by (auto simp: gate_initial_def)
qed

lemma ex_busy_reached: "reach gate_initial gate_step (ex_busy, {#4#})"
proof -
  let ?one = "ex_gate\<lparr>rt_active := 1, rt_work_bytes := 4\<rparr>"
  have one: "acquire_enter live_ctx 4 ex_gate = (Inr None, ?one)"
    and two: "acquire_enter live_ctx 5 ?one = (Inr (Some 0), ex_busy)"
    by (simp_all add: acquire_enter_def ex_gate_defs fits_def Let_def)
  have "reach gate_initial gate_step (?one, {#4#})"
    using reach_step [where step = gate_step, OF ex_gate_start gt_enter [OF one]] by simp
  from reach_step [where step = gate_step, OF this gt_enter [OF two]] show ?thesis by simp
qed

theorem admission_counters_exact_witness:
  "rt_active ex_busy = 1 \<and> {p. p < length (rt_waiters ex_busy) \<and> owed (rt_waiters ex_busy ! p)} = {} \<and>
    rt_queued_bytes ex_busy = 5"
  using admission_counters_exact [OF ex_busy_reached] by (simp add: ex_gate_defs owed_def)

theorem no_idle_capacity_witness: "rt_queue ex_busy = [0] \<and> \<not> fits ex_busy 5"
  using no_idle_capacity [OF ex_busy_reached] by (simp add: ex_gate_defs)

theorem closed_means_drained_witness:
  "rt_closed (shutdown_gate None ex_gate) \<and> \<not> rt_closed (shutdown_gate None ex_busy)"
proof -
  have "reach gate_initial gate_step (shutdown_gate None ex_gate, {#})"
    by (rule reach_step [where step = gate_step, OF ex_gate_start gt_shutdown])
  moreover have "reach gate_initial gate_step (shutdown_gate None ex_busy, {#4#})"
    by (rule reach_step [where step = gate_step, OF ex_busy_reached gt_shutdown])
  moreover have "rt_closing (shutdown_gate None ex_gate)" "rt_waiters (shutdown_gate None ex_gate) = []"
    by (simp_all add: shutdown_gate_def closeDoneLocked_def ex_gate_defs)
  ultimately show ?thesis using closed_means_drained by simp
qed


end
