(* ===== verification/Operation_Observer.thy ===== *)
theory Operation_Observer
  imports Operation_Options "HOL-Library.Sublist"
begin

text \<open>
  \<^verbatim>\<open>adapters/v1/observer.go\<close>: the optional bounded event queue that drops and counts what does not
  fit. A nil observer is \<open>None\<close>. A call that would wait for a change returns \<open>None\<close>.
\<close>

section \<open>Model\<close>

type_synonym Phase = "8 word"

abbreviation Admitted :: Phase where
  "Admitted \<equiv> 1"

abbreviation Resolved :: Phase where
  "Resolved \<equiv> 2"

abbreviation Released :: Phase where
  "Released \<equiv> 3"

record Event =
  event_operation :: string
  event_phase :: Phase
  event_failed :: bool

record observer =
  ob_capacity :: int
  ob_queue :: "Event list"
  ob_dropped :: nat
  ob_closed :: bool

record ObservationStatus =
  os_queued :: nat
  os_dropped :: nat
  os_closed :: bool

definition NewObserver :: "int \<Rightarrow> gerr + observer" where
  "NewObserver capacity =
     (if capacity < 1 \<or> capacity > 65536
      then Inl (failureOf operation_ErrOptions ''observer'' [] no_operation [])
      else Inr \<lparr>ob_capacity = capacity, ob_queue = [], ob_dropped = 0, ob_closed = False\<rparr>)"

definition Observer_publish :: "Event \<Rightarrow> observer option \<Rightarrow> observer option" where
  "Observer_publish event handle =
     (case handle of
        None \<Rightarrow> None
      | Some ob \<Rightarrow>
          Some (if ob_closed ob \<or> int (length (ob_queue ob)) = ob_capacity ob
            then ob\<lparr>ob_dropped := sat_inc64 (ob_dropped ob)\<rparr>
            else ob\<lparr>ob_queue := ob_queue ob @ [event]\<rparr>))"

definition Observer_Next ::
  "observer option \<Rightarrow> go_ctx option \<Rightarrow> (gerr + Event) option \<times> observer option" where
  "Observer_Next handle ctx =
     (case handle of
        None \<Rightarrow> (Some (Inl (failureOf operation_ErrHandle ''observe'' [] no_operation [])), None)
      | Some ob \<Rightarrow>
          (case ctx of
             None \<Rightarrow> (Some (Inl (failureOf operation_ErrOptions ''observe'' [] no_operation [])), Some ob)
           | Some c \<Rightarrow>
               if ctx_err c \<noteq> None
               then (Some (Inl (failureOf operation_ErrWait ''observe'' [] no_operation
                 [ctx_err c, ctx_cause c])), Some ob)
               else
                 (case ob_queue ob of
                    event # rest \<Rightarrow> (Some (Inr event), Some (ob\<lparr>ob_queue := rest\<rparr>))
                  | [] \<Rightarrow>
                      if ob_closed ob
                      then (Some (Inl (failureOf operation_ErrClosed ''observe'' [] no_operation
                        [Some io_EOF])), Some ob)
                      else (None, Some ob))))"

definition Observer_Seal :: "observer option \<Rightarrow> gerr option \<times> observer option" where
  "Observer_Seal handle =
     (case handle of
        None \<Rightarrow> (Some (failureOf operation_ErrHandle ''seal_observer'' [] no_operation []), None)
      | Some ob \<Rightarrow> (None, Some (ob\<lparr>ob_closed := True\<rparr>)))"

definition Observer_Inspect :: "observer option \<Rightarrow> gerr + ObservationStatus" where
  "Observer_Inspect handle =
     (case handle of
        None \<Rightarrow> Inl (failureOf operation_ErrHandle ''inspect_observer'' [] no_operation [])
      | Some ob \<Rightarrow> Inr \<lparr>os_queued = length (ob_queue ob), os_dropped = ob_dropped ob,
          os_closed = ob_closed ob\<rparr>)"

section \<open>Conservation\<close>

text \<open>An observer with the events published to it and those read from it.\<close>

inductive observer_step ::
  "observer \<times> Event list \<times> Event list \<Rightarrow> observer \<times> Event list \<times> Event list \<Rightarrow> bool" where
  obs_publish: "Observer_publish event (Some ob) = Some ob' \<Longrightarrow>
    observer_step (ob, published, read) (ob', published @ [event], read)"
| obs_read: "Observer_Next (Some ob) (Some c) = (Some (Inr event), Some ob') \<Longrightarrow>
    observer_step (ob, published, read) (ob', published, read @ [event])"
| obs_seal: "Observer_Seal (Some ob) = (None, Some ob') \<Longrightarrow>
    observer_step (ob, published, read) (ob', published, read)"

definition observer_initial :: "observer \<times> Event list \<times> Event list \<Rightarrow> bool" where
  "observer_initial s \<longleftrightarrow> (\<exists>capacity ob. NewObserver capacity = Inr ob \<and> s = (ob, [], []))"

definition observer_inv :: "observer \<times> Event list \<times> Event list \<Rightarrow> bool" where
  "observer_inv s \<longleftrightarrow> (case s of (ob, published, read) \<Rightarrow>
     ob_capacity ob \<in> {1..65536} \<and> int (length (ob_queue ob)) \<le> ob_capacity ob \<and>
     subseq (read @ ob_queue ob) published \<and> ob_dropped ob \<le> MaxUint64 \<and>
     (ob_dropped ob < MaxUint64 \<longrightarrow>
        length read + length (ob_queue ob) + ob_dropped ob = length published))"

lemma observer_publish_inv:
  assumes "observer_inv (ob, published, read)" and "Observer_publish event (Some ob) = Some ob'"
  shows "observer_inv (ob', published @ [event], read)"
proof (cases "ob_closed ob \<or> int (length (ob_queue ob)) = ob_capacity ob")
  case True
  then have "ob' = ob\<lparr>ob_dropped := sat_inc64 (ob_dropped ob)\<rparr>"
    using assms(2) by (simp add: Observer_publish_def)
  then show ?thesis
    using assms(1) by (auto simp: observer_inv_def sat_inc64_def intro: list_emb_prefix)
next
  case False
  then have "ob' = ob\<lparr>ob_queue := ob_queue ob @ [event]\<rparr>"
    using assms(2) by (simp add: Observer_publish_def)
  moreover have "subseq ((read @ ob_queue ob) @ [event]) (published @ [event])"
    using assms(1) by (intro list_emb_append_mono) (simp_all add: observer_inv_def)
  ultimately show ?thesis using False assms(1) by (simp add: observer_inv_def)
qed

interpretation observers: transition_system observer_initial observer_step observer_inv
proof
  show "observer_inv s" if "observer_initial s" for s
    using that by (auto simp: observer_initial_def NewObserver_def observer_inv_def split: if_splits)
  show "observer_inv t" if "observer_inv s" "observer_step s t" for s t
    using that(2, 1)
  proof cases
    case (obs_publish event ob ob' published read)
    then show ?thesis using observer_publish_inv that(1) by simp
  next
    case (obs_read ob c event ob' published read)
    then obtain rest where "ob_queue ob = event # rest" "ob' = ob\<lparr>ob_queue := rest\<rparr>"
      by (auto simp: Observer_Next_def split: if_splits list.splits)
    then show ?thesis using obs_read that(1) by (simp add: observer_inv_def)
  next
    case (obs_seal ob ob' published read)
    then have "ob' = ob\<lparr>ob_closed := True\<rparr>" by (simp add: Observer_Seal_def)
    then show ?thesis using obs_seal that(1) by (simp add: observer_inv_def)
  qed
qed

text \<open>C26: an observer never reorders, invents or silently loses events. In every state it can reach,
  the events read so far followed by those queued are a subsequence of the published ones, the queue is
  within its capacity, and unless the drop counter has saturated the drops are exactly the published
  events that are neither read nor queued.\<close>

theorem observer_conserves_events:
  assumes "reach observer_initial observer_step (ob, published, read)"
  shows "subseq (read @ ob_queue ob) published \<and> int (length (ob_queue ob)) \<le> ob_capacity ob \<and>
    (ob_dropped ob < MaxUint64 \<longrightarrow>
       length published = length read + length (ob_queue ob) + ob_dropped ob)"
  using observers.reach_inv [OF assms] by (simp add: observer_inv_def)

theorem observer_conserves_events_witness:
  "let event = \<lparr>event_operation = ''a'', event_phase = Admitted, event_failed = False\<rparr>;
       ob = the (Observer_publish event (Observer_publish event (Some
         \<lparr>ob_capacity = 1, ob_queue = [], ob_dropped = 0, ob_closed = False\<rparr>)))
   in length (ob_queue ob) + ob_dropped ob = 2 \<and> length (ob_queue ob) = 1"
proof -
  let ?event = "\<lparr>event_operation = ''a'', event_phase = Admitted, event_failed = False\<rparr>"
  let ?new = "\<lparr>ob_capacity = 1, ob_queue = [], ob_dropped = 0, ob_closed = False\<rparr>"
  let ?one = "?new\<lparr>ob_queue := [?event]\<rparr>"
  let ?two = "?one\<lparr>ob_dropped := 1\<rparr>"
  have one: "Observer_publish ?event (Some ?new) = Some ?one"
    and two: "Observer_publish ?event (Some ?one) = Some ?two"
    by (simp_all add: Observer_publish_def sat_inc64_def MaxUint64_def)
  have "reach observer_initial observer_step (?new, [], [])"
    unfolding observer_initial_def
    by (rule reach_initial, rule exI [of _ 1], rule exI [of _ ?new]) (simp add: NewObserver_def)
  then have "reach observer_initial observer_step (?one, [] @ [?event], [])"
    by (rule reach_step) (rule obs_publish [OF one])
  then have "reach observer_initial observer_step (?two, ([] @ [?event]) @ [?event], [])"
    by (rule reach_step) (rule obs_publish [OF two])
  from observer_conserves_events [OF this]
  have "length (ob_queue ?two) + ob_dropped ?two = 2" by (simp add: MaxUint64_def)
  then show ?thesis unfolding Let_def one two option.sel by simp
qed

end
