(* ===== verification/Operation_Runtime.thy ===== *)
theory Operation_Runtime
  imports Operation_Admission Operation_Observer
begin

text \<open>
  The operations of a runtime (\<^verbatim>\<open>adapters/v1/runtime.go\<close>, and the producer and receipt handles of
  \<^verbatim>\<open>call.go\<close>). A node and the \<^verbatim>\<open>resultState\<close> it reports into are one record, nodes, guards and
  observers are named by their index in the order the code allocates them. The channels \<^verbatim>\<open>ready\<close> and
  \<^verbatim>\<open>done\<close> are closed exactly when \<open>nd_resolved\<close> and \<open>nd_released\<close> are set, in the same lock sections.
\<close>

section \<open>State\<close>

record Source =
  src_name :: string
  src_generation :: nat

text \<open>What \<^verbatim>\<open>releaseSource\<close> holds: nothing, the function that stops following the parent's context, or
  the \<^verbatim>\<open>Release\<close> of a borrowed generation.\<close>

datatype release_source = NoSource | StopParent | LeaseRelease nat

text \<open>\<open>nd_running\<close>: the submitting stack has not returned from \<^verbatim>\<open>dispatch\<close>.\<close>

record 'v node =
  nd_parent :: "nat option"
  nd_root :: nat
  nd_request :: Request
  nd_sequence :: nat
  nd_depth :: int
  nd_family :: int
  nd_children :: int
  nd_refs :: int
  nd_guards :: int
  nd_resolving :: bool
  nd_resolved :: bool
  nd_failed :: bool
  nd_finishing :: bool
  nd_released :: bool
  nd_running :: bool
  nd_ctx :: go_ctx
  nd_source :: Source
  nd_release :: release_source
  nd_outcome :: "'v Outcome"
  nd_observer :: "nat option"

text \<open>A guard that has been released gives its reference back in a later lock section.\<close>

datatype guard_state = GuardOpen nat | GuardLeaving nat | GuardReleased

record 'v runtime =
  rn_gate :: gate
  rn_sequence :: nat
  rn_roots :: "nat list"
  rn_nodes :: "'v node list"
  rn_guards :: "guard_state list"
  rn_observers :: "observer list"

abbreviation rn_name :: "'v runtime \<Rightarrow> string" where
  "rn_name rt \<equiv> rt_name (rn_gate rt)"

definition update_node :: "nat \<Rightarrow> ('v node \<Rightarrow> 'v node) \<Rightarrow> 'v runtime \<Rightarrow> 'v runtime" where
  "update_node n f rt = rt\<lparr>rn_nodes := (rn_nodes rt)[n := f (rn_nodes rt ! n)]\<rparr>"

definition publish_event :: "nat option \<Rightarrow> Event \<Rightarrow> 'v runtime \<Rightarrow> 'v runtime" where
  "publish_event observer event rt =
     (case observer of
        None \<Rightarrow> rt
      | Some obs \<Rightarrow> rt\<lparr>rn_observers := (rn_observers rt)
          [obs := the (Observer_publish event (Some (rn_observers rt ! obs)))]\<rparr>)"

definition Runtime_New :: "go_ctx option \<Rightarrow> operation_options \<Rightarrow> observer list \<Rightarrow> gerr + 'v runtime" where
  "Runtime_New ctx opts observers =
     (case operation_New ctx opts of
        Inl err \<Rightarrow> Inl err
      | Inr gate \<Rightarrow> Inr \<lparr>rn_gate = gate, rn_sequence = 0, rn_roots = [], rn_nodes = [], rn_guards = [],
          rn_observers = observers\<rparr>)"

section \<open>Nodes\<close>

text \<open>\<^verbatim>\<open>cancellation\<close> walks from a node to its root. A parent was allocated before its child (\<open>linked\<close> below), so
  the comparison that makes the recursion well-founded always holds.\<close>

fun cancellation :: "'v node list \<Rightarrow> nat \<Rightarrow> gerr option" where
  "cancellation nodes n =
     (let nd = nodes ! n in
      if ctx_err (nd_ctx nd) \<noteq> None then errors_join [ctx_err (nd_ctx nd), ctx_cause (nd_ctx nd)]
      else (case nd_parent nd of None \<Rightarrow> None | Some p \<Rightarrow> if p < n then cancellation nodes p else None))"

declare cancellation.simps [simp del]

definition parent_sequence :: "'v node list \<Rightarrow> nat \<Rightarrow> nat" where
  "parent_sequence nodes n =
     (case nd_parent (nodes ! n) of None \<Rightarrow> 0 | Some p \<Rightarrow> nd_sequence (nodes ! p))"

definition node_details :: "'v node list \<Rightarrow> nat \<Rightarrow> operation_details" where
  "node_details nodes n =
     \<lparr>operation_sequence = nd_sequence (nodes ! n), operation_parent = parent_sequence nodes n,
      operation_pending = (\<not> nd_released (nodes ! n))\<rparr>"

abbreviation empty_outcome :: "'v Outcome" where
  "empty_outcome \<equiv> \<lparr>out_value = None, out_primary = None, out_cleanup = None\<rparr>"

definition new_node ::
  "go_ctx \<Rightarrow> Request \<Rightarrow> nat option \<Rightarrow> nat option \<Rightarrow> nat \<Rightarrow> 'v runtime \<Rightarrow> 'v node" where
  "new_node lifetime request parent observer n rt =
     \<lparr>nd_parent = parent,
      nd_root = (case parent of None \<Rightarrow> n | Some p \<Rightarrow> nd_root (rn_nodes rt ! p)),
      nd_request = request, nd_sequence = rn_sequence rt + 1,
      nd_depth = (case parent of None \<Rightarrow> 1 | Some p \<Rightarrow> nd_depth (rn_nodes rt ! p) + 1),
      nd_family = (if parent = None then 1 else 0), nd_children = 0, nd_refs = 1, nd_guards = 0,
      nd_resolving = False, nd_resolved = False, nd_failed = False, nd_finishing = False,
      nd_released = False, nd_running = True, nd_ctx = lifetime,
      nd_source = (case parent of None \<Rightarrow> \<lparr>src_name = [], src_generation = 0\<rparr>
        | Some p \<Rightarrow> nd_source (rn_nodes rt ! p)),
      nd_release = (if parent = None then NoSource else StopParent),
      nd_outcome = empty_outcome, nd_observer = observer\<rparr>"

definition newNodeLocked ::
  "go_ctx \<Rightarrow> Request \<Rightarrow> nat option \<Rightarrow> nat option \<Rightarrow> 'v runtime \<Rightarrow> (gerr + nat) \<times> 'v runtime" where
  "newNodeLocked lifetime request parent observer rt =
     (let g = rn_gate rt; opts = rt_options g; n = length (rn_nodes rt);
          parent_released = (case parent of None \<Rightarrow> True | Some p \<Rightarrow> nd_released (rn_nodes rt ! p));
          cause = (case parent of None \<Rightarrow> None | Some p \<Rightarrow> cancellation (rn_nodes rt) p);
          pending = no_operation\<lparr>operation_pending := \<not> parent_released\<rparr>;
          sealed = (case parent of None \<Rightarrow> False
            | Some p \<Rightarrow> nd_finishing (rn_nodes rt ! p) \<or> nd_released (rn_nodes rt ! p) \<or> cause \<noteq> None);
          full = (case parent of None \<Rightarrow> False
            | Some p \<Rightarrow> nd_family (rn_nodes rt ! nd_root (rn_nodes rt ! p)) \<ge> oopt_max_tasks opts \<or>
                nd_depth (rn_nodes rt ! p) \<ge> oopt_max_depth opts)
      in if rn_sequence rt = MaxUint64
         then (Inl (failureOf operation_ErrLimit ''sequence'' (rn_name rt) no_operation []), rt)
         else if rt_closing g \<or> ctx_err (rt_base g) \<noteq> None
         then (Inl (failureOf operation_ErrClosed ''begin'' (rn_name rt) no_operation []), rt)
         else if ctx_err lifetime \<noteq> None
         then (Inl (failureOf operation_ErrWait ''begin'' (rn_name rt) no_operation
           [ctx_err lifetime, ctx_cause lifetime]), rt)
         else if sealed then (Inl (failureOf operation_ErrClosed ''child'' (rn_name rt) pending [cause]), rt)
         else if full then (Inl (failureOf operation_ErrLimit ''child'' (rn_name rt) pending []), rt)
         else
           (let added = rt\<lparr>rn_sequence := rn_sequence rt + 1,
              rn_nodes := rn_nodes rt @ [new_node lifetime request parent observer n rt]\<rparr>
            in (Inr n,
                case parent of
                  None \<Rightarrow> added\<lparr>rn_roots := rn_roots rt @ [n]\<rparr>
                | Some p \<Rightarrow>
                    update_node (nd_root (rn_nodes rt ! p)) (\<lambda>nd. nd\<lparr>nd_family := nd_family nd + 1\<rparr>)
                      (update_node p (\<lambda>nd. nd\<lparr>nd_children := nd_children nd + 1\<rparr>) added))))"

text \<open>\<^verbatim>\<open>canFinishLocked\<close> answers whether the node's work has just ended, and then settles an outcome that
  nobody reported.\<close>

definition canFinishLocked :: "nat \<Rightarrow> 'v runtime \<Rightarrow> bool \<times> 'v runtime" where
  "canFinishLocked n rt =
     (let nd = rn_nodes rt ! n in
      if nd_refs nd \<noteq> 0 \<or> nd_children nd \<noteq> 0 \<or> nd_finishing nd then (False, rt)
      else if nd_resolved nd then (True, update_node n (\<lambda>nd. nd\<lparr>nd_finishing := True\<rparr>) rt)
      else
        (let missing = failureOf operation_ErrOutcome (req_operation (nd_request nd)) (rn_name rt)
               (node_details (rn_nodes rt) n) [cancellation (rn_nodes rt) n]
         in (True, publish_event (nd_observer nd)
               \<lparr>event_operation = req_operation (nd_request nd), event_phase = Resolved, event_failed = True\<rparr>
               (update_node n (\<lambda>nd. nd\<lparr>nd_finishing := True,
                 nd_outcome := \<lparr>out_value = None, out_primary = Some missing, out_cleanup = None\<rparr>,
                 nd_resolved := True, nd_failed := True\<rparr>) rt))))"

text \<open>The node \<^verbatim>\<open>finish\<close> leaves behind; \<open>released\<close> is what its \<^verbatim>\<open>releaseSource\<close> returned.\<close>

definition ended_node :: "gerr option \<Rightarrow> 'v node \<Rightarrow> 'v node" where
  "ended_node released nd =
     (let cleanup = (case nd_release nd of LeaseRelease _ \<Rightarrow> released | _ \<Rightarrow> None) in
      nd\<lparr>nd_release := NoSource,
        nd_outcome := (if cleanup = None then nd_outcome nd
          else (nd_outcome nd)\<lparr>out_cleanup := errors_join [out_cleanup (nd_outcome nd), cleanup]\<rparr>),
        nd_failed := (nd_failed nd \<or> cleanup \<noteq> None), nd_released := True,
        nd_ctx := cancel_ctx None (nd_ctx nd)\<rparr>)"

text \<open>One pass of \<^verbatim>\<open>finish\<close>. The first component is the node the loop goes on with.\<close>

definition finish_one :: "gerr option \<Rightarrow> nat \<Rightarrow> 'v runtime \<Rightarrow> nat option \<times> 'v runtime" where
  "finish_one released n rt =
     (let nd = rn_nodes rt ! n;
          ended = publish_event (nd_observer nd)
            \<lparr>event_operation = req_operation (nd_request nd), event_phase = Released,
             event_failed = nd_failed (ended_node released nd)\<rparr>
            (update_node n (ended_node released) rt)
      in case nd_parent nd of
           None \<Rightarrow> (None, ended\<lparr>rn_roots := remove1 n (rn_roots ended),
             rn_gate := releasePermitLocked (req_work_bytes (nd_request nd)) (rn_gate ended)\<rparr>)
         | Some p \<Rightarrow>
             (case canFinishLocked p
                (update_node (nd_root nd) (\<lambda>nd. nd\<lparr>nd_family := nd_family nd - 1\<rparr>)
                  (update_node p (\<lambda>nd. nd\<lparr>nd_children := nd_children nd - 1\<rparr>) ended)) of
                (again, settled) \<Rightarrow> (if again then Some p else None, settled)))"

text \<open>\<^verbatim>\<open>returned\<close> up to the call of \<^verbatim>\<open>finish\<close>.\<close>

definition node_returned :: "bool \<Rightarrow> nat \<Rightarrow> 'v runtime \<Rightarrow> bool \<times> 'v runtime" where
  "node_returned guard n rt =
     canFinishLocked n (update_node n (\<lambda>nd. nd\<lparr>nd_refs := nd_refs nd - 1,
       nd_guards := (if guard then nd_guards nd - 1 else nd_guards nd),
       nd_running := (if guard then nd_running nd else False)\<rparr>) rt)"

section \<open>Shutdown\<close>

definition shutdown_runtime :: "gerr option \<Rightarrow> 'v runtime \<Rightarrow> 'v runtime" where
  "shutdown_runtime cause rt =
     (if rt_closing (rn_gate rt) then rt
      else rt\<lparr>rn_gate := shutdown_gate cause (rn_gate rt),
        rn_nodes := fold (\<lambda>r nodes. nodes[r := (nodes ! r)\<lparr>nd_ctx := cancel_ctx cause (nd_ctx (nodes ! r))\<rparr>])
          (rn_roots rt) (rn_nodes rt)\<rparr>)"

text \<open>\<^verbatim>\<open>Close\<close> up to its second select, without a pause: it shuts down and answers when the runtime is closed,
  which the first select notices before it looks at the context, or when the context has ended; \<open>None\<close> when
  it has to wait.\<close>

definition Runtime_Close :: "go_ctx option \<Rightarrow> 'v runtime option \<Rightarrow> gerr option option \<times> 'v runtime option" where
  "Runtime_Close ctx handle =
     (case handle of
        None \<Rightarrow> (Some (Some (failureOf operation_ErrHandle ''close'' [] no_operation [])), None)
      | Some rt \<Rightarrow>
          (case ctx of
             None \<Rightarrow> (Some (Some (failureOf operation_ErrOptions ''close'' [] no_operation [])), Some rt)
           | Some c \<Rightarrow>
               (let stopped = shutdown_runtime (Some (CodeError operation_ErrClosed)) rt in
                (if rt_closed (rn_gate stopped) then Some None
                 else if ctx_err c \<noteq> None
                 then Some (Some (failureOf operation_ErrWait ''close'' (rn_name rt)
                   (no_operation\<lparr>operation_pending := True\<rparr>) [ctx_err c, ctx_cause c]))
                 else None, Some stopped))))"

text \<open>The second select of a \<^verbatim>\<open>Close\<close> that had to wait, in a later state; when both cases are ready the choice is
  arbitrary.\<close>

definition Runtime_Close_wait :: "bool \<Rightarrow> go_ctx \<Rightarrow> 'v runtime \<Rightarrow> gerr option option" where
  "Runtime_Close_wait pick c rt =
     (if rt_closed (rn_gate rt) \<and> (ctx_err c = None \<or> pick) then Some None
      else if ctx_err c \<noteq> None
      then Some (Some (failureOf operation_ErrWait ''close'' (rn_name rt)
        (no_operation\<lparr>operation_pending := True\<rparr>) [ctx_err c, ctx_cause c]))
      else None)"

record Statistics =
  stat_active :: int
  stat_queued :: int
  stat_work_bytes :: int
  stat_queued_bytes :: int
  stat_accepted :: nat
  stat_closing :: bool
  stat_closed :: bool

definition Runtime_Inspect :: "'v runtime option \<Rightarrow> gerr + Statistics" where
  "Runtime_Inspect handle =
     (case handle of
        None \<Rightarrow> Inl (failureOf operation_ErrHandle ''inspect'' [] no_operation [])
      | Some rt \<Rightarrow>
          (let g = rn_gate rt in
           Inr \<lparr>stat_active = rt_active g, stat_queued = int (length (rt_queue g)),
             stat_work_bytes = rt_work_bytes g, stat_queued_bytes = rt_queued_bytes g,
             stat_accepted = rn_sequence rt, stat_closing = rt_closing g, stat_closed = rt_closed g\<rparr>))"

definition Runtime_Options :: "'v runtime option \<Rightarrow> gerr + operation_options" where
  "Runtime_Options handle =
     (case handle of
        None \<Rightarrow> Inl (failureOf operation_ErrHandle ''options'' [] no_operation [])
      | Some rt \<Rightarrow> Inr (rt_options (rn_gate rt)))"

section \<open>Producer handles\<close>

text \<open>A \<^verbatim>\<open>Call\<close>, \<^verbatim>\<open>Scope\<close> or \<^verbatim>\<open>Receipt\<close> is its node, \<open>None\<close> for a nil or zero handle.\<close>

definition Call_Context :: "nat option \<Rightarrow> 'v runtime \<Rightarrow> go_ctx option" where
  "Call_Context call rt = map_option (\<lambda>n. nd_ctx (rn_nodes rt ! n)) call"

definition Call_Cancel :: "gerr option \<Rightarrow> nat option \<Rightarrow> 'v runtime \<Rightarrow> gerr option \<times> 'v runtime" where
  "Call_Cancel cause call rt =
     (case call of
        None \<Rightarrow> (Some (failureOf operation_ErrHandle ''cancel'' [] no_operation []), rt)
      | Some n \<Rightarrow> (None, update_node n (\<lambda>nd. nd\<lparr>nd_ctx := cancel_ctx cause (nd_ctx nd)\<rparr>) rt))"

definition Call_Hold :: "nat option \<Rightarrow> 'v runtime \<Rightarrow> (gerr + nat) \<times> 'v runtime" where
  "Call_Hold call rt =
     (case call of
        None \<Rightarrow> (Inl (failureOf operation_ErrHandle ''hold'' [] no_operation []), rt)
      | Some n \<Rightarrow>
          (let nd = rn_nodes rt ! n in
           if nd_finishing nd \<or> nd_released nd
           then (Inl (failureOf operation_ErrReleased ''hold'' (rn_name rt) (node_details (rn_nodes rt) n) []), rt)
           else if nd_guards nd \<ge> oopt_max_holds (rt_options (rn_gate rt))
           then (Inl (failureOf operation_ErrLimit ''hold'' (rn_name rt) (node_details (rn_nodes rt) n) []), rt)
           else (Inr (length (rn_guards rt)),
             (update_node n (\<lambda>nd. nd\<lparr>nd_guards := nd_guards nd + 1, nd_refs := nd_refs nd + 1\<rparr>) rt)
               \<lparr>rn_guards := rn_guards rt @ [GuardOpen n]\<rparr>)))"

text \<open>\<^verbatim>\<open>Guard.Release\<close> up to the call of the release function, and that call's lock section.\<close>

definition Guard_Release :: "nat option \<Rightarrow> 'v runtime \<Rightarrow> gerr option \<times> 'v runtime" where
  "Guard_Release guard rt =
     (case guard of
        None \<Rightarrow> (Some (failureOf operation_ErrHandle ''release'' [] no_operation []), rt)
      | Some k \<Rightarrow>
          (case rn_guards rt ! k of
             GuardOpen n \<Rightarrow> (None, rt\<lparr>rn_guards := (rn_guards rt)[k := GuardLeaving n]\<rparr>)
           | _ \<Rightarrow> (Some (failureOf operation_ErrReleased ''release'' [] no_operation []), rt)))"

definition guard_leave :: "nat \<Rightarrow> nat \<Rightarrow> 'v runtime \<Rightarrow> bool \<times> 'v runtime" where
  "guard_leave k n rt = node_returned True n (rt\<lparr>rn_guards := (rn_guards rt)[k := GuardReleased]\<rparr>)"

text \<open>\<^verbatim>\<open>Resolve\<close>: the section that claims the outcome, and the one that publishes the copied outcome.\<close>

definition Resolve_enter :: "nat option \<Rightarrow> 'v runtime \<Rightarrow> gerr option \<times> 'v runtime" where
  "Resolve_enter call rt =
     (case call of
        None \<Rightarrow> (Some (failureOf operation_ErrHandle ''resolve'' [] no_operation []), rt)
      | Some n \<Rightarrow>
          (let nd = rn_nodes rt ! n in
           if nd_resolved nd \<or> nd_resolving nd \<or> nd_finishing nd
           then (Some (failureOf operation_ErrSettled ''resolve'' (rn_name rt) (node_details (rn_nodes rt) n) []), rt)
           else (None, update_node n (\<lambda>nd. nd\<lparr>nd_resolving := True, nd_refs := nd_refs nd + 1\<rparr>) rt)))"

definition Resolve_publish :: "('v \<Rightarrow> 'v) \<Rightarrow> 'v Outcome \<Rightarrow> nat \<Rightarrow> 'v runtime \<Rightarrow> bool \<times> 'v runtime" where
  "Resolve_publish copy outcome n rt =
     (let nd = rn_nodes rt ! n;
          failed = (out_primary outcome \<noteq> None \<or> out_cleanup outcome \<noteq> None)
      in canFinishLocked n (publish_event (nd_observer nd)
           \<lparr>event_operation = req_operation (nd_request nd), event_phase = Resolved, event_failed = failed\<rparr>
           (update_node n (\<lambda>nd. nd\<lparr>nd_outcome := outcome\<lparr>out_value := map_option copy (out_value outcome)\<rparr>,
             nd_resolving := False, nd_resolved := True, nd_failed := failed, nd_refs := nd_refs nd - 1\<rparr>) rt)))"

end
