(* ===== verification/Operation_Counts.thy ===== *)
theory Operation_Counts
  imports Operation_Runtime
begin

text \<open>
  The invariant of a runtime's operations: reference, guard, child and family counts are the true ones,
  an operation is finishing exactly when nothing holds it, and the permits the admission gate counts are
  those of entering callers and unreleased roots.
\<close>

section \<open>Counts\<close>

definition kids :: "'v node list \<Rightarrow> nat \<Rightarrow> int" where
  "kids ns n = (\<Sum>x\<leftarrow>ns. of_bool (nd_parent x = Some n \<and> \<not> nd_released x))"

definition kin :: "'v node list \<Rightarrow> nat \<Rightarrow> int" where
  "kin ns r = (\<Sum>x\<leftarrow>ns. of_bool (nd_parent x \<noteq> None \<and> nd_root x = r \<and> \<not> nd_released x))"

definition guards_at :: "guard_state list \<Rightarrow> nat \<Rightarrow> int" where
  "guards_at gs n = (\<Sum>g\<leftarrow>gs. of_bool (g = GuardOpen n \<or> g = GuardLeaving n))"

definition root_live :: "'v node \<Rightarrow> bool" where
  "root_live x \<longleftrightarrow> nd_parent x = None \<and> \<not> nd_released x"

definition roots_held :: "'v node list \<Rightarrow> int multiset" where
  "roots_held ns = mset (map (\<lambda>x. req_work_bytes (nd_request x)) (filter root_live ns))"

lemma counts_nonneg: "kids ns n \<ge> 0" "kin ns n \<ge> 0" "guards_at gs n \<ge> 0"
  unfolding kids_def kin_def guards_at_def by (auto intro!: sum_list_nonneg)

definition linked :: "'v node list \<Rightarrow> nat \<Rightarrow> bool" where
  "linked ns n \<longleftrightarrow> nd_sequence (ns ! n) = Suc n \<and> nd_root (ns ! n) \<le> n \<and>
     nd_parent (ns ! nd_root (ns ! n)) = None \<and>
     (case nd_parent (ns ! n) of
        None \<Rightarrow> nd_root (ns ! n) = n \<and> nd_depth (ns ! n) = 1 \<and> req_work_bytes (nd_request (ns ! n)) \<ge> 1
      | Some p \<Rightarrow> p < n \<and> nd_root (ns ! n) = nd_root (ns ! p) \<and> nd_depth (ns ! n) = nd_depth (ns ! p) + 1)"

definition node_ok :: "operation_options \<Rightarrow> int \<Rightarrow> int \<Rightarrow> int \<Rightarrow> 'v node \<Rightarrow> bool" where
  "node_ok opts held young family x \<longleftrightarrow>
     nd_guards x = held \<and> nd_refs x = of_bool (nd_running x) + held + of_bool (nd_resolving x) \<and>
     nd_children x = young \<and> nd_family x = (if nd_parent x = None then 1 + family else 0) \<and>
     (nd_finishing x \<longrightarrow> nd_refs x = 0 \<and> nd_children x = 0 \<and> nd_resolved x) \<and>
     (nd_released x \<longrightarrow> nd_finishing x) \<and> (nd_resolving x \<longrightarrow> \<not> nd_resolved x) \<and>
     (if nd_resolved x
      then nd_failed x = (out_primary (nd_outcome x) \<noteq> None \<or> out_cleanup (nd_outcome x) \<noteq> None)
      else \<not> nd_failed x \<and> nd_outcome x = empty_outcome) \<and>
     nd_family x \<le> oopt_max_tasks opts \<and> nd_depth x \<le> oopt_max_depth opts \<and>
     nd_guards x \<le> oopt_max_holds opts"

lemma refs_zero:
  assumes "node_ok opts g k f x" and "nd_refs x = 0" and "g \<ge> 0"
  shows "\<not> nd_running x \<and> \<not> nd_resolving x \<and> g = 0"
  using assms by (cases "nd_running x"; cases "nd_resolving x") (auto simp: node_ok_def)

definition nodes_ok :: "'v runtime \<Rightarrow> bool" where
  "nodes_ok rt \<longleftrightarrow> (\<forall>n < length (rn_nodes rt). linked (rn_nodes rt) n \<and>
     node_ok (rt_options (rn_gate rt)) (guards_at (rn_guards rt) n) (kids (rn_nodes rt) n)
       (kin (rn_nodes rt) n) (rn_nodes rt ! n))"

definition ends :: "'v node \<Rightarrow> bool" where
  "ends x \<longleftrightarrow> (nd_refs x = 0 \<and> nd_children x = 0 \<longrightarrow> nd_finishing x)"

definition roots_ok :: "'v runtime \<Rightarrow> bool" where
  "roots_ok rt \<longleftrightarrow> distinct (rn_roots rt) \<and>
     set (rn_roots rt) = {n. n < length (rn_nodes rt) \<and> root_live (rn_nodes rt ! n)} \<and>
     rn_sequence rt = length (rn_nodes rt) \<and> oopt_max_tasks (rt_options (rn_gate rt)) \<ge> 1 \<and>
     oopt_max_depth (rt_options (rn_gate rt)) \<ge> 1 \<and> oopt_max_holds (rt_options (rn_gate rt)) \<ge> 1 \<and>
     (\<forall>k n. k < length (rn_guards rt) \<and> rn_guards rt ! k \<in> {GuardOpen n, GuardLeaving n} \<longrightarrow>
        n < length (rn_nodes rt))"

definition runtime_core :: "'v runtime \<Rightarrow> bool" where
  "runtime_core rt \<longleftrightarrow> nodes_ok rt \<and> roots_ok rt"

text \<open>The state with the bytes of the permits of callers that are between admission and their node.\<close>

definition runtime_inv :: "'v runtime \<times> int multiset \<Rightarrow> bool" where
  "runtime_inv re \<longleftrightarrow> runtime_core (fst re) \<and> (\<forall>x\<in>set (rn_nodes (fst re)). ends x) \<and>
     gate_inv (rn_gate (fst re), snd re + roots_held (rn_nodes (fst re)))"

section \<open>Nodes that keep their links\<close>

definition same_links :: "'v node \<Rightarrow> 'v node \<Rightarrow> bool" where
  "same_links x y \<longleftrightarrow> nd_parent x = nd_parent y \<and> nd_root x = nd_root y \<and> nd_request x = nd_request y \<and>
     nd_sequence x = nd_sequence y \<and> nd_depth x = nd_depth y \<and> nd_released x = nd_released y"

lemma sum_list_nth_cong:
  assumes "length xs = length ys" and "\<And>i. i < length ys \<Longrightarrow> f (xs ! i) = g (ys ! i)"
  shows "sum_list (map f xs) = sum_list (map g ys)"
  using assms by (intro arg_cong [of _ _ sum_list]) (simp add: list_eq_iff_nth_eq)

lemma links_cong:
  assumes "length ns' = length ns" and "\<And>m. m < length ns \<Longrightarrow> same_links (ns' ! m) (ns ! m)"
  shows "kids ns' = kids ns" and "kin ns' = kin ns" and "roots_held ns' = roots_held ns"
    and "n < length ns \<Longrightarrow> linked ns' n = linked ns n"
proof -
  show "kids ns' = kids ns" "kin ns' = kin ns"
    unfolding kids_def kin_def fun_eq_iff using assms
    by (auto intro!: sum_list_nth_cong simp: same_links_def)
  have "map (\<lambda>x. (root_live x, req_work_bytes (nd_request x))) ns' =
      map (\<lambda>x. (root_live x, req_work_bytes (nd_request x))) ns"
    using assms by (auto intro!: nth_equalityI simp: same_links_def root_live_def)
  moreover have "map (\<lambda>x. req_work_bytes (nd_request x)) (filter root_live xs) =
      map snd (filter fst (map (\<lambda>x. (root_live x, req_work_bytes (nd_request x))) xs))" for xs :: "'a node list"
    by (induction xs) auto
  ultimately show "roots_held ns' = roots_held ns" unfolding roots_held_def by metis
  have eq: "nd_parent (ns' ! m) = nd_parent (ns ! m)" "nd_root (ns' ! m) = nd_root (ns ! m)"
    "nd_request (ns' ! m) = nd_request (ns ! m)" "nd_sequence (ns' ! m) = nd_sequence (ns ! m)"
    "nd_depth (ns' ! m) = nd_depth (ns ! m)" if "m < length ns" for m
    using assms(2) [OF that] by (simp_all add: same_links_def)
  show "linked ns' n = linked ns n" if "n < length ns"
  proof (cases "nd_root (ns ! n) \<le> n")
    case True
    then show ?thesis
      using that eq by (cases "nd_parent (ns ! n)") (auto simp: linked_def)
  next
    case False
    then show ?thesis using eq [OF that] by (simp add: linked_def)
  qed
qed

lemma same_links_refl [simp]: "same_links x x"
  by (simp add: same_links_def)

text \<open>A step that rewrites_node one node, keeping its links, and the guards that hold it.\<close>

definition rewrites_node :: "'v runtime \<Rightarrow> nat \<Rightarrow> 'v node \<Rightarrow> 'v runtime \<Rightarrow> bool" where
  "rewrites_node rt n x rt' \<longleftrightarrow> n < length (rn_nodes rt) \<and> same_links x (rn_nodes rt ! n) \<and>
     rn_gate rt' = rn_gate rt \<and> rn_roots rt' = rn_roots rt \<and> rn_sequence rt' = rn_sequence rt \<and>
     rn_nodes rt' = (rn_nodes rt)[n := x] \<and>
     (\<forall>m. m \<noteq> n \<longrightarrow> guards_at (rn_guards rt') m = guards_at (rn_guards rt) m) \<and>
     (\<forall>k m. k < length (rn_guards rt') \<and> rn_guards rt' ! k \<in> {GuardOpen m, GuardLeaving m} \<longrightarrow>
        m < length (rn_nodes rt))"

lemma rewrite_links:
  assumes "rewrites_node rt n x rt'"
  shows "kids (rn_nodes rt') = kids (rn_nodes rt)" and "kin (rn_nodes rt') = kin (rn_nodes rt)"
    and "roots_held (rn_nodes rt') = roots_held (rn_nodes rt)"
    and "m < length (rn_nodes rt) \<Longrightarrow> linked (rn_nodes rt') m = linked (rn_nodes rt) m"
proof -
  have "length ((rn_nodes rt)[n := x]) = length (rn_nodes rt)"
    "\<And>m. m < length (rn_nodes rt) \<Longrightarrow> same_links ((rn_nodes rt)[n := x] ! m) (rn_nodes rt ! m)"
    using assms by (auto simp: rewrites_node_def nth_list_update)
  note links = links_cong [OF this]
  show "kids (rn_nodes rt') = kids (rn_nodes rt)" "kin (rn_nodes rt') = kin (rn_nodes rt)"
    "roots_held (rn_nodes rt') = roots_held (rn_nodes rt)"
    "m < length (rn_nodes rt) \<Longrightarrow> linked (rn_nodes rt') m = linked (rn_nodes rt) m"
    using links assms by (simp_all add: rewrites_node_def)
qed

lemma rewrites_core:
  assumes "runtime_core rt" and "rewrites_node rt n x rt'"
    and "node_ok (rt_options (rn_gate rt)) (guards_at (rn_guards rt') n) (kids (rn_nodes rt) n)
      (kin (rn_nodes rt) n) x"
  shows "runtime_core rt'"
proof -
  note rw = assms(2) [unfolded rewrites_node_def]
  have "nodes_ok rt'"
    unfolding nodes_ok_def rewrite_links [OF assms(2)]
    using assms(1, 3) rw rewrite_links(4) [OF assms(2)]
    by (auto simp: runtime_core_def nodes_ok_def nth_list_update)
  moreover have "root_live ((rn_nodes rt)[n := x] ! m) = root_live (rn_nodes rt ! m)" for m
    using rw by (cases "m = n") (auto simp: root_live_def same_links_def)
  then have "roots_ok rt'" using assms(1) rw by (simp add: runtime_core_def roots_ok_def)
  ultimately show ?thesis by (simp add: runtime_core_def)
qed

lemma rewrites_inv:
  assumes "runtime_inv (rt, entering)" and "rewrites_node rt n x rt'"
    and "node_ok (rt_options (rn_gate rt)) (guards_at (rn_guards rt') n) (kids (rn_nodes rt) n)
      (kin (rn_nodes rt) n) x" and "ends x"
  shows "runtime_inv (rt', entering)"
proof -
  have "runtime_core rt'" using rewrites_core [OF _ assms(2, 3)] assms(1) by (simp add: runtime_inv_def)
  moreover have "\<forall>y\<in>set (rn_nodes rt'). ends y"
    using assms(1, 2, 4) set_update_subset_insert [of "rn_nodes rt" n x]
    by (auto simp: runtime_inv_def rewrites_node_def)
  moreover have "rn_gate rt' = rn_gate rt" using assms(2) by (simp add: rewrites_node_def)
  ultimately show ?thesis using assms(1) by (simp add: runtime_inv_def rewrite_links [OF assms(2)])
qed

lemma publish_event_frame [simp]:
  "rn_gate (publish_event obs e rt) = rn_gate rt" "rn_roots (publish_event obs e rt) = rn_roots rt"
  "rn_sequence (publish_event obs e rt) = rn_sequence rt" "rn_nodes (publish_event obs e rt) = rn_nodes rt"
  "rn_guards (publish_event obs e rt) = rn_guards rt"
  by (simp_all add: publish_event_def split: option.splits)

lemma update_node_frame [simp]:
  "rn_gate (update_node n f rt) = rn_gate rt" "rn_roots (update_node n f rt) = rn_roots rt"
  "rn_sequence (update_node n f rt) = rn_sequence rt" "rn_guards (update_node n f rt) = rn_guards rt"
  "rn_nodes (update_node n f rt) = (rn_nodes rt)[n := f (rn_nodes rt ! n)]"
  by (simp_all add: update_node_def)

lemma canFinishLocked_rewrites:
  assumes "runtime_core rt" and "n < length (rn_nodes rt)"
  obtains x where "rewrites_node rt n x (snd (canFinishLocked n rt))"
    "node_ok (rt_options (rn_gate rt)) (guards_at (rn_guards (snd (canFinishLocked n rt))) n)
      (kids (rn_nodes rt) n) (kin (rn_nodes rt) n) x"
    "ends x" "rn_guards (snd (canFinishLocked n rt)) = rn_guards rt"
    "fst (canFinishLocked n rt) \<longleftrightarrow> nd_finishing x \<and> \<not> nd_finishing (rn_nodes rt ! n)"
proof -
  have ok: "node_ok (rt_options (rn_gate rt)) (guards_at (rn_guards rt) n) (kids (rn_nodes rt) n)
      (kin (rn_nodes rt) n) (rn_nodes rt ! n)"
    and guards: "\<forall>k m. k < length (rn_guards rt) \<and> rn_guards rt ! k \<in> {GuardOpen m, GuardLeaving m} \<longrightarrow>
        m < length (rn_nodes rt)"
    using assms by (simp_all add: runtime_core_def nodes_ok_def roots_ok_def)
  let ?nd = "rn_nodes rt ! n"
  consider "nd_refs ?nd \<noteq> 0 \<or> nd_children ?nd \<noteq> 0 \<or> nd_finishing ?nd"
    | "\<not> (nd_refs ?nd \<noteq> 0 \<or> nd_children ?nd \<noteq> 0 \<or> nd_finishing ?nd)" "nd_resolved ?nd"
    | "\<not> (nd_refs ?nd \<noteq> 0 \<or> nd_children ?nd \<noteq> 0 \<or> nd_finishing ?nd)" "\<not> nd_resolved ?nd" by blast
  then show thesis
  proof cases
    case 1
    then have "canFinishLocked n rt = (False, rt)" by (simp add: canFinishLocked_def)
    then show thesis using that [of ?nd] ok guards assms(2) 1 by (auto simp: rewrites_node_def ends_def)
  next
    case 2
    then have "canFinishLocked n rt = (True, update_node n (\<lambda>nd. nd\<lparr>nd_finishing := True\<rparr>) rt)"
      by (simp add: canFinishLocked_def)
    then show thesis
      using that [of "?nd\<lparr>nd_finishing := True\<rparr>"] ok guards assms(2) 2
      by (auto simp: rewrites_node_def ends_def same_links_def node_ok_def)
  next
    case 3
    let ?missing = "failureOf operation_ErrOutcome (req_operation (nd_request ?nd)) (rn_name rt)
               (node_details (rn_nodes rt) n) [cancellation (rn_nodes rt) n]"
    let ?x = "?nd\<lparr>nd_finishing := True,
                 nd_outcome := \<lparr>out_value = None, out_primary = Some ?missing, out_cleanup = None\<rparr>,
                 nd_resolved := True, nd_failed := True\<rparr>"
    have "fst (canFinishLocked n rt)" "rewrites_node rt n ?x (snd (canFinishLocked n rt))"
      "rn_guards (snd (canFinishLocked n rt)) = rn_guards rt"
      using 3 guards assms(2) by (simp_all add: canFinishLocked_def Let_def rewrites_node_def same_links_def)
    moreover have "\<not> nd_resolving ?nd"
      using refs_zero [OF ok] 3(1) counts_nonneg(3) by blast
    then have "node_ok (rt_options (rn_gate rt)) (guards_at (rn_guards rt) n) (kids (rn_nodes rt) n)
      (kin (rn_nodes rt) n) ?x"
      using ok 3 by (auto simp: node_ok_def)
    ultimately show thesis using that [of ?x] 3 by (simp add: ends_def)
  qed
qed

lemma canFinish_inv:
  assumes "runtime_core rt" and "n < length (rn_nodes rt)"
    and "\<And>m. m < length (rn_nodes rt) \<Longrightarrow> m \<noteq> n \<Longrightarrow> ends (rn_nodes rt ! m)"
    and "gate_inv (rn_gate rt, entering + roots_held (rn_nodes rt))"
  shows "runtime_inv (snd (canFinishLocked n rt), entering)"
proof -
  from canFinishLocked_rewrites [OF assms(1, 2)] obtain y where
    y: "rewrites_node rt n y (snd (canFinishLocked n rt))" "ends y"
      "node_ok (rt_options (rn_gate rt)) (guards_at (rn_guards (snd (canFinishLocked n rt))) n)
        (kids (rn_nodes rt) n) (kin (rn_nodes rt) n) y" by blast
  have "runtime_core (snd (canFinishLocked n rt))" by (rule rewrites_core [OF assms(1) y(1, 3)])
  moreover have "rn_nodes (snd (canFinishLocked n rt)) = (rn_nodes rt)[n := y]"
    and gate: "rn_gate (snd (canFinishLocked n rt)) = rn_gate rt"
    using y(1) by (simp_all add: rewrites_node_def)
  then have "\<forall>z\<in>set (rn_nodes (snd (canFinishLocked n rt))). ends z"
    using y(2) assms(2, 3) by (auto simp: in_set_conv_nth nth_list_update split: if_splits)
  ultimately show ?thesis
    using assms(4) by (simp add: runtime_inv_def rewrite_links(3) [OF y(1)] gate)
qed

lemma rewrite_then_finish:
  assumes "runtime_inv (rt, entering)" and "rewrites_node rt n x rt'"
    and "node_ok (rt_options (rn_gate rt)) (guards_at (rn_guards rt') n) (kids (rn_nodes rt) n)
      (kin (rn_nodes rt) n) x"
  shows "runtime_inv (snd (canFinishLocked n rt'), entering)"
proof (rule canFinish_inv)
  note rw = assms(2) [unfolded rewrites_node_def]
  show "runtime_core rt'" using rewrites_core [OF _ assms(2, 3)] assms(1) by (simp add: runtime_inv_def)
  show "n < length (rn_nodes rt')" using rw by simp
  show "ends (rn_nodes rt' ! m)" if "m < length (rn_nodes rt')" "m \<noteq> n" for m
    using that rw assms(1) by (simp add: runtime_inv_def)
  show "gate_inv (rn_gate rt', entering + roots_held (rn_nodes rt'))"
    unfolding rewrite_links(3) [OF assms(2)] using assms(1) rw by (simp add: runtime_inv_def)
qed

lemma node_inv:
  assumes "runtime_inv (rt, entering)" and "n < length (rn_nodes rt)"
  shows "node_ok (rt_options (rn_gate rt)) (guards_at (rn_guards rt) n) (kids (rn_nodes rt) n)
      (kin (rn_nodes rt) n) (rn_nodes rt ! n)" and "linked (rn_nodes rt) n" and "ends (rn_nodes rt ! n)"
    and "\<forall>k m. k < length (rn_guards rt) \<and> rn_guards rt ! k \<in> {GuardOpen m, GuardLeaving m} \<longrightarrow>
        m < length (rn_nodes rt)"
  using assms by (simp_all add: runtime_inv_def runtime_core_def nodes_ok_def roots_ok_def)

section \<open>Operations on one node\<close>

lemma guards_at_simps [simp]:
  "guards_at (gs @ [GuardOpen n]) m = guards_at gs m + of_bool (m = n)"
  by (simp add: guards_at_def)

lemma guards_at_update:
  "k < length gs \<Longrightarrow> guards_at (gs[k := g]) m = guards_at gs m -
     of_bool (gs ! k = GuardOpen m \<or> gs ! k = GuardLeaving m) + of_bool (g = GuardOpen m \<or> g = GuardLeaving m)"
  unfolding guards_at_def by (rule sum_list_map_update)

lemma hold_inv:
  assumes "runtime_inv (rt, entering)" and "n < length (rn_nodes rt)" and "Call_Hold (Some n) rt = (result, rt')"
  shows "runtime_inv (rt', entering)"
proof (cases "rt' = rt")
  case False
  note nd = node_inv [OF assms(1, 2)]
  let ?nd = "rn_nodes rt ! n"
  let ?x = "?nd\<lparr>nd_guards := nd_guards ?nd + 1, nd_refs := nd_refs ?nd + 1\<rparr>"
  have rt': "rt' = (update_node n (\<lambda>nd. nd\<lparr>nd_guards := nd_guards nd + 1, nd_refs := nd_refs nd + 1\<rparr>) rt)
      \<lparr>rn_guards := rn_guards rt @ [GuardOpen n]\<rparr>"
    and guard: "\<not> nd_finishing ?nd" "nd_guards ?nd < oopt_max_holds (rt_options (rn_gate rt))"
    using assms(3) False by (auto simp: Call_Hold_def Let_def split: if_splits)
  have "rewrites_node rt n ?x rt'"
    using assms(2) nd(4) by (auto simp: rt' rewrites_node_def same_links_def nth_append less_Suc_eq)
  moreover have "node_ok (rt_options (rn_gate rt)) (guards_at (rn_guards rt') n) (kids (rn_nodes rt) n)
      (kin (rn_nodes rt) n) ?x"
    using nd(1) guard by (simp add: rt' node_ok_def)
  moreover have "ends ?x"
    using nd(1) counts_nonneg(3) [of "rn_guards rt" n] by (simp add: ends_def node_ok_def)
  ultimately show ?thesis by (rule rewrites_inv [OF assms(1)])
qed (use assms in simp)

lemma guard_release_inv:
  assumes "runtime_inv (rt, entering)" and "k < length (rn_guards rt)" and "Guard_Release (Some k) rt = (result, rt')"
  shows "runtime_inv (rt', entering)"
proof (cases "rt' = rt")
  case False
  then obtain n where k: "rn_guards rt ! k = GuardOpen n" and rt': "rt' = rt\<lparr>rn_guards := (rn_guards rt)[k := GuardLeaving n]\<rparr>"
    using assms(3) by (auto simp: Guard_Release_def split: guard_state.splits)
  have n: "n < length (rn_nodes rt)" using assms(1, 2) k by (auto simp: runtime_inv_def runtime_core_def roots_ok_def)
  note nd = node_inv [OF assms(1) n]
  have same: "guards_at ((rn_guards rt)[k := GuardLeaving n]) m = guards_at (rn_guards rt) m" for m
    using assms(2) k by (simp add: guards_at_update)
  have "rewrites_node rt n (rn_nodes rt ! n) rt'"
    using n nd(4) assms(2) by (auto simp: rt' rewrites_node_def same nth_list_update split: if_splits)
  then show ?thesis by (rule rewrites_inv [OF assms(1)]) (use nd(1, 3) in \<open>simp_all add: rt' same\<close>)
qed (use assms in simp)

lemma returned_inv:
  assumes "runtime_inv (rt, entering)" and "n < length (rn_nodes rt)" and "nd_running (rn_nodes rt ! n)"
  shows "runtime_inv (snd (node_returned False n rt), entering)"
  unfolding node_returned_def
proof (rule rewrite_then_finish [OF assms(1)])
  note nd = node_inv [OF assms(1, 2)]
  let ?nd = "rn_nodes rt ! n"
  let ?x = "?nd\<lparr>nd_refs := nd_refs ?nd - 1, nd_running := False\<rparr>"
  let ?rt = "update_node n (\<lambda>nd. nd\<lparr>nd_refs := nd_refs nd - 1,
       nd_guards := (if False then nd_guards nd - 1 else nd_guards nd),
       nd_running := (if False then nd_running nd else False)\<rparr>) rt"
  show "rewrites_node rt n ?x ?rt" using nd(4) assms(2) by (simp add: rewrites_node_def same_links_def)
  show "node_ok (rt_options (rn_gate rt)) (guards_at (rn_guards ?rt) n) (kids (rn_nodes rt) n)
      (kin (rn_nodes rt) n) ?x"
    using nd(1) assms(3) counts_nonneg(3) [of "rn_guards rt" n] by (auto simp: node_ok_def)
qed

lemma guard_leave_inv:
  assumes "runtime_inv (rt, entering)" and "k < length (rn_guards rt)" and "rn_guards rt ! k = GuardLeaving n"
  shows "runtime_inv (snd (guard_leave k n rt), entering)"
  unfolding guard_leave_def node_returned_def
proof (rule rewrite_then_finish [OF assms(1)])
  have n: "n < length (rn_nodes rt)" using assms by (auto simp: runtime_inv_def runtime_core_def roots_ok_def)
  note nd = node_inv [OF assms(1) n]
  let ?nd = "rn_nodes rt ! n"
  let ?x = "?nd\<lparr>nd_refs := nd_refs ?nd - 1, nd_guards := nd_guards ?nd - 1\<rparr>"
  let ?rt = "update_node n (\<lambda>nd. nd\<lparr>nd_refs := nd_refs nd - 1,
       nd_guards := (if True then nd_guards nd - 1 else nd_guards nd),
       nd_running := (if True then nd_running nd else False)\<rparr>)
       (rt\<lparr>rn_guards := (rn_guards rt)[k := GuardReleased]\<rparr>)"
  have gone: "guards_at ((rn_guards rt)[k := GuardReleased]) m = guards_at (rn_guards rt) m - of_bool (m = n)" for m
    using assms(2, 3) by (auto simp: guards_at_update)
  show "rewrites_node rt n ?x ?rt"
    using nd(4) n assms(2) by (auto simp: rewrites_node_def same_links_def gone nth_list_update split: if_splits)
  show "node_ok (rt_options (rn_gate rt)) (guards_at (rn_guards ?rt) n) (kids (rn_nodes rt) n)
      (kin (rn_nodes rt) n) ?x"
    using nd(1) counts_nonneg(3) [of "(rn_guards rt)[k := GuardReleased]" n] gone [of n] by (auto simp: node_ok_def)
qed

lemma resolve_enter_inv:
  assumes "runtime_inv (rt, entering)" and "n < length (rn_nodes rt)" and "Resolve_enter (Some n) rt = (result, rt')"
  shows "runtime_inv (rt', entering)"
proof (cases "rt' = rt")
  case False
  note nd = node_inv [OF assms(1, 2)]
  let ?nd = "rn_nodes rt ! n"
  let ?x = "?nd\<lparr>nd_resolving := True, nd_refs := nd_refs ?nd + 1\<rparr>"
  have rt': "rt' = update_node n (\<lambda>nd. nd\<lparr>nd_resolving := True, nd_refs := nd_refs nd + 1\<rparr>) rt"
    and free: "\<not> nd_resolved ?nd" "\<not> nd_resolving ?nd" "\<not> nd_finishing ?nd"
    using assms(3) False by (auto simp: Resolve_enter_def Let_def split: if_splits)
  have "rewrites_node rt n ?x rt'" using nd(4) assms(2) by (simp add: rt' rewrites_node_def same_links_def)
  moreover have "node_ok (rt_options (rn_gate rt)) (guards_at (rn_guards rt') n) (kids (rn_nodes rt) n)
      (kin (rn_nodes rt) n) ?x"
    using nd(1) free by (simp add: rt' node_ok_def)
  moreover have "ends ?x"
    using nd(1) counts_nonneg(3) [of "rn_guards rt" n] by (simp add: ends_def node_ok_def)
  ultimately show ?thesis by (rule rewrites_inv [OF assms(1)])
qed (use assms in simp)

lemma resolve_publish_inv:
  assumes "runtime_inv (rt, entering)" and "n < length (rn_nodes rt)" and "nd_resolving (rn_nodes rt ! n)"
  shows "runtime_inv (snd (Resolve_publish copy outcome n rt), entering)"
  unfolding Resolve_publish_def Let_def
proof (rule rewrite_then_finish [OF assms(1)])
  note nd = node_inv [OF assms(1, 2)]
  let ?nd = "rn_nodes rt ! n"
  let ?failed = "out_primary outcome \<noteq> None \<or> out_cleanup outcome \<noteq> None"
  let ?x = "?nd\<lparr>nd_outcome := outcome\<lparr>out_value := map_option copy (out_value outcome)\<rparr>,
             nd_resolving := False, nd_resolved := True, nd_failed := ?failed, nd_refs := nd_refs ?nd - 1\<rparr>"
  let ?rt = "publish_event (nd_observer ?nd)
           \<lparr>event_operation = req_operation (nd_request ?nd), event_phase = Resolved, event_failed = ?failed\<rparr>
           (update_node n (\<lambda>nd. nd\<lparr>nd_outcome := outcome\<lparr>out_value := map_option copy (out_value outcome)\<rparr>,
             nd_resolving := False, nd_resolved := True, nd_failed := ?failed, nd_refs := nd_refs nd - 1\<rparr>) rt)"
  show "rewrites_node rt n ?x ?rt" using nd(4) assms(2) by (simp add: rewrites_node_def same_links_def)
  show "node_ok (rt_options (rn_gate rt)) (guards_at (rn_guards ?rt) n) (kids (rn_nodes rt) n)
      (kin (rn_nodes rt) n) ?x"
    using nd(1) assms(3) counts_nonneg(3) [of "rn_guards rt" n] by (auto simp: node_ok_def)
qed

text \<open>Steps that only change contexts and sources.\<close>

definition annotated :: "'v node \<Rightarrow> 'v node \<Rightarrow> bool" where
  "annotated x y \<longleftrightarrow> (\<exists>ctx source release. x = y\<lparr>nd_ctx := ctx, nd_source := source, nd_release := release\<rparr>)"

lemma annotated_same:
  assumes "annotated x y"
  shows "same_links x y" and "node_ok opts g k f x = node_ok opts g k f y" and "ends x = ends y"
proof -
  obtain ctx source release where "x = y\<lparr>nd_ctx := ctx, nd_source := source, nd_release := release\<rparr>"
    using assms by (auto simp: annotated_def)
  then show "same_links x y" and "node_ok opts g k f x = node_ok opts g k f y" and "ends x = ends y"
    by (simp_all add: same_links_def node_ok_def ends_def)
qed

lemma annotatedI [intro, simp]:
  "annotated x x" "annotated (x\<lparr>nd_ctx := ctx\<rparr>) x" "annotated (x\<lparr>nd_source := source, nd_release := release\<rparr>) x"
  unfolding annotated_def
  by (rule exI [of _ "nd_ctx x"], rule exI [of _ "nd_source x"], rule exI [of _ "nd_release x"], simp)
    (rule exI [of _ ctx], rule exI [of _ "nd_source x"], rule exI [of _ "nd_release x"], simp,
     rule exI [of _ "nd_ctx x"], rule exI [of _ source], rule exI [of _ release], simp)

lemma annotate_core:
  assumes "runtime_core rt" and "length ns = length (rn_nodes rt)"
    and "\<And>m. m < length (rn_nodes rt) \<Longrightarrow> annotated (ns ! m) (rn_nodes rt ! m)"
  shows "runtime_core (rt\<lparr>rn_nodes := ns\<rparr>)" and "roots_held ns = roots_held (rn_nodes rt)"
proof -
  have same: "same_links (ns ! m) (rn_nodes rt ! m)" if "m < length (rn_nodes rt)" for m
    using annotated_same(1) assms(3) that by blast
  note links = links_cong [OF assms(2) same]
  show "roots_held ns = roots_held (rn_nodes rt)" by (rule links)
  have "nodes_ok (rt\<lparr>rn_nodes := ns\<rparr>)"
    using assms annotated_same(2) [OF assms(3)] by (simp add: runtime_core_def nodes_ok_def links)
  moreover have "root_live (ns ! m) = root_live (rn_nodes rt ! m)" if "m < length (rn_nodes rt)" for m
    using same [OF that] by (simp add: root_live_def same_links_def)
  then have "roots_ok (rt\<lparr>rn_nodes := ns\<rparr>)"
    using assms by (auto simp: runtime_core_def roots_ok_def)
  ultimately show "runtime_core (rt\<lparr>rn_nodes := ns\<rparr>)" by (simp add: runtime_core_def)
qed

lemma annotate_inv:
  assumes "runtime_inv (rt, entering)" and "annotated x (rn_nodes rt ! n)"
  shows "runtime_inv (rt\<lparr>rn_nodes := (rn_nodes rt)[n := x]\<rparr>, entering)"
proof (cases "n < length (rn_nodes rt)")
  case True
  note nd = node_inv [OF assms(1) True]
  have "rewrites_node rt n x (rt\<lparr>rn_nodes := (rn_nodes rt)[n := x]\<rparr>)"
    using True annotated_same(1) [OF assms(2)] nd(4) by (simp add: rewrites_node_def)
  then show ?thesis
    by (rule rewrites_inv [OF assms(1)]) (use nd(1, 3) annotated_same(2, 3) [OF assms(2)] in \<open>simp_all\<close>)
qed (use assms in \<open>simp add: list_update_beyond\<close>)

text \<open>Steps of the admission gate.\<close>

lemma gate_frame:
  "rt_options (promoteLocked g) = rt_options g" "rt_options (releasePermitLocked b g) = rt_options g"
  "rt_options (shutdown_gate cause g) = rt_options g"
  "acquire_enter ctx b g = (r, g') \<Longrightarrow> rt_options g' = rt_options g"
  "acquire_return p g = (r', g') \<Longrightarrow> rt_options g' = rt_options g"
proof -
  show release: "rt_options (releasePermitLocked b g) = rt_options g" for b g
    by (simp add: releasePermitLocked_def closeDoneLocked_def)
  show "rt_options (shutdown_gate cause g) = rt_options g"
    by (simp add: shutdown_gate_def closeDoneLocked_def)
  show "acquire_enter ctx b g = (r, g') \<Longrightarrow> rt_options g' = rt_options g"
    by (erule acquire_enter_cases) simp_all
  show "acquire_return p g = (r', g') \<Longrightarrow> rt_options g' = rt_options g"
    by (auto simp: acquire_return_def Let_def release split: if_splits)
qed simp

lemma gate_inv_runtime:
  assumes "runtime_inv (rt, entering)" and "rt_options g = rt_options (rn_gate rt)"
    and "gate_inv (g, entering' + roots_held (rn_nodes rt))"
  shows "runtime_inv (rt\<lparr>rn_gate := g\<rparr>, entering')"
  using assms by (simp add: runtime_inv_def runtime_core_def nodes_ok_def roots_ok_def)

lemma shutdown_inv:
  assumes "runtime_inv (rt, entering)"
  shows "runtime_inv (shutdown_runtime cause rt, entering)"
proof (cases "rt_closing (rn_gate rt)")
  case False
  let ?f = "\<lambda>x. x\<lparr>nd_ctx := cancel_ctx cause (nd_ctx x)\<rparr>"
  define ns where "ns = fold (\<lambda>r nodes. nodes[r := ?f (nodes ! r)]) (rn_roots rt) (rn_nodes rt)"
  have core: "runtime_core rt" and gate: "gate_inv (rn_gate rt, entering + roots_held (rn_nodes rt))"
    and over: "\<forall>x\<in>set (rn_nodes rt). ends x"
    using assms by (simp_all add: runtime_inv_def)
  have roots: "distinct (rn_roots rt)" "\<And>r. r \<in> set (rn_roots rt) \<Longrightarrow> r < length (rn_nodes rt)"
    using core by (simp_all add: runtime_core_def roots_ok_def)
  have len: "length ns = length (rn_nodes rt)" unfolding ns_def by (rule fold_update_nth [OF roots])
  have ann: "annotated (ns ! m) (rn_nodes rt ! m)" if "m < length (rn_nodes rt)" for m
    using fold_update_nth(2) [OF roots that, where f = ?f] by (simp add: ns_def)
  note annot = annotate_core [OF core len ann]
  have "ends (ns ! m)" if "m < length (rn_nodes rt)" for m
    using annotated_same(3) [OF ann [OF that]] over that by simp
  then have "runtime_inv (rt\<lparr>rn_nodes := ns\<rparr>, entering)"
    using annot gate by (auto simp: runtime_inv_def in_set_conv_nth len)
  from gate_inv_runtime [OF this, of "shutdown_gate cause (rn_gate rt)" entering]
  have "runtime_inv (rt\<lparr>rn_nodes := ns, rn_gate := shutdown_gate cause (rn_gate rt)\<rparr>, entering)"
    using shutdown_gate_inv [OF gate, of cause] annot(2) by (simp add: gate_frame)
  moreover have "shutdown_runtime cause rt = rt\<lparr>rn_nodes := ns, rn_gate := shutdown_gate cause (rn_gate rt)\<rparr>"
    using False by (simp add: shutdown_runtime_def ns_def)
  ultimately show ?thesis by simp
qed (use assms in \<open>simp add: shutdown_runtime_def\<close>)

section \<open>New nodes\<close>

lemma sum_list_0_if: "(\<And>x. x \<in> set xs \<Longrightarrow> \<not> P x) \<Longrightarrow> (\<Sum>x\<leftarrow>xs. of_bool (P x)) = (0 :: int)"
  by (induction xs) auto

lemma counts_append [simp]:
  "kids (ns @ [x]) m = kids ns m + of_bool (nd_parent x = Some m \<and> \<not> nd_released x)"
  "kin (ns @ [x]) m = kin ns m + of_bool (nd_parent x \<noteq> None \<and> nd_root x = m \<and> \<not> nd_released x)"
  "roots_held (ns @ [x]) = roots_held ns + (if root_live x then {#req_work_bytes (nd_request x)#} else {#})"
  by (simp_all add: kids_def kin_def roots_held_def)

lemma linked_append: "m < length ns \<Longrightarrow> linked ns m \<Longrightarrow> linked (ns @ [x]) m"
  by (auto simp: linked_def nth_append split: option.splits)

text \<open>Adjusting the child and family counts of a node along with the counted nodes.\<close>

definition adjust :: "int \<Rightarrow> int \<Rightarrow> 'v node \<Rightarrow> 'v node" where
  "adjust dk df x = x\<lparr>nd_children := nd_children x + dk, nd_family := nd_family x + df\<rparr>"

lemma adjust_links [simp]: "same_links (adjust dk df x) x" "nd_refs (adjust dk df x) = nd_refs x"
  "nd_children (adjust dk df x) = nd_children x + dk" "nd_finishing (adjust dk df x) = nd_finishing x"
  by (simp_all add: adjust_def same_links_def)

lemma adjust_ok:
  assumes "node_ok opts g k f x" and "dk \<noteq> 0 \<Longrightarrow> \<not> nd_finishing x"
    and "df \<noteq> 0 \<Longrightarrow> nd_parent x = None \<and> nd_family x + df \<le> oopt_max_tasks opts"
  shows "node_ok opts g (k + dk) (f + df) (adjust dk df x)"
  using assms by (cases "df = 0"; cases "dk = 0") (simp_all add: node_ok_def adjust_def)

text \<open>The two updates of a parent and its root, in closed form.\<close>

lemma adjust_parent_root:
  assumes "p < length ns" and "r < length ns" and "m < length ns"
  shows "(let ns' = ns[p := (ns ! p)\<lparr>nd_children := nd_children (ns ! p) + d\<rparr>]
      in ns'[r := (ns' ! r)\<lparr>nd_family := nd_family (ns' ! r) + d\<rparr>]) ! m =
    adjust (if m = p then d else 0) (if m = r then d else 0) (ns ! m)"
  using assms by (auto simp: Let_def adjust_def nth_list_update)

lemma guarded_cases:
  assumes "(if a then (Inl e1, s) else if b then (Inl e2, s) else if c then (Inl e3, s) else if d then (Inl e4, s)
    else if e then (Inl e5, s) else (Inr n, t)) = (result, s')"
  shows "(\<exists>err. result = Inl err \<and> s' = s) \<or>
    (\<not> a \<and> \<not> b \<and> \<not> c \<and> \<not> d \<and> \<not> e \<and> result = Inr n \<and> s' = t)"
  using assms by (auto split: if_splits)

lemma newNode_cases:
  assumes "newNodeLocked lifetime request parent observer rt = (result, rt')"
  obtains (refused) err where "result = Inl err" "rt' = rt"
  | (added) "result = Inr (length (rn_nodes rt))" "\<not> rt_closing (rn_gate rt)" "ctx_err lifetime = None"
      "case parent of
         None \<Rightarrow> rt' = rt\<lparr>rn_sequence := rn_sequence rt + 1, rn_nodes := rn_nodes rt @
           [new_node lifetime request parent observer (length (rn_nodes rt)) rt],
           rn_roots := rn_roots rt @ [length (rn_nodes rt)]\<rparr>
       | Some p \<Rightarrow> \<not> nd_finishing (rn_nodes rt ! p) \<and> \<not> nd_released (rn_nodes rt ! p) \<and>
           nd_family (rn_nodes rt ! nd_root (rn_nodes rt ! p)) < oopt_max_tasks (rt_options (rn_gate rt)) \<and>
           nd_depth (rn_nodes rt ! p) < oopt_max_depth (rt_options (rn_gate rt)) \<and>
           rt' = update_node (nd_root (rn_nodes rt ! p)) (\<lambda>nd. nd\<lparr>nd_family := nd_family nd + 1\<rparr>)
             (update_node p (\<lambda>nd. nd\<lparr>nd_children := nd_children nd + 1\<rparr>)
               (rt\<lparr>rn_sequence := rn_sequence rt + 1, rn_nodes := rn_nodes rt @
                 [new_node lifetime request parent observer (length (rn_nodes rt)) rt]\<rparr>))"
proof -
  show thesis
    using guarded_cases [OF assms [unfolded newNodeLocked_def Let_def]]
    by (elim disjE exE conjE) (erule (1) refused, rule added, assumption, simp, simp, cases parent, simp_all)
qed

text \<open>A state made of adjusted old nodes and one new node.\<close>

lemma new_node_ok:
  assumes "runtime_core rt" and "oopt_max_depth (rt_options (rn_gate rt)) \<ge> (case parent of None \<Rightarrow> 1
      | Some p \<Rightarrow> nd_depth (rn_nodes rt ! p) + 1)" and "n = length (rn_nodes rt)"
  shows "node_ok (rt_options (rn_gate rt)) (guards_at (rn_guards rt) n) (kids (rn_nodes rt) n)
      (kin (rn_nodes rt) n) (new_node lifetime request parent observer n rt)"
    and "ends (new_node lifetime request parent observer n rt)"
proof -
  have "guards_at (rn_guards rt) n = 0"
    unfolding guards_at_def using assms by (intro sum_list_0_if) (force simp: runtime_core_def roots_ok_def in_set_conv_nth)
  moreover have parents: "p < n" if "x \<in> set (rn_nodes rt)" "nd_parent x = Some p" for x p
    using that assms(1) unfolding runtime_core_def nodes_ok_def linked_def assms(3) in_set_conv_nth by fastforce
  then have "kids (rn_nodes rt) n = 0"
    unfolding kids_def by (intro sum_list_0_if) auto
  moreover have "nd_root x < n" if "x \<in> set (rn_nodes rt)" for x
    using that assms(1) unfolding runtime_core_def nodes_ok_def linked_def assms(3) in_set_conv_nth by fastforce
  then have "kin (rn_nodes rt) n = 0" unfolding kin_def by (intro sum_list_0_if) auto
  ultimately show "node_ok (rt_options (rn_gate rt)) (guards_at (rn_guards rt) n) (kids (rn_nodes rt) n)
      (kin (rn_nodes rt) n) (new_node lifetime request parent observer n rt)"
    using assms(1, 2) by (cases parent) (simp_all add: node_ok_def new_node_def runtime_core_def roots_ok_def)
  show "ends (new_node lifetime request parent observer n rt)" by (simp add: ends_def new_node_def)
qed

lemma new_root_inv:
  assumes "runtime_inv (rt, add_mset (req_work_bytes request) entering)"
    and "newNodeLocked lifetime request None observer rt = (Inr n, rt')" and "req_work_bytes request \<ge> 1"
  shows "runtime_inv (rt', entering)"
proof -
  let ?n = "length (rn_nodes rt)" and ?x = "new_node lifetime request None observer (length (rn_nodes rt)) rt"
  have core: "runtime_core rt" using assms(1) by (simp add: runtime_inv_def)
  have rt': "rt' = rt\<lparr>rn_sequence := rn_sequence rt + 1, rn_nodes := rn_nodes rt @ [?x],
      rn_roots := rn_roots rt @ [?n]\<rparr>"
    using assms(2) by (rule newNode_cases) simp_all
  note new = new_node_ok [OF core _ refl, of None lifetime request observer]
  have x: "nd_parent ?x = None" "nd_root ?x = ?n" "root_live ?x" "nd_request ?x = request"
    by (simp_all add: new_node_def root_live_def)
  have "linked (rn_nodes rt @ [?x]) ?n"
    using core assms(3) by (simp add: linked_def new_node_def runtime_core_def roots_ok_def)
  then have "nodes_ok rt'"
    using core new x linked_append
    by (auto simp: rt' nodes_ok_def runtime_core_def roots_ok_def less_Suc_eq nth_append)
  moreover have "roots_ok rt'"
    using core x by (auto simp: rt' runtime_core_def roots_ok_def nth_append less_Suc_eq)
  moreover have "gate_inv (rn_gate rt', entering + roots_held (rn_nodes rt'))"
    using assms(1) x by (simp add: rt' runtime_inv_def)
  ultimately show ?thesis
    using assms(1) new core by (auto simp: rt' runtime_inv_def runtime_core_def roots_ok_def)
qed

text \<open>Counting a node in or out at its parent and root.\<close>

lemma adjusted_nodes:
  fixes ns :: "'v node list"
  assumes "p < length ns" and "r < length ns" and "\<not> nd_finishing (ns ! p)" and "nd_parent (ns ! r) = None"
    and "nd_family (ns ! r) + d \<le> oopt_max_tasks opts"
    and "\<And>m. m < length ns \<Longrightarrow> linked ns m \<and>
      node_ok opts (gs m) (kids ns m - (if m = p then d else 0)) (kin ns m - (if m = r then d else 0)) (ns ! m)"
    and "ns1 = ns[p := (ns ! p)\<lparr>nd_children := nd_children (ns ! p) + d\<rparr>]"
    and "ns2 = ns1[r := (ns1 ! r)\<lparr>nd_family := nd_family (ns1 ! r) + d\<rparr>]"
  shows "length ns2 = length ns" and "m < length ns \<Longrightarrow> linked ns2 m \<and> node_ok opts (gs m) (kids ns2 m) (kin ns2 m) (ns2 ! m)"
    and "roots_held ns2 = roots_held ns" and "m < length ns \<Longrightarrow> same_links (ns2 ! m) (ns ! m)"
    and "m < length ns \<Longrightarrow> m \<noteq> p \<Longrightarrow> ends (ns2 ! m) = ends (ns ! m)" and "kids ns2 = kids ns"
proof -
  show len: "length ns2 = length ns" by (simp add: assms(7, 8))
  have nth: "ns2 ! m = adjust (if m = p then d else 0) (if m = r then d else 0) (ns ! m)" if "m < length ns" for m
    using adjust_parent_root [OF assms(1, 2) that, of d] by (simp add: assms(7, 8) Let_def)
  show same: "same_links (ns2 ! m) (ns ! m)" if "m < length ns" for m
    using nth [OF that] by simp
  have links: "kids ns2 = kids ns" "kin ns2 = kin ns" "\<And>m. m < length ns \<Longrightarrow> linked ns2 m = linked ns m"
    using links_cong [OF len] same by blast+
  then show "kids ns2 = kids ns" by simp
  show "roots_held ns2 = roots_held ns" using links_cong(3) [OF len] same by blast
  show "linked ns2 m \<and> node_ok opts (gs m) (kids ns2 m) (kin ns2 m) (ns2 ! m)" if "m < length ns" for m
  proof
    show "linked ns2 m" using links(3) [OF that] assms(6) [OF that] by simp
    have "node_ok opts (gs m) (kids ns m - (if m = p then d else 0) + (if m = p then d else 0))
        (kin ns m - (if m = r then d else 0) + (if m = r then d else 0)) (ns2 ! m)"
      unfolding nth [OF that] by (rule adjust_ok) (use assms(3-5) assms(6) [OF that] in \<open>auto split: if_splits\<close>)
    then show "node_ok opts (gs m) (kids ns2 m) (kin ns2 m) (ns2 ! m)" by (simp add: links)
  qed
  show "ends (ns2 ! m) = ends (ns ! m)" if "m < length ns" "m \<noteq> p" for m
    using nth [OF that(1)] that(2) by (simp add: ends_def)
qed

lemma new_child_base:
  assumes "runtime_inv (rt, entering)" and "p < length (rn_nodes rt)"
    and "nd_depth (rn_nodes rt ! p) < oopt_max_depth (rt_options (rn_gate rt))"
    and "x = new_node lifetime request (Some p) observer (length (rn_nodes rt)) rt"
    and "m < length (rn_nodes rt @ [x])"
  shows "linked (rn_nodes rt @ [x]) m \<and> node_ok (rt_options (rn_gate rt)) (guards_at (rn_guards rt) m)
    (kids (rn_nodes rt @ [x]) m - (if m = p then 1 else 0))
    (kin (rn_nodes rt @ [x]) m - (if m = nd_root (rn_nodes rt ! p) then 1 else 0)) ((rn_nodes rt @ [x]) ! m)"
proof (cases "m = length (rn_nodes rt)")
  case True
  have core: "runtime_core rt" using assms(1) by (simp add: runtime_inv_def)
  have r: "nd_root (rn_nodes rt ! p) \<le> p" "nd_parent (rn_nodes rt ! nd_root (rn_nodes rt ! p)) = None"
    using node_inv(2) [OF assms(1, 2)] by (simp_all add: linked_def)
  then have "linked (rn_nodes rt @ [x]) m"
    using core assms(2) True by (simp add: linked_def assms(4) new_node_def runtime_core_def roots_ok_def nth_append)
  then show ?thesis
    using new_node_ok(1) [OF core _ refl, of "Some p" lifetime request observer] True assms(2, 3) r
    by (simp add: assms(4)) (simp add: new_node_def)
next
  case False
  then have m: "m < length (rn_nodes rt)" using assms(5) by simp
  have "kids (rn_nodes rt @ [x]) m - (if m = p then 1 else 0) = kids (rn_nodes rt) m"
    "kin (rn_nodes rt @ [x]) m - (if m = nd_root (rn_nodes rt ! p) then 1 else 0) = kin (rn_nodes rt) m"
    by (auto simp: assms(4) new_node_def)
  then show ?thesis using node_inv(1, 2) [OF assms(1) m] linked_append [OF m] m by (simp add: nth_append)
qed

lemma new_child_inv:
  assumes "runtime_inv (rt, entering)" and "p < length (rn_nodes rt)"
    and "newNodeLocked lifetime request (Some p) observer rt = (Inr n, rt')"
  shows "runtime_inv (rt', entering)"
proof -
  let ?n = "length (rn_nodes rt)" and ?r = "nd_root (rn_nodes rt ! p)" and ?opts = "rt_options (rn_gate rt)"
  define x where "x = new_node lifetime request (Some p) observer ?n rt"
  have core: "runtime_core rt" using assms(1) by (simp add: runtime_inv_def)
  obtain live: "\<not> nd_finishing (rn_nodes rt ! p)" and room: "nd_family (rn_nodes rt ! ?r) < oopt_max_tasks ?opts"
      "nd_depth (rn_nodes rt ! p) < oopt_max_depth ?opts"
    and rt': "rt' = update_node ?r (\<lambda>nd. nd\<lparr>nd_family := nd_family nd + 1\<rparr>)
             (update_node p (\<lambda>nd. nd\<lparr>nd_children := nd_children nd + 1\<rparr>)
               (rt\<lparr>rn_sequence := rn_sequence rt + 1, rn_nodes := rn_nodes rt @ [x]\<rparr>))"
    using assms(3) unfolding x_def by (rule newNode_cases) simp_all
  have x: "nd_parent x = Some p" "\<not> nd_released x" "\<not> root_live x" "ends x"
    by (simp_all add: x_def new_node_def root_live_def ends_def)
  have bounds: "p < length (rn_nodes rt @ [x])" "?r < length (rn_nodes rt @ [x])"
    "\<not> nd_finishing ((rn_nodes rt @ [x]) ! p)" "nd_parent ((rn_nodes rt @ [x]) ! ?r) = None"
    "nd_family ((rn_nodes rt @ [x]) ! ?r) + 1 \<le> oopt_max_tasks ?opts"
    using assms(2) node_inv(2) [OF assms(1, 2)] live room by (auto simp: nth_append linked_def)
  have "rn_nodes rt' = (let ns = rn_nodes rt @ [x];
      ns1 = ns[p := (ns ! p)\<lparr>nd_children := nd_children (ns ! p) + 1\<rparr>]
      in ns1[?r := (ns1 ! ?r)\<lparr>nd_family := nd_family (ns1 ! ?r) + 1\<rparr>])"
    by (simp add: rt' Let_def)
  note adj = adjusted_nodes [OF bounds new_child_base [OF assms(1, 2) room(2) x_def] refl refl,
      folded this [unfolded Let_def]]
  have nodes': "nodes_ok rt'" using adj(1, 2) by (simp add: nodes_ok_def rt')
  have "root_live (rn_nodes rt' ! m) = root_live ((rn_nodes rt @ [x]) ! m)" if "m < Suc ?n" for m
    using adj(4) [of m] that by (simp add: same_links_def root_live_def)
  then have "roots_ok rt'"
    using core x(3) adj(1) by (auto simp: rt' runtime_core_def roots_ok_def less_Suc_eq nth_append)
  moreover have "nd_children (rn_nodes rt' ! p) = kids (rn_nodes rt) p + 1"
    using adj(2) [of p] adj(6) x(1, 2) assms(2) by (simp add: node_ok_def)
  then have "ends (rn_nodes rt' ! m)" if "m < Suc ?n" for m
    using that adj(5) [of m] x(4) assms(1) counts_nonneg(1) [of "rn_nodes rt" p]
    by (cases "m = p") (auto simp: runtime_inv_def nth_append less_Suc_eq ends_def [of "rn_nodes rt' ! p"])
  then have "\<forall>y\<in>set (rn_nodes rt'). ends y" using adj(1) by (auto simp: in_set_conv_nth)
  ultimately show ?thesis
    using nodes' adj(3) x(3) assms(1) by (simp add: runtime_inv_def runtime_core_def rt')
qed

section \<open>Finishing\<close>

lemma ended_node_ok:
  assumes "node_ok opts g k f nd" and "nd_finishing nd"
  shows "node_ok opts g k f (ended_node released nd)"
proof -
  have "errors_join [a, Some e] \<noteq> None" for a :: "gerr option" and e
    by (cases a) (simp_all add: errors_join_def non_nil_def)
  then show ?thesis
    using assms by (cases "case nd_release nd of LeaseRelease _ \<Rightarrow> released | _ \<Rightarrow> None")
      (auto simp: node_ok_def ended_node_def Let_def)
qed

lemma ended_node_fields [simp]:
  "nd_parent (ended_node released nd) = nd_parent nd" "nd_root (ended_node released nd) = nd_root nd"
  "nd_request (ended_node released nd) = nd_request nd" "nd_sequence (ended_node released nd) = nd_sequence nd"
  "nd_depth (ended_node released nd) = nd_depth nd" "nd_released (ended_node released nd)"
  "nd_finishing (ended_node released nd) = nd_finishing nd" "\<not> root_live (ended_node released nd)"
  by (simp_all add: ended_node_def Let_def root_live_def)

lemma ended_counts:
  assumes "n < length ns" and "\<not> nd_released (ns ! n)" and "ns' = ns[n := ended_node released (ns ! n)]"
  shows "kids ns' m = kids ns m - of_bool (nd_parent (ns ! n) = Some m)"
    and "kin ns' m = kin ns m - of_bool (nd_parent (ns ! n) \<noteq> None \<and> nd_root (ns ! n) = m)"
    and "roots_held ns' = roots_held ns -
      (if nd_parent (ns ! n) = None then {#req_work_bytes (nd_request (ns ! n))#} else {#})"
    and "m < length ns \<Longrightarrow> linked ns m \<Longrightarrow> linked ns' m"
proof -
  show "kids ns' m = kids ns m - of_bool (nd_parent (ns ! n) = Some m)"
    "kin ns' m = kin ns m - of_bool (nd_parent (ns ! n) \<noteq> None \<and> nd_root (ns ! n) = m)"
    unfolding kids_def kin_def assms(3) by (simp_all add: sum_list_map_update [OF assms(1)] assms(2))
  show "roots_held ns' = roots_held ns -
      (if nd_parent (ns ! n) = None then {#req_work_bytes (nd_request (ns ! n))#} else {#})"
    unfolding roots_held_def assms(3) mset_filter_update [OF assms(1)] using assms(2) by (simp add: root_live_def)
  have "nd_parent (ns' ! q) = nd_parent (ns ! q)" "nd_root (ns' ! q) = nd_root (ns ! q)"
    "nd_request (ns' ! q) = nd_request (ns ! q)" "nd_sequence (ns' ! q) = nd_sequence (ns ! q)"
    "nd_depth (ns' ! q) = nd_depth (ns ! q)" for q
    using assms(1) by (cases "q = n"; simp add: assms(3))+
  then show "linked ns' m" if "m < length ns" "linked ns m"
    using that by (auto simp: linked_def split: option.splits)
qed

lemma finish_root_inv:
  assumes "runtime_inv (rt, entering)" and "n < length (rn_nodes rt)" and "nd_finishing (rn_nodes rt ! n)"
    and "\<not> nd_released (rn_nodes rt ! n)" and "nd_parent (rn_nodes rt ! n) = None"
  shows "runtime_inv (snd (finish_one released n rt), entering)"
proof -
  let ?nd = "rn_nodes rt ! n" and ?ns = "(rn_nodes rt)[n := ended_node released (rn_nodes rt ! n)]"
  let ?rt = "snd (finish_one released n rt)"
  have core: "runtime_core rt" and gate: "gate_inv (rn_gate rt, entering + roots_held (rn_nodes rt))"
    using assms(1) by (simp_all add: runtime_inv_def)
  note counts = ended_counts [OF assms(2, 4) refl, where released = released]
  have rt: "rn_nodes ?rt = ?ns" "rn_roots ?rt = remove1 n (rn_roots rt)" "rn_guards ?rt = rn_guards rt"
    "rn_sequence ?rt = rn_sequence rt"
    "rn_gate ?rt = releasePermitLocked (req_work_bytes (nd_request ?nd)) (rn_gate rt)"
    by (simp_all add: finish_one_def Let_def assms(5))
  have opts: "rt_options (rn_gate ?rt) = rt_options (rn_gate rt)" by (simp add: rt gate_frame)
  have "node_ok (rt_options (rn_gate rt)) (guards_at (rn_guards rt) m) (kids ?ns m) (kin ?ns m) (?ns ! m)"
    if "m < length (rn_nodes rt)" for m
    using node_inv(1) [OF assms(1) that] ended_node_ok [OF _ assms(3)] assms(5)
    by (cases "m = n") (simp_all add: counts that assms(2))
  then have "nodes_ok ?rt"
    unfolding nodes_ok_def rt(1-4) opts using counts(4) core by (auto simp: runtime_core_def nodes_ok_def)
  moreover have "root_live (?ns ! m) \<longleftrightarrow> root_live (rn_nodes rt ! m) \<and> m \<noteq> n" if "m < length (rn_nodes rt)" for m
    using that by (cases "m = n") simp_all
  then have "roots_ok ?rt"
    unfolding roots_ok_def rt(1-4) opts using core by (auto simp: runtime_core_def roots_ok_def)
  moreover have "\<forall>x\<in>set ?ns. ends x"
    using assms(1, 3) set_update_subset_insert [of "rn_nodes rt" n] by (fastforce simp: runtime_inv_def ends_def)
  moreover have "req_work_bytes (nd_request ?nd) \<in># roots_held (rn_nodes rt)"
    unfolding roots_held_def using assms(2, 4, 5) by (auto simp: root_live_def)
  then have "gate_inv (rn_gate ?rt, entering + roots_held ?ns)"
    unfolding rt(5) using gate_invD(6) [OF gate]
    by (intro releasePermitLocked_inv) (simp add: counts(3) assms(5))
  ultimately show ?thesis by (simp add: runtime_inv_def runtime_core_def rt)
qed

lemma ended_child_base:
  assumes "runtime_inv (rt, entering)" and "n < length (rn_nodes rt)" and "nd_finishing (rn_nodes rt ! n)"
    and "\<not> nd_released (rn_nodes rt ! n)" and "nd_parent (rn_nodes rt ! n) = Some p"
    and "ns = (rn_nodes rt)[n := ended_node released (rn_nodes rt ! n)]" and "m < length ns"
  shows "linked ns m \<and> node_ok (rt_options (rn_gate rt)) (guards_at (rn_guards rt) m)
    (kids ns m - (if m = p then - 1 else 0)) (kin ns m - (if m = nd_root (rn_nodes rt ! n) then - 1 else 0)) (ns ! m)"
proof -
  note counts = ended_counts [OF assms(2, 4, 6)]
  have m: "m < length (rn_nodes rt)" using assms(6, 7) by simp
  have "kids ns m - (if m = p then - 1 else 0) = kids (rn_nodes rt) m"
    "kin ns m - (if m = nd_root (rn_nodes rt ! n) then - 1 else 0) = kin (rn_nodes rt) m"
    using assms(5) by (auto simp: counts)
  moreover have "node_ok (rt_options (rn_gate rt)) (guards_at (rn_guards rt) m) (kids (rn_nodes rt) m)
      (kin (rn_nodes rt) m) (ns ! m)"
    using node_inv(1) [OF assms(1) m] ended_node_ok [OF _ assms(3)] m assms(2)
    by (cases "m = n") (simp_all add: assms(6))
  ultimately show ?thesis using counts(4) [OF m node_inv(2) [OF assms(1) m]] by simp
qed

text \<open>The parent of an unreleased node is not finishing.\<close>

lemma parent_open:
  assumes "runtime_inv (rt, entering)" and "n < length (rn_nodes rt)" and "\<not> nd_released (rn_nodes rt ! n)"
    and "nd_parent (rn_nodes rt ! n) = Some p"
  shows "p < n" and "nd_root (rn_nodes rt ! n) < n" and "nd_parent (rn_nodes rt ! nd_root (rn_nodes rt ! n)) = None"
    and "\<not> nd_finishing (rn_nodes rt ! p)"
proof -
  note link = node_inv(2) [OF assms(1, 2)]
  show "nd_parent (rn_nodes rt ! nd_root (rn_nodes rt ! n)) = None" and p: "p < n"
    using link assms(4) by (auto simp: linked_def)
  then show "nd_root (rn_nodes rt ! n) < n" using link assms(4) by (auto simp: linked_def order_le_less)
  have "kids (rn_nodes rt) p \<ge> 1"
    using ended_counts(1) [OF assms(2, 3) refl, of _ p] assms(4)
      counts_nonneg(1) [of "(rn_nodes rt)[n := ended_node None (rn_nodes rt ! n)]" p] by simp
  then show "\<not> nd_finishing (rn_nodes rt ! p)"
    using node_inv(1) [OF assms(1), of p] p assms(2) by (auto simp: node_ok_def)
qed

lemma finish_child_inv:
  assumes "runtime_inv (rt, entering)" and "n < length (rn_nodes rt)" and "nd_finishing (rn_nodes rt ! n)"
    and "\<not> nd_released (rn_nodes rt ! n)" and "nd_parent (rn_nodes rt ! n) = Some p"
  shows "runtime_inv (snd (finish_one released n rt), entering)"
proof -
  let ?nd = "rn_nodes rt ! n" and ?r = "nd_root (rn_nodes rt ! n)" and ?opts = "rt_options (rn_gate rt)"
  define ns where "ns = (rn_nodes rt)[n := ended_node released ?nd]"
  have core: "runtime_core rt" and gate: "gate_inv (rn_gate rt, entering + roots_held (rn_nodes rt))"
    using assms(1) by (simp_all add: runtime_inv_def)
  note p = parent_open [OF assms(1, 2, 4, 5)]
  have "nd_family (rn_nodes rt ! ?r) \<le> oopt_max_tasks ?opts"
    using node_inv(1) [OF assms(1), of ?r] p(2) assms(2) by (simp add: node_ok_def)
  then have bounds: "p < length ns" "?r < length ns" "\<not> nd_finishing (ns ! p)" "nd_parent (ns ! ?r) = None"
    "nd_family (ns ! ?r) + - 1 \<le> oopt_max_tasks ?opts"
    using p assms(2) by (simp_all add: ns_def)
  define ns1 where "ns1 = ns[p := (ns ! p)\<lparr>nd_children := nd_children (ns ! p) + - 1\<rparr>]"
  define ns2 where "ns2 = ns1[?r := (ns1 ! ?r)\<lparr>nd_family := nd_family (ns1 ! ?r) + - 1\<rparr>]"
  note adj = adjusted_nodes [OF bounds ended_child_base [OF assms ns_def] ns1_def ns2_def]
  define mid where "mid = update_node ?r (\<lambda>nd. nd\<lparr>nd_family := nd_family nd - 1\<rparr>)
      (update_node p (\<lambda>nd. nd\<lparr>nd_children := nd_children nd - 1\<rparr>)
        (publish_event (nd_observer ?nd) \<lparr>event_operation = req_operation (nd_request ?nd), event_phase = Released,
          event_failed = nd_failed (ended_node released ?nd)\<rparr> (update_node n (ended_node released) rt)))"
  have mid: "rn_nodes mid = ns2" "rn_gate mid = rn_gate rt" "rn_guards mid = rn_guards rt" "rn_roots mid = rn_roots rt"
    "rn_sequence mid = rn_sequence rt"
    by (simp_all add: mid_def ns_def ns1_def ns2_def)
  have len: "length ns2 = length (rn_nodes rt)" using adj(1) by (simp add: ns_def)
  have "root_live (ns2 ! m) = root_live (rn_nodes rt ! m)" if "m < length (rn_nodes rt)" for m
    using adj(4) [of m] that assms(2, 5) by (cases "m = n") (simp_all add: ns_def same_links_def root_live_def)
  then have "roots_ok mid" unfolding roots_ok_def mid using len core by (auto simp: runtime_core_def roots_ok_def)
  moreover have "nodes_ok mid" unfolding nodes_ok_def mid using adj(1, 2) by simp
  moreover have "ends (ns2 ! m)" if "m < length ns2" "m \<noteq> p" for m
    using that adj(1, 5) len assms(1-3) by (cases "m = n") (auto simp: ns_def runtime_inv_def ends_def)
  moreover have "gate_inv (rn_gate mid, entering + roots_held (rn_nodes mid))"
    using gate adj(3) ended_counts(3) [OF assms(2, 4) ns_def] assms(5) by (simp add: mid)
  ultimately have "runtime_inv (snd (canFinishLocked p mid), entering)"
    using p(1) assms(2) len by (intro canFinish_inv) (simp_all add: mid runtime_core_def)
  moreover have "snd (finish_one released n rt) = snd (canFinishLocked p mid)"
    by (simp add: finish_one_def Let_def assms(5) mid_def split: prod.splits)
  ultimately show ?thesis by simp
qed

end
