(* ===== verification/Operation_Steps.thy ===== *)
theory Operation_Steps
  imports Operation_Counts
begin

text \<open>
  The interleaved steps of a runtime and what holds in every state they reach.
\<close>

section \<open>Steps\<close>

text \<open>Each step is one lock section of the code, or the end of a context. The second component of a state
  holds the bytes of the permits of callers that are between admission and their node.\<close>

inductive runtime_step :: "'v runtime \<times> int multiset \<Rightarrow> 'v runtime \<times> int multiset \<Rightarrow> bool" where
  ru_enter: "acquire_enter ctx bytes (rn_gate rt) = (result, g) \<Longrightarrow> bytes \<ge> 1 \<Longrightarrow>
    runtime_step (rt, entering) (rt\<lparr>rn_gate := g\<rparr>, if result = Inr None then add_mset bytes entering else entering)"
| ru_return: "acquire_return p (rn_gate rt) = (reply, g) \<Longrightarrow> p < length (rt_waiters (rn_gate rt)) \<Longrightarrow>
    \<not> wt_left (rt_waiters (rn_gate rt) ! p) \<Longrightarrow>
    runtime_step (rt, entering) (rt\<lparr>rn_gate := g\<rparr>, if reply = Some None
      then add_mset (wt_bytes (rt_waiters (rn_gate rt) ! p)) entering else entering)"
| ru_abandon: "bytes \<in># entering \<Longrightarrow>
    runtime_step (rt, entering) (rt\<lparr>rn_gate := releasePermitLocked bytes (rn_gate rt)\<rparr>, entering - {#bytes#})"
| ru_shutdown: "runtime_step (rt, entering) (shutdown_runtime cause rt, entering)"
| ru_waiter_ctx: "p < length (rt_waiters (rn_gate rt)) \<Longrightarrow>
    runtime_step (rt, entering) (rt\<lparr>rn_gate := (rn_gate rt)\<lparr>rt_waiters :=
      (rt_waiters (rn_gate rt))[p := (rt_waiters (rn_gate rt) ! p)\<lparr>wt_ctx := ctx\<rparr>]\<rparr>\<rparr>, entering)"
| ru_base: "runtime_step (rt, entering) (rt\<lparr>rn_gate := (rn_gate rt)\<lparr>rt_base := ctx\<rparr>\<rparr>, entering)"
| ru_root: "newNodeLocked lifetime request None observer rt = (Inr n, rt') \<Longrightarrow> validRequest request False \<Longrightarrow>
    req_work_bytes request \<in># entering \<Longrightarrow>
    runtime_step (rt, entering) (rt', entering - {#req_work_bytes request#})"
| ru_child: "newNodeLocked lifetime request (Some p) observer rt = (Inr n, rt') \<Longrightarrow> validRequest request True \<Longrightarrow>
    p < length (rn_nodes rt) \<Longrightarrow> runtime_step (rt, entering) (rt', entering)"
| ru_hold: "Call_Hold (Some n) rt = (held, rt') \<Longrightarrow> n < length (rn_nodes rt) \<Longrightarrow>
    runtime_step (rt, entering) (rt', entering)"
| ru_release: "Guard_Release (Some k) rt = (err, rt') \<Longrightarrow> k < length (rn_guards rt) \<Longrightarrow>
    runtime_step (rt, entering) (rt', entering)"
| ru_leave: "rn_guards rt ! k = GuardLeaving n \<Longrightarrow> k < length (rn_guards rt) \<Longrightarrow>
    runtime_step (rt, entering) (snd (guard_leave k n rt), entering)"
| ru_returned: "n < length (rn_nodes rt) \<Longrightarrow> nd_running (rn_nodes rt ! n) \<Longrightarrow>
    runtime_step (rt, entering) (snd (node_returned False n rt), entering)"
| ru_resolve: "Resolve_enter (Some n) rt = (err, rt') \<Longrightarrow> n < length (rn_nodes rt) \<Longrightarrow>
    runtime_step (rt, entering) (rt', entering)"
| ru_publish: "n < length (rn_nodes rt) \<Longrightarrow> nd_resolving (rn_nodes rt ! n) \<Longrightarrow>
    runtime_step (rt, entering) (snd (Resolve_publish copy outcome n rt), entering)"
| ru_finish: "n < length (rn_nodes rt) \<Longrightarrow> nd_finishing (rn_nodes rt ! n) \<Longrightarrow> \<not> nd_released (rn_nodes rt ! n) \<Longrightarrow>
    runtime_step (rt, entering) (snd (finish_one released n rt), entering)"
| ru_cancel: "runtime_step (rt, entering) (update_node n (\<lambda>nd. nd\<lparr>nd_ctx := cancel_ctx cause (nd_ctx nd)\<rparr>) rt, entering)"
| ru_source: "nd_running (rn_nodes rt ! n) \<Longrightarrow> runtime_step (rt, entering)
    (update_node n (\<lambda>nd. nd\<lparr>nd_source := source, nd_release := LeaseRelease lease\<rparr>) rt, entering)"

definition runtime_initial :: "'v runtime \<times> int multiset \<Rightarrow> bool" where
  "runtime_initial re \<longleftrightarrow>
     (\<exists>ctx opts observers. Runtime_New ctx opts observers = Inr (fst re)) \<and> snd re = {#}"

lemma Runtime_New_inv:
  assumes "Runtime_New ctx opts observers = Inr rt"
  shows "runtime_inv (rt, {#})"
proof -
  obtain g where g: "operation_New ctx opts = Inr g" and rt: "rt = \<lparr>rn_gate = g, rn_sequence = 0, rn_roots = [],
      rn_nodes = [], rn_guards = [], rn_observers = observers\<rparr>"
    using assms unfolding Runtime_New_def by (cases "operation_New ctx opts") auto
  from g obtain norm where norm: "operation_normalize opts = Inr norm" "rt_options g = norm"
    by (rule operation_New_Inr) simp
  have "gate_inv (g, {#})" by (rule gates.initial_inv) (use g in \<open>auto simp: gate_initial_def\<close>)
  then show ?thesis
    using operation_normalize_Inr [OF norm(1)] norm(2)
    by (simp add: rt runtime_inv_def runtime_core_def nodes_ok_def roots_ok_def roots_held_def)
qed

lemma runtime_gate:
  assumes "runtime_inv (rt, entering)"
  shows "gate_inv (rn_gate rt, entering + roots_held (rn_nodes rt))"
  using assms by (simp add: runtime_inv_def)

lemma gate_steps_inv:
  assumes "runtime_inv (rt, entering)"
  shows "acquire_enter ctx bytes (rn_gate rt) = (result, g) \<Longrightarrow> bytes \<ge> 1 \<Longrightarrow>
      runtime_inv (rt\<lparr>rn_gate := g\<rparr>, if result = Inr None then add_mset bytes entering else entering)"
    and "acquire_return p (rn_gate rt) = (reply, g) \<Longrightarrow> p < length (rt_waiters (rn_gate rt)) \<Longrightarrow>
      \<not> wt_left (rt_waiters (rn_gate rt) ! p) \<Longrightarrow> runtime_inv (rt\<lparr>rn_gate := g\<rparr>, if reply = Some None
        then add_mset (wt_bytes (rt_waiters (rn_gate rt) ! p)) entering else entering)"
    and "bytes \<in># entering \<Longrightarrow>
      runtime_inv (rt\<lparr>rn_gate := releasePermitLocked bytes (rn_gate rt)\<rparr>, entering - {#bytes#})"
    and "p < length (rt_waiters (rn_gate rt)) \<Longrightarrow> runtime_inv (rt\<lparr>rn_gate := (rn_gate rt)\<lparr>rt_waiters :=
      (rt_waiters (rn_gate rt))[p := (rt_waiters (rn_gate rt) ! p)\<lparr>wt_ctx := ctx'\<rparr>]\<rparr>\<rparr>, entering)"
    and "runtime_inv (rt\<lparr>rn_gate := (rn_gate rt)\<lparr>rt_base := ctx'\<rparr>\<rparr>, entering)"
proof -
  note gate = runtime_gate [OF assms]
  show "runtime_inv (rt\<lparr>rn_gate := g\<rparr>, if result = Inr None then add_mset bytes entering else entering)"
    if "acquire_enter ctx bytes (rn_gate rt) = (result, g)" "bytes \<ge> 1"
    using enter_inv [OF gate that] by (intro gate_inv_runtime [OF assms gate_frame(4) [OF that(1)]]) (cases "result = Inr None"; simp)
  show "runtime_inv (rt\<lparr>rn_gate := g\<rparr>, if reply = Some None
        then add_mset (wt_bytes (rt_waiters (rn_gate rt) ! p)) entering else entering)"
    if "acquire_return p (rn_gate rt) = (reply, g)" "p < length (rt_waiters (rn_gate rt))"
      "\<not> wt_left (rt_waiters (rn_gate rt) ! p)"
    using acquire_return_inv [OF gate that] by (intro gate_inv_runtime [OF assms gate_frame(5) [OF that(1)]]) (cases "reply = Some None"; simp)
  show "runtime_inv (rt\<lparr>rn_gate := releasePermitLocked bytes (rn_gate rt)\<rparr>, entering - {#bytes#})"
    if "bytes \<in># entering"
  proof (rule gate_inv_runtime [OF assms gate_frame(2)], rule releasePermitLocked_inv)
    show "gate_core (rn_gate rt) (add_mset bytes (entering - {#bytes#} + roots_held (rn_nodes rt)))"
      using gate_invD(6) [OF gate] that by simp
  qed
  show "runtime_inv (rt\<lparr>rn_gate := (rn_gate rt)\<lparr>rt_waiters :=
      (rt_waiters (rn_gate rt))[p := (rt_waiters (rn_gate rt) ! p)\<lparr>wt_ctx := ctx'\<rparr>]\<rparr>\<rparr>, entering)"
    if "p < length (rt_waiters (rn_gate rt))"
    by (rule gate_inv_runtime [OF assms _ cancel_inv [OF gate that]]) simp
  show "runtime_inv (rt\<lparr>rn_gate := (rn_gate rt)\<lparr>rt_base := ctx'\<rparr>\<rparr>, entering)"
    by (rule gate_inv_runtime [OF assms _ base_inv [OF gate]]) simp
qed

lemma new_node_step_inv:
  assumes "runtime_inv (rt, entering)"
  shows "newNodeLocked lifetime request None observer rt = (Inr n, rt') \<Longrightarrow> validRequest request False \<Longrightarrow>
      req_work_bytes request \<in># entering \<Longrightarrow> runtime_inv (rt', entering - {#req_work_bytes request#})"
    and "newNodeLocked lifetime request (Some p) observer rt = (Inr n, rt') \<Longrightarrow> p < length (rn_nodes rt) \<Longrightarrow>
      runtime_inv (rt', entering)"
proof -
  show "runtime_inv (rt', entering - {#req_work_bytes request#})"
    if "newNodeLocked lifetime request None observer rt = (Inr n, rt')" "validRequest request False"
      "req_work_bytes request \<in># entering"
  proof (rule new_root_inv [OF _ that(1)])
    show "runtime_inv (rt, add_mset (req_work_bytes request) (entering - {#req_work_bytes request#}))"
      using assms that(3) by simp
    show "1 \<le> req_work_bytes request" using that(2) by (simp add: validRequest_def split: if_splits)
  qed
qed (rule new_child_inv [OF assms])

lemma finish_step_inv:
  assumes "runtime_inv (rt, entering)" and "n < length (rn_nodes rt)" and "nd_finishing (rn_nodes rt ! n)"
    and "\<not> nd_released (rn_nodes rt ! n)"
  shows "runtime_inv (snd (finish_one released n rt), entering)"
  using finish_root_inv [OF assms] finish_child_inv [OF assms] by (cases "nd_parent (rn_nodes rt ! n)") blast+

lemma annotate_step_inv:
  assumes "runtime_inv (rt, entering)"
  shows "runtime_inv (update_node n (\<lambda>nd. nd\<lparr>nd_ctx := cancel_ctx cause (nd_ctx nd)\<rparr>) rt, entering)"
    and "runtime_inv (update_node n (\<lambda>nd. nd\<lparr>nd_source := source, nd_release := release\<rparr>) rt, entering)"
  unfolding update_node_def by (rule annotate_inv [OF assms], simp)+

lemma step_runtime_inv:
  assumes "runtime_step re re'" and "runtime_inv re"
  shows "runtime_inv re'"
  using assms
  by (induction rule: runtime_step.induct)
    (blast intro: gate_steps_inv new_node_step_inv finish_step_inv annotate_step_inv shutdown_inv hold_inv
      guard_release_inv guard_leave_inv returned_inv resolve_enter_inv resolve_publish_inv)+

interpretation runtimes: transition_system runtime_initial runtime_step runtime_inv
proof
  show "runtime_inv s" if "runtime_initial s" for s :: "'v runtime \<times> int multiset"
    using that Runtime_New_inv by (cases s) (auto simp: runtime_initial_def)
  show "runtime_inv t" if "runtime_inv s" "runtime_step s t" for s t :: "'v runtime \<times> int multiset"
    by (rule step_runtime_inv [OF that(2, 1)])
qed

section \<open>Released operations\<close>

text \<open>The children of a node, and all operations below one.\<close>

definition child_of :: "'v node list \<Rightarrow> (nat \<times> nat) set" where
  "child_of ns = {(m, p). m < length ns \<and> nd_parent (ns ! m) = Some p}"

lemma kids_pos:
  assumes "m < length ns" and "nd_parent (ns ! m) = Some p" and "\<not> nd_released (ns ! m)"
  shows "kids ns p \<ge> 1"
proof -
  have "of_bool (nd_parent (ns ! m) = Some p \<and> \<not> nd_released (ns ! m)) \<le> kids ns p"
    unfolding kids_def using assms(1) by (intro member_le_sum_list) auto
  then show ?thesis using assms by simp
qed

lemma guards_pos:
  assumes "k < length gs" and "gs ! k \<in> {GuardOpen n, GuardLeaving n}"
  shows "guards_at gs n \<ge> 1"
proof -
  have "of_bool (gs ! k = GuardOpen n \<or> gs ! k = GuardLeaving n) \<le> guards_at gs n"
    unfolding guards_at_def using assms(1) by (intro member_le_sum_list) auto
  then show ?thesis using assms by auto
qed

lemma finishing_free:
  assumes "runtime_inv (rt, entering)" and "n < length (rn_nodes rt)" and "nd_finishing (rn_nodes rt ! n)"
  shows "nd_resolved (rn_nodes rt ! n)" and "\<not> nd_running (rn_nodes rt ! n)" and "\<not> nd_resolving (rn_nodes rt ! n)"
    and "k < length (rn_guards rt) \<Longrightarrow> rn_guards rt ! k \<notin> {GuardOpen n, GuardLeaving n}"
    and "(m, n) \<in> child_of (rn_nodes rt) \<Longrightarrow> nd_released (rn_nodes rt ! m)"
proof -
  note ok = node_inv(1) [OF assms(1, 2)]
  have zero: "nd_refs (rn_nodes rt ! n) = 0" "kids (rn_nodes rt) n = 0" "nd_resolved (rn_nodes rt ! n)"
    using ok assms(3) by (auto simp: node_ok_def)
  show "nd_resolved (rn_nodes rt ! n)" by (rule zero)
  note free = refs_zero [OF ok zero(1) counts_nonneg(3)]
  then show "\<not> nd_running (rn_nodes rt ! n)" "\<not> nd_resolving (rn_nodes rt ! n)" by simp_all
  show "rn_guards rt ! k \<notin> {GuardOpen n, GuardLeaving n}" if "k < length (rn_guards rt)"
    using guards_pos [OF that, of n] free by auto
  show "nd_released (rn_nodes rt ! m)" if "(m, n) \<in> child_of (rn_nodes rt)"
    using kids_pos [of m "rn_nodes rt" n] zero(2) that by (auto simp: child_of_def)
qed

lemma released_finishing:
  assumes "runtime_inv (rt, entering)" and "n < length (rn_nodes rt)" and "nd_released (rn_nodes rt ! n)"
  shows "nd_finishing (rn_nodes rt ! n)"
  using node_inv(1) [OF assms(1, 2)] assms(3) by (simp add: node_ok_def)

lemma descendants_released:
  assumes "runtime_inv (rt, entering)" and "(m, n) \<in> (child_of (rn_nodes rt))\<^sup>*" and "n < length (rn_nodes rt)"
    and "nd_released (rn_nodes rt ! n)"
  shows "nd_released (rn_nodes rt ! m)"
  using assms(2)
proof (induction rule: converse_rtrancl_induct)
  case (step a b)
  have "b < length (rn_nodes rt)"
    using step(1) node_inv(2) [OF assms(1), of a] by (auto simp: child_of_def linked_def)
  then show ?case using finishing_free(5) [OF assms(1) _ released_finishing [OF assms(1)]] step by blast
qed (rule assms(4))

lemma below_released:
  assumes "runtime_inv (rt, entering)" and "n < length (rn_nodes rt)" and "nd_released (rn_nodes rt ! n)"
    and "(m, n) \<in> (child_of (rn_nodes rt))\<^sup>*"
  shows "nd_released (rn_nodes rt ! m) \<and> nd_resolved (rn_nodes rt ! m) \<and> \<not> nd_running (rn_nodes rt ! m) \<and>
    \<not> nd_resolving (rn_nodes rt ! m) \<and>
    (\<forall>k. k < length (rn_guards rt) \<longrightarrow> rn_guards rt ! k \<notin> {GuardOpen m, GuardLeaving m})"
proof -
  have m: "m < length (rn_nodes rt)"
    using assms(4, 2) by (cases rule: converse_rtranclE) (auto simp: child_of_def)
  have rel: "nd_released (rn_nodes rt ! m)" by (rule descendants_released [OF assms(1, 4, 2, 3)])
  show ?thesis using finishing_free [OF assms(1) m released_finishing [OF assms(1) m rel]] rel by blast
qed

text \<open>C28: an operation is released only when its work has ended. In every reachable state a released
  operation and every operation below it have a settled outcome, their submitting stacks have returned,
  nobody is publishing their outcome, and no guard on them is still held or being given back.\<close>

theorem released_work_ended:
  fixes rt :: "'v runtime"
  assumes "reach runtime_initial runtime_step (rt, entering)" and "n < length (rn_nodes rt)"
    and "nd_released (rn_nodes rt ! n)" and "(m, n) \<in> (child_of (rn_nodes rt))\<^sup>*"
  shows "nd_released (rn_nodes rt ! m) \<and> nd_resolved (rn_nodes rt ! m) \<and> \<not> nd_running (rn_nodes rt ! m) \<and>
    \<not> nd_resolving (rn_nodes rt ! m) \<and>
    (\<forall>k. k < length (rn_guards rt) \<longrightarrow> rn_guards rt ! k \<notin> {GuardOpen m, GuardLeaving m})"
  by (rule below_released [OF runtimes.reach_inv [OF assms(1)] assms(2-4)])

text \<open>The root of every unreleased operation is unreleased.\<close>

lemma root_above:
  assumes "runtime_inv (rt, entering)" and "n < length (rn_nodes rt)"
  shows "(n, nd_root (rn_nodes rt ! n)) \<in> (child_of (rn_nodes rt))\<^sup>*"
  using assms(2)
proof (induction n rule: less_induct)
  case (less n)
  note link = node_inv(2) [OF assms(1) less(2)]
  show ?case
  proof (cases "nd_parent (rn_nodes rt ! n)")
    case None
    then show ?thesis using link by (simp add: linked_def)
  next
    case (Some p)
    then have "p < n" "nd_root (rn_nodes rt ! n) = nd_root (rn_nodes rt ! p)" using link by (simp_all add: linked_def)
    moreover have "(n, p) \<in> child_of (rn_nodes rt)" using Some less(2) by (simp add: child_of_def)
    ultimately show ?thesis using less by (simp add: converse_rtrancl_into_rtrancl)
  qed
qed

lemma closed_all_released:
  assumes "runtime_inv (rt, entering)" and "rt_closed (rn_gate rt)"
  shows "entering = {#}" and "n < length (rn_nodes rt) \<Longrightarrow> nd_released (rn_nodes rt ! n)"
proof -
  note gate = gate_invD [OF runtime_gate [OF assms(1)]]
  have "owed_count (rt_waiters (rn_gate rt)) \<ge> 0" using gate(1) by (intro owed_nonneg) (simp add: inv_waiters_def)
  moreover have "rt_active (rn_gate rt) = 0" using gate(2) assms(2) by (simp add: inv_queue_def)
  moreover have "rt_active (rn_gate rt) = int (size (entering + roots_held (rn_nodes rt))) +
      owed_count (rt_waiters (rn_gate rt))" using gate(3) unfolding inv_permits_def by blast
  ultimately have "size (entering + roots_held (rn_nodes rt)) = 0" by linarith
  then have none: "entering = {#}" "roots_held (rn_nodes rt) = {#}" by simp_all
  then show "entering = {#}" by simp
  show "nd_released (rn_nodes rt ! n)" if n: "n < length (rn_nodes rt)"
  proof -
    let ?r = "nd_root (rn_nodes rt ! n)"
    have r: "?r < length (rn_nodes rt)" "nd_parent (rn_nodes rt ! ?r) = None"
      using node_inv(2) [OF assms(1) n] n by (auto simp: linked_def)
    have "filter root_live (rn_nodes rt) = []" using none(2) by (simp add: roots_held_def)
    then have "\<not> root_live (rn_nodes rt ! ?r)" using nth_mem [OF r(1)] by (metis filter_empty_conv)
    then have "nd_released (rn_nodes rt ! ?r)" using r(2) by (simp add: root_live_def)
    then show ?thesis by (rule descendants_released [OF assms(1) root_above [OF assms(1) n] r(1)])
  qed
qed

text \<open>In a reachable runtime the comparison in \<open>cancellation\<close> never cuts the walk short.\<close>

lemma cancellation_walk:
  assumes "runtime_inv (rt, entering)" and "n < length (rn_nodes rt)"
  shows "cancellation (rn_nodes rt) n =
    (let nd = rn_nodes rt ! n in
     if ctx_err (nd_ctx nd) \<noteq> None then errors_join [ctx_err (nd_ctx nd), ctx_cause (nd_ctx nd)]
     else (case nd_parent nd of None \<Rightarrow> None | Some p \<Rightarrow> cancellation (rn_nodes rt) p))"
  using node_inv(2) [OF assms] by (subst cancellation.simps) (auto simp: linked_def Let_def split: option.splits)

lemma closed_refuses:
  assumes "runtime_inv (rt, entering)" and "rt_closed (rn_gate rt)"
  shows "\<exists>err. acquire_enter c b (rn_gate rt) = (Inl err, rn_gate rt)"
    and "\<exists>err. newNodeLocked lifetime request parent observer rt = (Inl err, rt)"
proof -
  have closing: "rt_closing (rn_gate rt)" using gate_invD(2) [OF runtime_gate [OF assms(1)]] assms(2) by (simp add: inv_queue_def)
  then show "\<exists>err. acquire_enter c b (rn_gate rt) = (Inl err, rn_gate rt)" by (simp add: acquire_enter_def)
  show "\<exists>err. newNodeLocked lifetime request parent observer rt = (Inl err, rt)"
  proof (cases "newNodeLocked lifetime request parent observer rt")
    case (Pair result rt')
    then show ?thesis by (cases rule: newNode_cases) (use closing Pair in simp_all)
  qed
qed

text \<open>A \<^verbatim>\<open>Close\<close> that returns no error, at once or after waiting, leaves a closed runtime.\<close>

lemma closed_by_Close:
  assumes "Runtime_Close ctx (Some rt) = (Some None, Some rt') \<or> Runtime_Close_wait pick c rt = Some None \<and> rt' = rt"
  shows "rt' = shutdown_runtime (Some (CodeError operation_ErrClosed)) rt \<or> rt' = rt" and "rt_closed (rn_gate rt')"
  using assms by (auto simp: Runtime_Close_def Runtime_Close_wait_def Let_def split: option.splits if_splits)

text \<open>C27: a successful \<^verbatim>\<open>Close\<close> confirms the join. When \<^verbatim>\<open>Close\<close> on a reachable runtime returns no error, at
  once or after it had to wait, every accepted operation, child or root, has been released, no admitted caller
  is between its permit and its operation, and no later attempt to begin an operation or to join the queue
  succeeds.\<close>

theorem close_confirms_join:
  fixes rt :: "'v runtime"
  assumes "reach runtime_initial runtime_step (rt, entering)"
    and "Runtime_Close ctx (Some rt) = (Some None, Some rt') \<or> Runtime_Close_wait pick c rt = Some None \<and> rt' = rt"
  shows "entering = {#} \<and> (\<forall>n. n < length (rn_nodes rt') \<longrightarrow> nd_released (rn_nodes rt' ! n)) \<and>
    (\<forall>c b. \<exists>err. acquire_enter c b (rn_gate rt') = (Inl err, rn_gate rt')) \<and>
    (\<forall>lifetime request parent observer. \<exists>err.
       newNodeLocked lifetime request parent observer rt' = (Inl err, rt'))"
proof -
  note closed = closed_by_Close [OF assms(2)]
  have inv: "runtime_inv (rt', entering)"
    using closed(1) runtimes.reach_inv [OF assms(1)] shutdown_inv by blast
  show ?thesis using closed_all_released [OF inv closed(2)] closed_refuses [OF inv closed(2)] by blast
qed

text \<open>C29: accepted work is never orphaned. In every reachable state, below every operation that has not been
  released there is one (possibly itself) that somebody is responsible for: its submitting stack runs,
  its outcome is being published, a guard is held or being given back, or its release is under way.\<close>

theorem work_has_owner:
  fixes rt :: "'v runtime"
  assumes "reach runtime_initial runtime_step (rt, entering)" and "n < length (rn_nodes rt)"
    and "\<not> nd_released (rn_nodes rt ! n)"
  shows "\<exists>m. (m, n) \<in> (child_of (rn_nodes rt))\<^sup>* \<and> \<not> nd_released (rn_nodes rt ! m) \<and>
    (nd_running (rn_nodes rt ! m) \<or> nd_resolving (rn_nodes rt ! m) \<or> guards_at (rn_guards rt) m > 0 \<or>
     nd_finishing (rn_nodes rt ! m))"
proof -
  have inv: "runtime_inv (rt, entering)" by (rule runtimes.reach_inv [OF assms(1)])
  show ?thesis
    using assms(2, 3)
  proof (induction "length (rn_nodes rt) - n" arbitrary: n rule: less_induct)
    case (less n)
    note ok = node_inv [OF inv less(2)]
    show ?case
    proof (cases "nd_refs (rn_nodes rt ! n) = 0 \<and> \<not> nd_finishing (rn_nodes rt ! n)")
      case False
      then have "nd_running (rn_nodes rt ! n) \<or> nd_resolving (rn_nodes rt ! n) \<or> guards_at (rn_guards rt) n > 0 \<or>
          nd_finishing (rn_nodes rt ! n)"
        using ok(1) counts_nonneg(3) [of "rn_guards rt" n] by (auto simp: node_ok_def)
      then show ?thesis using less(3) by blast
    next
      case True
      then have "kids (rn_nodes rt) n \<noteq> 0" using ok(1, 3) by (auto simp: ends_def node_ok_def)
      then obtain x where "x \<in> set (rn_nodes rt)" "nd_parent x = Some n \<and> \<not> nd_released x"
        using sum_list_0_if [of "rn_nodes rt" "\<lambda>x. nd_parent x = Some n \<and> \<not> nd_released x"] unfolding kids_def by blast
      then obtain c where c: "c < length (rn_nodes rt)" "nd_parent (rn_nodes rt ! c) = Some n"
        "\<not> nd_released (rn_nodes rt ! c)" by (metis in_set_conv_nth)
      have "n < c" using node_inv(2) [OF inv c(1)] c(2) by (simp add: linked_def)
      then obtain m where "(m, c) \<in> (child_of (rn_nodes rt))\<^sup>*" "\<not> nd_released (rn_nodes rt ! m)"
        "nd_running (rn_nodes rt ! m) \<or> nd_resolving (rn_nodes rt ! m) \<or> guards_at (rn_guards rt) m > 0 \<or>
          nd_finishing (rn_nodes rt ! m)"
        using less(1) [of c] c by (meson diff_less_mono2 less(2))
      moreover have "(c, n) \<in> child_of (rn_nodes rt)" using c by (simp add: child_of_def)
      ultimately show ?thesis by (meson rtrancl.rtrancl_into_rtrancl)
    qed
  qed
qed

section \<open>Outcomes\<close>

text \<open>How a node may change: its identity stays, a settled outcome keeps its value and primary error, its cleanup
  error is joined at most once, with the error of releasing the source, and a released node keeps its whole
  outcome.\<close>

definition evolves :: "'v node \<Rightarrow> 'v node \<Rightarrow> bool" where
  "evolves x y \<longleftrightarrow> nd_parent y = nd_parent x \<and> nd_root y = nd_root x \<and> nd_request y = nd_request x \<and>
     nd_sequence y = nd_sequence x \<and> nd_depth y = nd_depth x \<and>
     (nd_finishing x \<longrightarrow> nd_finishing y) \<and>
     (nd_resolved x \<longrightarrow> nd_resolved y \<and> out_value (nd_outcome y) = out_value (nd_outcome x) \<and>
        out_primary (nd_outcome y) = out_primary (nd_outcome x) \<and> (nd_failed x \<longrightarrow> nd_failed y) \<and>
        (out_cleanup (nd_outcome y) = out_cleanup (nd_outcome x) \<or> nd_released y \<and>
          (\<exists>err. out_cleanup (nd_outcome y) = errors_join [out_cleanup (nd_outcome x), Some err]))) \<and>
     (nd_released x \<longrightarrow> nd_released y \<and> nd_outcome y = nd_outcome x \<and> nd_failed y = nd_failed x)"

lemma evolves_refl [simp]: "evolves x x"
  by (simp add: evolves_def)

lemma evolves_trans: "evolves x y \<Longrightarrow> evolves y z \<Longrightarrow> evolves x z"
  by (auto simp: evolves_def)

definition all_evolve :: "'v runtime \<Rightarrow> 'v runtime \<Rightarrow> bool" where
  "all_evolve rt rt' \<longleftrightarrow> length (rn_nodes rt) \<le> length (rn_nodes rt') \<and>
     (\<forall>n < length (rn_nodes rt). evolves (rn_nodes rt ! n) (rn_nodes rt' ! n))"

lemma all_evolve_trans: "all_evolve rt rt' \<Longrightarrow> all_evolve rt' rt'' \<Longrightarrow> all_evolve rt rt''"
  unfolding all_evolve_def using evolves_trans by (meson order_trans order_less_le_trans)

lemma all_evolve_same [simp]: "rn_nodes rt' = rn_nodes rt \<Longrightarrow> all_evolve rt rt'"
  by (simp add: all_evolve_def)

lemma all_evolve_update:
  "rn_nodes rt' = (rn_nodes rt)[n := x] \<Longrightarrow> evolves (rn_nodes rt ! n) x \<Longrightarrow> all_evolve rt rt'"
  by (cases "n < length (rn_nodes rt)") (auto simp: all_evolve_def nth_list_update)

lemma canFinishLocked_evolve:
  assumes "nd_released (rn_nodes rt ! n) \<longrightarrow> nd_finishing (rn_nodes rt ! n)"
  shows "all_evolve rt (snd (canFinishLocked n rt))"
proof -
  let ?nd = "rn_nodes rt ! n"
  consider "canFinishLocked n rt = (False, rt)"
    | "\<not> nd_finishing ?nd" "nd_resolved ?nd" "rn_nodes (snd (canFinishLocked n rt)) = (rn_nodes rt)[n := ?nd\<lparr>nd_finishing := True\<rparr>]"
    | out where "\<not> nd_finishing ?nd" "\<not> nd_resolved ?nd" "rn_nodes (snd (canFinishLocked n rt)) = (rn_nodes rt)
        [n := ?nd\<lparr>nd_finishing := True, nd_outcome := out, nd_resolved := True, nd_failed := True\<rparr>]"
    by (cases "nd_refs ?nd \<noteq> 0 \<or> nd_children ?nd \<noteq> 0 \<or> nd_finishing ?nd"; cases "nd_resolved ?nd")
      (auto simp: canFinishLocked_def Let_def)
  then show ?thesis
  proof cases
    case 2
    then show ?thesis by (intro all_evolve_update) (auto simp: evolves_def)
  next
    case 3
    then show ?thesis using assms by (intro all_evolve_update) (auto simp: evolves_def)
  qed simp
qed

lemma ended_node_evolves: "\<not> nd_released x \<Longrightarrow> evolves x (ended_node released x)"
  by (cases released) (auto simp: evolves_def ended_node_def Let_def split: release_source.split)

lemma finish_one_evolve:
  assumes "runtime_inv (rt, entering)" and "n < length (rn_nodes rt)" and "\<not> nd_released (rn_nodes rt ! n)"
  shows "all_evolve rt (snd (finish_one released n rt))"
proof -
  let ?nd = "rn_nodes rt ! n"
  define ended where "ended = publish_event (nd_observer ?nd) \<lparr>event_operation = req_operation (nd_request ?nd),
      event_phase = Released, event_failed = nd_failed (ended_node released ?nd)\<rparr> (update_node n (ended_node released) rt)"
  have one: "all_evolve rt ended"
    by (rule all_evolve_update [of _ _ n], simp add: ended_def, rule ended_node_evolves [OF assms(3)])
  show ?thesis
  proof (cases "nd_parent ?nd")
    case None
    then have "rn_nodes (snd (finish_one released n rt)) = rn_nodes ended"
      by (simp add: finish_one_def Let_def ended_def)
    then show ?thesis using all_evolve_trans [OF one] by simp
  next
    case (Some p)
    define mid where "mid = update_node (nd_root ?nd) (\<lambda>nd. nd\<lparr>nd_family := nd_family nd - 1\<rparr>)
      (update_node p (\<lambda>nd. nd\<lparr>nd_children := nd_children nd - 1\<rparr>) ended)"
    have young: "all_evolve ended (update_node p (\<lambda>nd. nd\<lparr>nd_children := nd_children nd - 1\<rparr>) ended)"
      by (rule all_evolve_update [of _ _ p], simp, simp add: evolves_def)
    have family: "all_evolve (update_node p (\<lambda>nd. nd\<lparr>nd_children := nd_children nd - 1\<rparr>) ended) mid"
      by (rule all_evolve_update [of _ _ "nd_root ?nd"], simp add: mid_def, simp add: evolves_def)
    have parent: "all_evolve mid (snd (canFinishLocked p mid))"
    proof (rule canFinishLocked_evolve)
      have p: "p < n" using node_inv(2) [OF assms(1, 2)] Some by (simp add: linked_def)
      have "nd_released (rn_nodes rt ! p) \<longrightarrow> nd_finishing (rn_nodes rt ! p)"
        using released_finishing [OF assms(1), of p] p assms(2) by simp
      then show "nd_released (rn_nodes mid ! p) \<longrightarrow> nd_finishing (rn_nodes mid ! p)"
        using p assms(2) by (cases "p = nd_root ?nd") (auto simp: mid_def ended_def nth_list_update)
    qed
    have "snd (finish_one released n rt) = snd (canFinishLocked p mid)"
      by (simp add: finish_one_def Let_def Some mid_def ended_def split: prod.splits)
    then show ?thesis
      using all_evolve_trans [OF all_evolve_trans [OF all_evolve_trans [OF one young] family] parent] by simp
  qed
qed

lemma newNodeLocked_evolve:
  assumes "newNodeLocked lifetime request parent observer rt = (result, rt')"
  shows "all_evolve rt rt'"
  using assms
proof (cases rule: newNode_cases)
  case added
  let ?x = "new_node lifetime request parent observer (length (rn_nodes rt)) rt"
  let ?rt = "rt\<lparr>rn_sequence := rn_sequence rt + 1, rn_nodes := rn_nodes rt @ [?x]\<rparr>"
  have append: "all_evolve rt ?rt" by (simp add: all_evolve_def nth_append)
  show ?thesis
  proof (cases parent)
    case None
    then show ?thesis using added(4) append by (simp add: all_evolve_def)
  next
    case (Some p)
    have "all_evolve ?rt (update_node p (\<lambda>nd. nd\<lparr>nd_children := nd_children nd + 1\<rparr>) ?rt)"
      by (rule all_evolve_update [of _ _ p], simp, simp add: evolves_def)
    moreover have "all_evolve (update_node p (\<lambda>nd. nd\<lparr>nd_children := nd_children nd + 1\<rparr>) ?rt) rt'"
      by (rule all_evolve_update [of _ _ "nd_root (rn_nodes rt ! p)"], use added(4) Some in simp, simp add: evolves_def Some)
    ultimately have "all_evolve ?rt rt'" by (rule all_evolve_trans)
    then show ?thesis by (rule all_evolve_trans [OF append])
  qed
qed simp

lemma returned_evolve:
  assumes "nd_released (rn_nodes rt ! n) \<longrightarrow> nd_finishing (rn_nodes rt ! n)" and "n < length (rn_nodes rt)"
  shows "all_evolve rt (snd (node_returned guard n rt))"
proof -
  let ?rt = "update_node n (\<lambda>nd. nd\<lparr>nd_refs := nd_refs nd - 1,
       nd_guards := (if guard then nd_guards nd - 1 else nd_guards nd),
       nd_running := (if guard then nd_running nd else False)\<rparr>) rt"
  have "all_evolve rt ?rt" by (rule all_evolve_update [of _ _ n]) (simp, simp add: evolves_def)
  then show ?thesis
    using all_evolve_trans [OF _ canFinishLocked_evolve [of ?rt n]] assms by (simp add: node_returned_def)
qed

lemma publish_evolve:
  assumes "runtime_inv (rt, entering)" and "n < length (rn_nodes rt)" and "nd_resolving (rn_nodes rt ! n)"
  shows "all_evolve rt (snd (Resolve_publish copy outcome n rt))"
proof -
  let ?nd = "rn_nodes rt ! n" and ?failed = "out_primary outcome \<noteq> None \<or> out_cleanup outcome \<noteq> None"
  let ?rt = "publish_event (nd_observer ?nd)
    \<lparr>event_operation = req_operation (nd_request ?nd), event_phase = Resolved, event_failed = ?failed\<rparr>
    (update_node n (\<lambda>nd. nd\<lparr>nd_outcome := outcome\<lparr>out_value := map_option copy (out_value outcome)\<rparr>,
      nd_resolving := False, nd_resolved := True, nd_failed := ?failed, nd_refs := nd_refs nd - 1\<rparr>) rt)"
  have fresh: "\<not> nd_resolved ?nd" "\<not> nd_finishing ?nd" "\<not> nd_released ?nd"
    using node_inv(1) [OF assms(1, 2)] finishing_free(3) [OF assms(1, 2)] released_finishing [OF assms(1, 2)] assms(3)
    by (auto simp: node_ok_def)
  have "all_evolve rt ?rt" by (rule all_evolve_update [of _ _ n], simp, use fresh in \<open>simp add: evolves_def\<close>)
  moreover have "all_evolve ?rt (snd (canFinishLocked n ?rt))"
    by (rule canFinishLocked_evolve) (use fresh assms(2) in simp)
  ultimately show ?thesis unfolding Resolve_publish_def Let_def by (rule all_evolve_trans)
qed

lemma step_evolves:
  assumes "runtime_step re re'" and "runtime_inv re"
  shows "all_evolve (fst re) (fst re')"
  using assms
proof (induction rule: runtime_step.induct)
  case (ru_shutdown rt entering cause)
  let ?f = "\<lambda>x :: 'a node. x\<lparr>nd_ctx := cancel_ctx cause (nd_ctx x)\<rparr>"
  have roots: "distinct (rn_roots rt)" "\<And>r. r \<in> set (rn_roots rt) \<Longrightarrow> r < length (rn_nodes rt)"
    using ru_shutdown by (simp_all add: runtime_inv_def runtime_core_def roots_ok_def)
  show ?case
    unfolding all_evolve_def shutdown_runtime_def
    using fold_update_nth [OF roots, where f = ?f] by (auto simp: evolves_def)
next
  case (ru_hold n rt held rt' entering)
  then show ?case
    by (cases "rt' = rt") (auto simp: Call_Hold_def Let_def evolves_def split: if_splits intro!: all_evolve_update)
next
  case (ru_release k rt err rt' entering)
  then show ?case by (auto simp: Guard_Release_def split: guard_state.splits)
next
  case (ru_resolve n rt err rt' entering)
  then show ?case by (auto simp: Resolve_enter_def Let_def evolves_def split: if_splits intro!: all_evolve_update)
next
  case (ru_cancel rt entering n cause)
  show ?case by (rule all_evolve_update [of _ _ n]) (simp, simp add: evolves_def)
next
  case (ru_source rt n entering source lease)
  show ?case by (rule all_evolve_update [of _ _ n]) (simp, simp add: evolves_def)
next
  case (ru_leave rt k n entering)
  have "n < length (rn_nodes rt)" using ru_leave by (auto simp: runtime_inv_def runtime_core_def roots_ok_def)
  then have "nd_released (rn_nodes rt ! n) \<longrightarrow> nd_finishing (rn_nodes rt ! n)" "n < length (rn_nodes rt)"
    using released_finishing ru_leave by blast+
  then show ?case
    using returned_evolve [of "rt\<lparr>rn_guards := (rn_guards rt)[k := GuardReleased]\<rparr>" n True]
    by (simp add: guard_leave_def all_evolve_def)
next
  case (ru_returned n rt entering)
  then show ?case using returned_evolve [of rt n] released_finishing [of rt entering n] by simp
next
  case (ru_publish n rt entering copy outcome)
  then show ?case using publish_evolve by simp
qed (auto simp: newNodeLocked_evolve finish_one_evolve)

lemma run_evolves:
  assumes "runtime_step\<^sup>*\<^sup>* re re'" and "runtime_inv re"
  shows "all_evolve (fst re) (fst re')"
  using assms
proof (rule runtimes.steps_related)
  show "all_evolve (fst re) (fst v)" if "runtime_inv u" "runtime_step u v" "all_evolve (fst re) (fst u)" for u v
    using step_evolves [OF that(2, 1)] all_evolve_trans that(3) by blast
qed simp

text \<open>C30: an outcome is settled once. From a reachable state in which an operation is resolved, no sequence of
  steps changes its value or its primary error, and once it is released not its cleanup error either; a
  further \<^verbatim>\<open>Resolve\<close> is refused with \<^verbatim>\<open>ErrSettled\<close> and changes nothing.\<close>

theorem outcome_settled_once:
  fixes rt rt' :: "'v runtime"
  assumes "reach runtime_initial runtime_step (rt, entering)" and "runtime_step\<^sup>*\<^sup>* (rt, entering) (rt', entering')"
    and "n < length (rn_nodes rt)" and "nd_resolved (rn_nodes rt ! n)"
  shows "nd_resolved (rn_nodes rt' ! n) \<and>
    out_value (nd_outcome (rn_nodes rt' ! n)) = out_value (nd_outcome (rn_nodes rt ! n)) \<and>
    out_primary (nd_outcome (rn_nodes rt' ! n)) = out_primary (nd_outcome (rn_nodes rt ! n)) \<and>
    (nd_released (rn_nodes rt ! n) \<longrightarrow>
       nd_released (rn_nodes rt' ! n) \<and> nd_outcome (rn_nodes rt' ! n) = nd_outcome (rn_nodes rt ! n)) \<and>
    Resolve_enter (Some n) rt' =
      (Some (failureOf operation_ErrSettled ''resolve'' (rn_name rt') (node_details (rn_nodes rt') n) []), rt')"
proof -
  have "all_evolve rt rt'"
    using run_evolves [OF assms(2) runtimes.reach_inv [OF assms(1)]] by simp
  then have "evolves (rn_nodes rt ! n) (rn_nodes rt' ! n)" using assms(3) by (simp add: all_evolve_def)
  then show ?thesis using assms(4) by (simp add: evolves_def Resolve_enter_def)
qed

section \<open>Bounds and statistics\<close>

lemma sum_list_of_bool: "(\<Sum>x\<leftarrow>xs. of_bool (P x)) = int (card {i. i < length xs \<and> P (xs ! i)})"
proof -
  have "(\<Sum>x\<leftarrow>xs. of_bool (P x)) = int (length (filter P xs))" by (induction xs) auto
  then show ?thesis by (simp add: length_filter_conv_card)
qed

text \<open>The size of an operation tree is bounded by the options. In every reachable state the unreleased
  operations of one root number at most \<^verbatim>\<open>MaxTasks\<close>, no operation is deeper than \<^verbatim>\<open>MaxDepth\<close>, and the guards
  held on one operation number at most \<^verbatim>\<open>MaxHolds\<close>.\<close>

theorem operation_tree_bounded:
  fixes rt :: "'v runtime"
  assumes "reach runtime_initial runtime_step (rt, entering)" and "n < length (rn_nodes rt)"
  shows "int (card {m. m < length (rn_nodes rt) \<and> nd_root (rn_nodes rt ! m) = nd_root (rn_nodes rt ! n) \<and>
      \<not> nd_released (rn_nodes rt ! m)}) \<le> oopt_max_tasks (rt_options (rn_gate rt)) \<and>
    nd_depth (rn_nodes rt ! n) \<le> oopt_max_depth (rt_options (rn_gate rt)) \<and>
    int (card {k. k < length (rn_guards rt) \<and> (rn_guards rt ! k = GuardOpen n \<or> rn_guards rt ! k = GuardLeaving n)})
      \<le> oopt_max_holds (rt_options (rn_gate rt))"
proof -
  have inv: "runtime_inv (rt, entering)" by (rule runtimes.reach_inv [OF assms(1)])
  let ?r = "nd_root (rn_nodes rt ! n)"
  let ?K = "{m. m < length (rn_nodes rt) \<and> nd_parent (rn_nodes rt ! m) \<noteq> None \<and> nd_root (rn_nodes rt ! m) = ?r \<and>
    \<not> nd_released (rn_nodes rt ! m)}"
  have r: "?r < length (rn_nodes rt)" "nd_parent (rn_nodes rt ! ?r) = None"
    using node_inv(2) [OF inv assms(2)] assms(2) by (auto simp: linked_def)
  have "nd_parent (rn_nodes rt ! m) \<noteq> None" if "m < length (rn_nodes rt)" "m \<noteq> nd_root (rn_nodes rt ! m)" for m
    using node_inv(2) [OF inv that(1)] that(2) by (auto simp: linked_def split: option.splits)
  then have "{m. m < length (rn_nodes rt) \<and> nd_root (rn_nodes rt ! m) = ?r \<and> \<not> nd_released (rn_nodes rt ! m)} \<subseteq> insert ?r ?K"
    by auto
  then have "card {m. m < length (rn_nodes rt) \<and> nd_root (rn_nodes rt ! m) = ?r \<and> \<not> nd_released (rn_nodes rt ! m)} \<le>
      card (insert ?r ?K)" by (intro card_mono) simp_all
  also have "\<dots> \<le> Suc (card ?K)" by (rule card_insert_le_m1) simp_all
  finally have "int (card {m. m < length (rn_nodes rt) \<and> nd_root (rn_nodes rt ! m) = ?r \<and>
      \<not> nd_released (rn_nodes rt ! m)}) \<le> 1 + kin (rn_nodes rt) ?r"
    unfolding kin_def sum_list_of_bool by simp
  moreover have "1 + kin (rn_nodes rt) ?r \<le> oopt_max_tasks (rt_options (rn_gate rt))"
    using node_inv(1) [OF inv r(1)] r(2) by (simp add: node_ok_def)
  moreover have "guards_at (rn_guards rt) n = int (card {k. k < length (rn_guards rt) \<and>
      (rn_guards rt ! k = GuardOpen n \<or> rn_guards rt ! k = GuardLeaving n)})"
    unfolding guards_at_def by (rule sum_list_of_bool)
  ultimately show ?thesis using node_inv(1) [OF inv assms(2)] by (simp add: node_ok_def)
qed

text \<open>The statistics are the truth. What \<^verbatim>\<open>Inspect\<close> reports of a reachable runtime: \<^verbatim>\<open>Accepted\<close> is the
  number of operations ever accepted, which are numbered from one in the order of their acceptance;
  \<^verbatim>\<open>Active\<close> and \<^verbatim>\<open>WorkBytes\<close> count exactly the callers between admission and their operation, the granted
  waiters and the root operations that are not released.\<close>

theorem statistics_exact:
  fixes rt :: "'v runtime"
  assumes "reach runtime_initial runtime_step (rt, entering)" and "Runtime_Inspect (Some rt) = Inr stats"
  shows "stat_accepted stats = length (rn_nodes rt) \<and>
    (\<forall>n. n < length (rn_nodes rt) \<longrightarrow> nd_sequence (rn_nodes rt ! n) = Suc n) \<and>
    stat_active stats = int (size entering) +
      int (card {n. n < length (rn_nodes rt) \<and> root_live (rn_nodes rt ! n)}) +
      int (card {p. p < length (rt_waiters (rn_gate rt)) \<and> owed (rt_waiters (rn_gate rt) ! p)}) \<and>
    stat_work_bytes stats = sum_mset entering +
      (\<Sum>x\<leftarrow>filter root_live (rn_nodes rt). req_work_bytes (nd_request x)) + owed_bytes (rt_waiters (rn_gate rt))"
proof -
  have inv: "runtime_inv (rt, entering)" by (rule runtimes.reach_inv [OF assms(1)])
  have "size (roots_held (rn_nodes rt)) = card {n. n < length (rn_nodes rt) \<and> root_live (rn_nodes rt ! n)}"
    by (simp add: roots_held_def length_filter_conv_card flip: mset_filter)
  moreover have "sum_mset (roots_held (rn_nodes rt)) = (\<Sum>x\<leftarrow>filter root_live (rn_nodes rt). req_work_bytes (nd_request x))"
    unfolding roots_held_def by (rule sum_mset_sum_list)
  moreover have "rn_sequence rt = length (rn_nodes rt)"
    "\<forall>n. n < length (rn_nodes rt) \<longrightarrow> nd_sequence (rn_nodes rt ! n) = Suc n"
    using inv node_inv(2) [OF inv] by (simp_all add: runtime_inv_def runtime_core_def roots_ok_def linked_def)
  ultimately show ?thesis
    using gate_invD(3) [OF runtime_gate [OF inv]] assms(2)
    by (auto simp: Runtime_Inspect_def Let_def inv_permits_def owed_card(1))
qed

section \<open>The loop of \<^verbatim>\<open>finish\<close>\<close>

text \<open>\<^verbatim>\<open>finish\<close> when no other goroutine interferes; \<open>release n\<close> is what node \<open>n\<close>'s \<^verbatim>\<open>releaseSource\<close> returns.\<close>

partial_function (option) finish :: "(nat \<Rightarrow> gerr option) \<Rightarrow> nat option \<Rightarrow> 'v runtime \<Rightarrow> 'v runtime option" where
  "finish release node rt =
     (case node of
        None \<Rightarrow> Some rt
      | Some n \<Rightarrow> (case finish_one (release n) n rt of (again, rt') \<Rightarrow> finish release again rt'))"

lemma nth_list_update': "i < length xs \<Longrightarrow> xs[i := x] ! j = (if j = i then x else xs ! j)"
  by (auto simp: nth_list_update)

lemma canFinishLocked_True:
  assumes "fst (canFinishLocked n rt)" and "n < length (rn_nodes rt)"
  shows "\<not> nd_finishing (rn_nodes rt ! n)" and "nd_finishing (rn_nodes (snd (canFinishLocked n rt)) ! n)"
    and "nd_released (rn_nodes (snd (canFinishLocked n rt)) ! n) = nd_released (rn_nodes rt ! n)"
  using assms by (auto simp: canFinishLocked_def Let_def split: if_splits)

lemma finish_one_again:
  assumes "runtime_inv (rt, entering)" and "n < length (rn_nodes rt)" and "nd_finishing (rn_nodes rt ! n)"
    and "\<not> nd_released (rn_nodes rt ! n)" and "finish_one released n rt = (again, rt')"
  shows "nd_released (rn_nodes rt' ! n) \<and> length (rn_nodes rt') = length (rn_nodes rt) \<and>
    (\<forall>m. m \<noteq> n \<longrightarrow> nd_released (rn_nodes rt' ! m) = nd_released (rn_nodes rt ! m)) \<and>
    (\<forall>p. again = Some p \<longrightarrow> nd_parent (rn_nodes rt ! n) = Some p) \<and> (\<forall>p. again = Some p \<longrightarrow> p < n \<and> nd_finishing (rn_nodes rt' ! p) \<and> \<not> nd_released (rn_nodes rt' ! p))"
proof -
  let ?nd = "rn_nodes rt ! n"
  define ended where "ended = publish_event (nd_observer ?nd) \<lparr>event_operation = req_operation (nd_request ?nd),
      event_phase = Released, event_failed = nd_failed (ended_node released ?nd)\<rparr> (update_node n (ended_node released) rt)"
  have nodes: "rn_nodes ended = (rn_nodes rt)[n := ended_node released ?nd]" by (simp add: ended_def)
  show ?thesis
  proof (cases "nd_parent ?nd")
    case None
    then have "again = None" "rn_nodes rt' = rn_nodes ended"
      using assms(5) by (auto simp: finish_one_def Let_def ended_def)
    then show ?thesis using assms(2) by (simp add: nodes)
  next
    case (Some p)
    define mid where "mid = update_node (nd_root ?nd) (\<lambda>nd. nd\<lparr>nd_family := nd_family nd - 1\<rparr>)
      (update_node p (\<lambda>nd. nd\<lparr>nd_children := nd_children nd - 1\<rparr>) ended)"
    have step: "again = (if fst (canFinishLocked p mid) then Some p else None)" "rt' = snd (canFinishLocked p mid)"
      using assms(5) Some by (auto simp: finish_one_def Let_def mid_def ended_def split: prod.splits)
    note open_parent = parent_open [OF assms(1, 2, 4) Some]
    then have p: "p < n" "nd_root ?nd \<noteq> n" "nd_root ?nd < length (rn_nodes rt)" using assms(2) by auto
    from open_parent(4) have "\<not> nd_released (rn_nodes rt ! p)" using released_finishing [OF assms(1), of p] p(1) assms(2) by auto
    then have "\<not> nd_released (rn_nodes mid ! p)"
      using p assms(2) by (cases "nd_root ?nd = p") (simp_all add: mid_def nodes nth_list_update)
    moreover have "nd_released (rn_nodes mid ! n)" "length (rn_nodes mid) = length (rn_nodes rt)"
      using p assms(2) by (simp_all add: mid_def nodes nth_list_update)
    moreover have "nd_released (rn_nodes mid ! m) = nd_released (rn_nodes rt ! m)" if "m \<noteq> n" for m
      using that p assms(2) by (simp add: mid_def nodes nth_list_update')
    moreover have "nd_released (rn_nodes (snd (canFinishLocked p mid)) ! m) = nd_released (rn_nodes mid ! m)" for m
      using p(1) assms(2) by (cases "m = p") (simp_all add: canFinishLocked_def Let_def mid_def nodes nth_list_update')
    moreover have "length (rn_nodes (snd (canFinishLocked p mid))) = length (rn_nodes mid)"
      by (simp add: canFinishLocked_def Let_def)
    ultimately show ?thesis using canFinishLocked_True [of p mid] p(1) assms(2) Some by (auto simp: step)
  qed
qed

lemma finish_runs:
  fixes rt :: "'v runtime"
  assumes "runtime_inv (rt, entering)" and "n < length (rn_nodes rt)"
    and "nd_finishing (rn_nodes rt ! n)" and "\<not> nd_released (rn_nodes rt ! n)"
  shows "\<exists>rt'. finish release (Some n) rt = Some rt' \<and> runtime_step\<^sup>*\<^sup>* (rt, entering) (rt', entering) \<and>
    nd_released (rn_nodes rt' ! n) \<and> length (rn_nodes rt') = length (rn_nodes rt) \<and>
    (\<forall>m. nd_released (rn_nodes rt' ! m) \<longrightarrow> nd_released (rn_nodes rt ! m) \<or> (n, m) \<in> (child_of (rn_nodes rt))\<^sup>*)"
  using assms
proof (induction n arbitrary: rt rule: less_induct)
  case (less n)
  obtain again mid where one: "finish_one (release n) n rt = (again, mid)" by fastforce
  note after = finish_one_again [OF less(2-5) one]
  have step: "runtime_step (rt, entering) (mid, entering)" using ru_finish [OF less(3-5), of entering "release n"] one by simp
  have inv: "runtime_inv (mid, entering)" by (rule step_runtime_inv [OF step less(2)])
  show ?case
  proof (cases again)
    case None
    then show ?thesis
      using step after by (auto simp: finish.simps [of _ "Some n"] finish.simps [of _ None] one)
  next
    case (Some p)
    then obtain rt' where rest: "finish release (Some p) mid = Some rt'" "runtime_step\<^sup>*\<^sup>* (mid, entering) (rt', entering)"
      "nd_released (rn_nodes rt' ! p)" "length (rn_nodes rt') = length (rn_nodes mid)"
      "\<And>m. nd_released (rn_nodes rt' ! m) \<Longrightarrow> nd_released (rn_nodes mid ! m) \<or> (p, m) \<in> (child_of (rn_nodes mid))\<^sup>*"
      using less(1) [OF _ inv, of p] after less(3) by (auto simp: Some)
    have evolve: "all_evolve rt mid" using step_evolves [OF step less(2)] by simp
    then have same: "child_of (rn_nodes mid) = child_of (rn_nodes rt)"
      using after by (auto simp: child_of_def all_evolve_def evolves_def)
    have up: "(n, p) \<in> child_of (rn_nodes rt)" using after Some less(3) by (simp add: child_of_def)
    have "nd_released (rn_nodes rt' ! n)"
      using run_evolves [OF rest(2) inv] after less(3) by (simp add: all_evolve_def evolves_def)
    moreover have "nd_released (rn_nodes rt ! m) \<or> (n, m) \<in> (child_of (rn_nodes rt))\<^sup>*" if "nd_released (rn_nodes rt' ! m)" for m
      using rest(5) [OF that] after converse_rtrancl_into_rtrancl [OF up, of m] same by (cases "m = n") auto
    ultimately show ?thesis
      using rest(1, 2, 4) after Some converse_rtranclp_into_rtranclp [of runtime_step, OF step]
      by (simp add: finish.simps [of _ "Some n"] one)
  qed
qed

text \<open>C31: \<^verbatim>\<open>finish\<close> terminates. Started, without interference, on an operation of a reachable runtime whose
  release is under way, the loop returns: it has released that operation and otherwise only operations
  above it, by steps of the runtime.\<close>

theorem finish_terminates:
  fixes rt :: "'v runtime"
  assumes "reach runtime_initial runtime_step (rt, entering)" and "n < length (rn_nodes rt)"
    and "nd_finishing (rn_nodes rt ! n)" and "\<not> nd_released (rn_nodes rt ! n)"
  shows "\<exists>rt'. finish release (Some n) rt = Some rt' \<and> runtime_step\<^sup>*\<^sup>* (rt, entering) (rt', entering) \<and>
    nd_released (rn_nodes rt' ! n) \<and>
    (\<forall>m. nd_released (rn_nodes rt' ! m) \<longrightarrow> nd_released (rn_nodes rt ! m) \<or> (n, m) \<in> (child_of (rn_nodes rt))\<^sup>*)"
  using finish_runs [OF runtimes.reach_inv [OF assms(1)] assms(2-4), of release] by blast

section \<open>One operation from admission to release\<close>

definition ex_runtime :: "nat runtime" where
  "ex_runtime = \<lparr>rn_gate = ex_gate, rn_sequence = 0, rn_roots = [], rn_nodes = [], rn_guards = [], rn_observers = []\<rparr>"

definition ex_admitted :: "nat runtime" where
  "ex_admitted = ex_runtime\<lparr>rn_gate := ex_gate\<lparr>rt_active := 1, rt_work_bytes := 4\<rparr>\<rparr>"

definition ex_begun :: "nat runtime" where
  "ex_begun = ex_admitted\<lparr>rn_sequence := 1, rn_nodes := [new_node live_ctx ex_request None None 0 ex_admitted],
     rn_roots := [0]\<rparr>"

definition ex_finishing :: "nat runtime" where
  "ex_finishing = snd (node_returned False 0 ex_begun)"

definition ex_released :: "nat runtime" where
  "ex_released = snd (finish_one None 0 ex_finishing)"

lemma ex_runtime_reached: "reach runtime_initial runtime_step (ex_runtime, {#})"
proof (rule reach_initial)
  have "Runtime_New (Some live_ctx) ex_options [] = Inr ex_runtime"
    by (simp add: Runtime_New_def operation_New_def ex_options_normal ex_runtime_def ex_gate_def live_ctx_def)
  then show "runtime_initial (ex_runtime, {#})" by (auto simp: runtime_initial_def)
qed

lemma ex_begun_reached: "reach runtime_initial runtime_step (ex_begun, {#})"
proof -
  have "acquire_enter live_ctx 4 (rn_gate ex_runtime) = (Inr None, ex_gate\<lparr>rt_active := 1, rt_work_bytes := 4\<rparr>)"
    by (simp add: acquire_enter_def ex_runtime_def ex_gate_defs fits_def)
  from reach_step [where step = runtime_step, OF ex_runtime_reached ru_enter [OF this]]
  have "reach runtime_initial runtime_step (ex_admitted, {#4#})"
    by (simp add: ex_admitted_def)
  moreover have "newNodeLocked live_ctx ex_request None None ex_admitted = (Inr 0, ex_begun)"
    by (simp add: newNodeLocked_def Let_def ex_admitted_def ex_runtime_def ex_begun_def ex_gate_defs MaxUint64_def)
  ultimately show ?thesis
    using reach_step [where step = runtime_step, OF _ ru_root [of live_ctx ex_request None ex_admitted 0 ex_begun "{#4#}"]]
      ex_request_valid by (simp add: ex_request_def)
qed

lemma ex_begun_nodes: "rn_nodes ex_begun = [new_node live_ctx ex_request None None 0 ex_admitted]"
  by (simp add: ex_begun_def)

lemma ex_finishing_reached: "reach runtime_initial runtime_step (ex_finishing, {#})"
  unfolding ex_finishing_def
  by (rule reach_step [where step = runtime_step, OF ex_begun_reached ru_returned])
    (simp_all add: ex_begun_nodes new_node_def)

lemma ex_finishing_node:
  "length (rn_nodes ex_finishing) = 1" "nd_finishing (rn_nodes ex_finishing ! 0)"
  "nd_resolved (rn_nodes ex_finishing ! 0)" "\<not> nd_released (rn_nodes ex_finishing ! 0)"
  "nd_parent (rn_nodes ex_finishing ! 0) = None"
  by (simp_all add: ex_finishing_def node_returned_def canFinishLocked_def Let_def ex_begun_nodes new_node_def)

lemma ex_released_reached: "reach runtime_initial runtime_step (ex_released, {#})"
  unfolding ex_released_def
  by (rule reach_step [where step = runtime_step, OF ex_finishing_reached ru_finish])
    (simp_all add: ex_finishing_node)

lemma ex_released_node: "length (rn_nodes ex_released) = 1" "nd_released (rn_nodes ex_released ! 0)"
  by (simp_all add: ex_released_def finish_one_def Let_def ex_finishing_node)

theorem released_work_ended_witness:
  "nd_released (rn_nodes ex_released ! 0) \<and> \<not> nd_running (rn_nodes ex_released ! 0)"
  using released_work_ended [OF ex_released_reached, of 0 0] by (simp add: ex_released_node)

theorem close_confirms_join_witness:
  "\<exists>rt'. Runtime_Close (Some live_ctx) (Some ex_runtime) = (Some None, Some rt') \<and>
    (\<exists>err. acquire_enter live_ctx 4 (rn_gate rt') = (Inl err, rn_gate rt'))"
proof -
  let ?rt = "shutdown_runtime (Some (CodeError operation_ErrClosed)) ex_runtime"
  have close: "Runtime_Close (Some live_ctx) (Some ex_runtime) = (Some None, Some ?rt)"
    by (simp add: Runtime_Close_def Let_def shutdown_runtime_def shutdown_gate_def closeDoneLocked_def
        ex_runtime_def ex_gate_def)
  then show ?thesis using close_confirms_join [OF ex_runtime_reached disjI1 [OF close]] by blast
qed

theorem work_has_owner_witness:
  "length (rn_nodes ex_begun) = 1 \<and> (\<exists>m. (m, 0) \<in> (child_of (rn_nodes ex_begun))\<^sup>* \<and>
    (nd_running (rn_nodes ex_begun ! m) \<or> nd_resolving (rn_nodes ex_begun ! m) \<or>
     guards_at (rn_guards ex_begun) m > 0 \<or> nd_finishing (rn_nodes ex_begun ! m)))"
proof -
  have "0 < length (rn_nodes ex_begun)" "\<not> nd_released (rn_nodes ex_begun ! 0)"
    by (simp_all add: ex_begun_nodes new_node_def)
  from work_has_owner [OF ex_begun_reached this] show ?thesis by (auto simp: ex_begun_nodes)
qed

theorem outcome_settled_once_witness:
  "nd_resolved (rn_nodes ex_finishing ! 0) \<and> fst (Resolve_enter (Some 0) ex_finishing) \<noteq> None"
  using outcome_settled_once [OF ex_finishing_reached rtranclp.rtrancl_refl, of 0] by (simp add: ex_finishing_node)

theorem operation_tree_bounded_witness: "nd_depth (rn_nodes ex_begun ! 0) \<le> 2"
  using operation_tree_bounded [OF ex_begun_reached, of 0]
  by (simp add: ex_begun_nodes) (simp add: ex_begun_def ex_admitted_def ex_runtime_def ex_gate_defs)

theorem statistics_exact_witness:
  "\<exists>stats. Runtime_Inspect (Some ex_begun) = Inr stats \<and> stat_accepted stats = 1"
proof -
  obtain stats where stats: "Runtime_Inspect (Some ex_begun) = Inr stats" by (simp add: Runtime_Inspect_def Let_def)
  then show ?thesis using statistics_exact [OF ex_begun_reached stats] by (simp add: ex_begun_nodes)
qed

theorem finish_terminates_witness:
  "\<exists>rt'. finish (\<lambda>_. None) (Some 0) ex_finishing = Some rt' \<and> nd_released (rn_nodes rt' ! 0)"
  using finish_terminates [OF ex_finishing_reached, of 0 "\<lambda>_. None"] by (auto simp: ex_finishing_node)

end
