(* ===== verification/Operation_Evidence.thy ===== *)
theory Operation_Evidence
  imports Operation_Options
begin

text \<open>
  \<^verbatim>\<open>adapters/v1/evidence.go\<close>: the inbox that owns reserved, queued and claimed evidence until it is
  acknowledged. Entries and claims are the objects the code allocates, kept in lists and named by their
  index; a result is the identity of its operation's receipt, a parameter of the record,
  and whether that operation's work has ended is an argument of the operations that look at it.
\<close>

section \<open>Model\<close>

record 'r evidenceEntry =
  ee_bytes :: int
  ee_result :: "'r option"
  ee_claim :: "nat option"
  ee_reserved :: bool

record 'r deliveryState =
  dl_entry :: "nat option"
  dl_result :: "'r option"

record 'r inbox =
  ib_options :: EvidenceOptions
  ib_closed :: bool
  ib_outstanding :: int
  ib_bytes :: int
  ib_pending :: int
  ib_queue :: "nat list"
  ib_entries :: "nat list"
  ib_store :: "'r evidenceEntry list"
  ib_claims :: "'r deliveryState list"

record EvidenceStatus =
  es_outstanding :: int
  es_queued :: int
  es_claimed :: int
  es_reserved :: int
  es_bytes :: int
  es_closed :: bool

definition NewInbox :: "EvidenceOptions \<Rightarrow> gerr + 'r inbox" where
  "NewInbox opts =
     (let capacity = default_to 64 (ev_capacity opts);
          bytes = default_to (16 * 2 ^ 20) (ev_max_bytes opts)
      in if capacity < 1 \<or> capacity > 65536 \<or> bytes < 1 \<or> bytes > 2 ^ 40
         then Inl (failureOf operation_ErrOptions ''inbox'' [] no_operation [])
         else Inr \<lparr>ib_options = \<lparr>ev_capacity = capacity, ev_max_bytes = bytes\<rparr>, ib_closed = False,
           ib_outstanding = 0, ib_bytes = 0, ib_pending = 0, ib_queue = [], ib_entries = [],
           ib_store = [], ib_claims = []\<rparr>)"

definition reserve :: "int \<Rightarrow> 'r inbox option \<Rightarrow> (gerr + nat) \<times> 'r inbox option" where
  "reserve bytes handle =
     (case handle of
        None \<Rightarrow> (Inl (failureOf operation_ErrHandle ''reserve'' [] no_operation []), None)
      | Some ib \<Rightarrow>
          if ib_closed ib
          then (Inl (failureOf operation_ErrClosed ''reserve'' [] no_operation []), Some ib)
          else if bytes < 1 \<or> ib_outstanding ib \<ge> ev_capacity (ib_options ib) \<or>
            bytes > ev_max_bytes (ib_options ib) - ib_bytes ib
          then (Inl (failureOf operation_ErrEvidence ''reserve'' [] no_operation []), Some ib)
          else
            (let e = length (ib_store ib) in
             (Inr e, Some (ib\<lparr>ib_outstanding := ib_outstanding ib + 1, ib_pending := ib_pending ib + 1,
               ib_bytes := ib_bytes ib + bytes, ib_entries := e # ib_entries ib,
               ib_store := ib_store ib @
                 [\<lparr>ee_bytes = bytes, ee_result = None, ee_claim = None, ee_reserved = True\<rparr>]\<rparr>))))"

definition evidence_abort :: "nat \<Rightarrow> 'r inbox \<Rightarrow> 'r inbox" where
  "evidence_abort e ib =
     (if \<not> ee_reserved (ib_store ib ! e) then ib
      else ib\<lparr>ib_store := (ib_store ib)[e := (ib_store ib ! e)\<lparr>ee_reserved := False\<rparr>],
        ib_pending := ib_pending ib - 1, ib_outstanding := ib_outstanding ib - 1,
        ib_bytes := ib_bytes ib - ee_bytes (ib_store ib ! e), ib_entries := remove1 e (ib_entries ib)\<rparr>)"

definition evidence_commit :: "nat \<Rightarrow> 'r \<Rightarrow> 'r inbox \<Rightarrow> 'r inbox" where
  "evidence_commit e result ib =
     ib\<lparr>ib_store := (ib_store ib)
         [e := (ib_store ib ! e)\<lparr>ee_result := Some result, ee_reserved := False\<rparr>],
       ib_pending := ib_pending ib - 1, ib_queue := ib_queue ib @ [e]\<rparr>"

text \<open>One pass of \<^verbatim>\<open>next\<close>: \<open>None\<close> when it has to wait for a change. \<open>ended\<close> says which operations'
  work has ended.\<close>

definition inbox_next ::
  "('r \<Rightarrow> bool) \<Rightarrow> bool \<Rightarrow> go_ctx option \<Rightarrow> 'r inbox option \<Rightarrow> (gerr + nat) option \<times> 'r inbox option" where
  "inbox_next ended releasedOnly ctx handle =
     (case handle of
        None \<Rightarrow> (Some (Inl (failureOf operation_ErrHandle ''next'' [] no_operation [])), None)
      | Some ib \<Rightarrow>
          (case ctx of
             None \<Rightarrow> (Some (Inl (failureOf operation_ErrOptions ''next'' [] no_operation [])), Some ib)
           | Some c \<Rightarrow>
               if ctx_err c \<noteq> None
               then (Some (Inl (failureOf operation_ErrWait ''next'' [] no_operation
                 [ctx_err c, ctx_cause c])), Some ib)
               else
                 (case List.find (\<lambda>e. \<not> releasedOnly \<or>
                     (case ee_result (ib_store ib ! e) of None \<Rightarrow> False | Some r \<Rightarrow> ended r))
                     (ib_queue ib) of
                    Some e \<Rightarrow>
                      (let claim = length (ib_claims ib) in
                       (Some (Inr claim), Some (ib\<lparr>ib_queue := remove1 e (ib_queue ib),
                         ib_store := (ib_store ib)[e := (ib_store ib ! e)\<lparr>ee_claim := Some claim\<rparr>],
                         ib_claims := ib_claims ib @
                           [\<lparr>dl_entry = Some e, dl_result = ee_result (ib_store ib ! e)\<rparr>]\<rparr>)))
                  | None \<Rightarrow>
                      if ib_closed ib \<and> ib_pending ib = 0 \<and> ib_queue ib = []
                      then (Some (Inl (failureOf operation_ErrClosed ''next'' [] no_operation
                        [Some io_EOF])), Some ib)
                      else (None, Some ib))))"

definition Inbox_Next ::
  "('r \<Rightarrow> bool) \<Rightarrow> go_ctx option \<Rightarrow> 'r inbox option \<Rightarrow> (gerr + nat) option \<times> 'r inbox option" where
  "Inbox_Next ended ctx handle = inbox_next ended False ctx handle"

definition Inbox_NextReleased ::
  "('r \<Rightarrow> bool) \<Rightarrow> go_ctx option \<Rightarrow> 'r inbox option \<Rightarrow> (gerr + nat) option \<times> 'r inbox option" where
  "Inbox_NextReleased ended ctx handle = inbox_next ended True ctx handle"

definition Inbox_Seal :: "'r inbox option \<Rightarrow> gerr option \<times> 'r inbox option" where
  "Inbox_Seal handle =
     (case handle of
        None \<Rightarrow> (Some (failureOf operation_ErrHandle ''seal'' [] no_operation []), None)
      | Some ib \<Rightarrow> (None, Some (ib\<lparr>ib_closed := True\<rparr>)))"

definition Inbox_Inspect :: "'r inbox option \<Rightarrow> gerr + EvidenceStatus" where
  "Inbox_Inspect handle =
     (case handle of
        None \<Rightarrow> Inl (failureOf operation_ErrHandle ''inspect'' [] no_operation [])
      | Some ib \<Rightarrow>
          Inr \<lparr>es_outstanding = ib_outstanding ib, es_queued = int (length (ib_queue ib)),
            es_claimed = ib_outstanding ib - ib_pending ib - int (length (ib_queue ib)),
            es_reserved = ib_pending ib, es_bytes = ib_bytes ib, es_closed = ib_closed ib\<rparr>)"

definition Inbox_Options :: "'r inbox option \<Rightarrow> gerr + EvidenceOptions" where
  "Inbox_Options handle =
     (case handle of
        None \<Rightarrow> Inl (failureOf operation_ErrHandle ''options'' [] no_operation [])
      | Some ib \<Rightarrow> Inr (ib_options ib))"

definition Delivery_Receipt :: "nat option \<Rightarrow> 'r inbox \<Rightarrow> gerr + 'r option" where
  "Delivery_Receipt delivery ib =
     (case delivery of
        None \<Rightarrow> Inl (failureOf operation_ErrHandle ''receipt'' [] no_operation [])
      | Some c \<Rightarrow>
          if dl_entry (ib_claims ib ! c) = None
          then Inl (failureOf operation_ErrReleased ''receipt'' [] no_operation [])
          else Inr (dl_result (ib_claims ib ! c)))"

definition delivery_end ::
  "('r \<Rightarrow> bool) \<Rightarrow> bool \<Rightarrow> nat option \<Rightarrow> 'r inbox \<Rightarrow> gerr option \<times> 'r inbox" where
  "delivery_end ended retry delivery ib =
     (case delivery of
        None \<Rightarrow> (Some (failureOf operation_ErrHandle ''delivery'' [] no_operation []), ib)
      | Some c \<Rightarrow>
          (let claim = ib_claims ib ! c;
               gone = (Some (failureOf operation_ErrReleased ''delivery'' [] no_operation []), ib)
           in case dl_entry claim of
                None \<Rightarrow> gone
              | Some e \<Rightarrow>
                  if \<not> retry \<and> \<not> (case dl_result claim of None \<Rightarrow> False | Some r \<Rightarrow> ended r)
                  then (Some (failureOf operation_ErrPending ''ack'' []
                    (no_operation\<lparr>operation_pending := True\<rparr>) []), ib)
                  else if ee_claim (ib_store ib ! e) \<noteq> Some c then gone
                  else
                    (let entry = (ib_store ib ! e)\<lparr>ee_claim := None\<rparr>;
                         moved = (if retry
                           then ib\<lparr>ib_store := (ib_store ib)[e := entry], ib_queue := ib_queue ib @ [e]\<rparr>
                           else ib\<lparr>ib_store := (ib_store ib)[e := entry\<lparr>ee_result := None\<rparr>],
                             ib_entries := remove1 e (ib_entries ib),
                             ib_outstanding := ib_outstanding ib - 1,
                             ib_bytes := ib_bytes ib - ee_bytes entry\<rparr>)
                     in (None, moved\<lparr>ib_claims := (ib_claims ib)
                          [c := \<lparr>dl_entry = None, dl_result = None\<rparr>]\<rparr>))))"

definition Delivery_Ack :: "('r \<Rightarrow> bool) \<Rightarrow> nat option \<Rightarrow> 'r inbox \<Rightarrow> gerr option \<times> 'r inbox" where
  "Delivery_Ack ended delivery ib = delivery_end ended False delivery ib"

definition Delivery_Retry :: "('r \<Rightarrow> bool) \<Rightarrow> nat option \<Rightarrow> 'r inbox \<Rightarrow> gerr option \<times> 'r inbox" where
  "Delivery_Retry ended delivery ib = delivery_end ended True delivery ib"

section \<open>Custody\<close>

text \<open>The entry an open claim holds, and the steps of an inbox. Only the caller that reserved an entry
  commits or aborts it, once; a delivery is a claim the inbox handed out.\<close>

inductive inbox_step :: "'r inbox \<Rightarrow> 'r inbox \<Rightarrow> bool" where
  ib_reserve: "reserve bytes (Some ib) = (result, Some ib') \<Longrightarrow> inbox_step ib ib'"
| ib_abort: "e \<in> set (ib_entries ib) \<Longrightarrow> inbox_step ib (evidence_abort e ib)"
| ib_commit: "e \<in> set (ib_entries ib) \<Longrightarrow> ee_reserved (ib_store ib ! e) \<Longrightarrow>
    inbox_step ib (evidence_commit e result ib)"
| ib_next: "inbox_next ended releasedOnly ctx (Some ib) = (result, Some ib') \<Longrightarrow> inbox_step ib ib'"
| ib_seal: "Inbox_Seal (Some ib) = (result, Some ib') \<Longrightarrow> inbox_step ib ib'"
| ib_end: "c < length (ib_claims ib) \<Longrightarrow> inbox_step ib (snd (delivery_end ended retry (Some c) ib))"

definition inbox_initial :: "'r inbox \<Rightarrow> bool" where
  "inbox_initial ib \<longleftrightarrow> (\<exists>opts. NewInbox opts = Inr ib)"

text \<open>Every live entry is in exactly one place: reserved, queued, or held by exactly one open claim.\<close>

definition inv_custody :: "'r inbox \<Rightarrow> bool" where
  "inv_custody ib \<longleftrightarrow> distinct (ib_entries ib) \<and> distinct (ib_queue ib) \<and>
     set (ib_queue ib) \<subseteq> set (ib_entries ib) \<and> (\<forall>e\<in>set (ib_entries ib). e < length (ib_store ib)) \<and>
     (\<forall>e\<in>set (ib_entries ib).
        (ee_reserved (ib_store ib ! e) \<longleftrightarrow> e \<notin> set (ib_queue ib) \<and> ee_claim (ib_store ib ! e) = None) \<and>
        (e \<in> set (ib_queue ib) \<longrightarrow> ee_claim (ib_store ib ! e) = None))"

definition holds :: "'r inbox \<Rightarrow> nat \<Rightarrow> nat \<Rightarrow> bool" where
  "holds ib c e \<longleftrightarrow> c < length (ib_claims ib) \<and> dl_entry (ib_claims ib ! c) = Some e"

definition inv_claims :: "'r inbox \<Rightarrow> bool" where
  "inv_claims ib \<longleftrightarrow>
     (\<forall>c e. holds ib c e \<longleftrightarrow> e \<in> set (ib_entries ib) \<and> ee_claim (ib_store ib ! e) = Some c)"

definition bytes_of :: "'r evidenceEntry list \<Rightarrow> nat list \<Rightarrow> int" where
  "bytes_of store es = sum_list (map (\<lambda>e. ee_bytes (store ! e)) es)"

definition reserved_of :: "'r evidenceEntry list \<Rightarrow> nat list \<Rightarrow> int" where
  "reserved_of store es = int (length (filter (\<lambda>e. ee_reserved (store ! e)) es))"

definition inv_counts :: "'r inbox \<Rightarrow> bool" where
  "inv_counts ib \<longleftrightarrow> ib_outstanding ib = int (length (ib_entries ib)) \<and>
     ib_outstanding ib \<le> ev_capacity (ib_options ib) \<and>
     ib_bytes ib = bytes_of (ib_store ib) (ib_entries ib) \<and>
     ib_bytes ib \<le> ev_max_bytes (ib_options ib) \<and>
     (\<forall>e\<in>set (ib_entries ib). ee_bytes (ib_store ib ! e) \<ge> 1) \<and>
     ib_pending ib = reserved_of (ib_store ib) (ib_entries ib)"

definition inbox_inv :: "'r inbox \<Rightarrow> bool" where
  "inbox_inv ib \<longleftrightarrow> inv_custody ib \<and> inv_claims ib \<and> inv_counts ib"

lemma inbox_invD:
  assumes "inbox_inv ib"
  shows "inv_custody ib" and "inv_claims ib" and "inv_counts ib"
  using assms by (simp_all add: inbox_inv_def)

lemma entry_bytes: "inbox_inv ib \<Longrightarrow> e \<in> set (ib_entries ib) \<Longrightarrow> 1 \<le> ee_bytes (ib_store ib ! e)"
  by (simp add: inbox_inv_def inv_counts_def)

text \<open>Updating one stored entry.\<close>

lemma store_nth: "store[i := x] ! e = (if e = i \<and> i < length store then x else store ! e)"
  by (cases "i < length store") (auto simp: nth_list_update list_update_beyond)

lemma of_cong:
  "(\<And>e. e \<in> set es \<Longrightarrow> ee_bytes (store' ! e) = ee_bytes (store ! e)) \<Longrightarrow> bytes_of store' es = bytes_of store es"
  "(\<And>e. e \<in> set es \<Longrightarrow> ee_reserved (store' ! e) = ee_reserved (store ! e)) \<Longrightarrow>
    reserved_of store' es = reserved_of store es"
proof -
  show "bytes_of store' es = bytes_of store es"
    if "\<And>e. e \<in> set es \<Longrightarrow> ee_bytes (store' ! e) = ee_bytes (store ! e)"
    unfolding bytes_of_def by (rule arg_cong [of _ _ sum_list], rule map_cong) (simp_all add: that)
  show "reserved_of store' es = reserved_of store es"
    if "\<And>e. e \<in> set es \<Longrightarrow> ee_reserved (store' ! e) = ee_reserved (store ! e)"
    unfolding reserved_of_def by (rule arg_cong [of _ _ "\<lambda>xs. int (length xs)"], rule filter_cong)
      (simp_all add: that)
qed

lemma of_Cons [simp]:
  "bytes_of store (e # es) = ee_bytes (store ! e) + bytes_of store es"
  "reserved_of store (e # es) = (if ee_reserved (store ! e) then 1 else 0) + reserved_of store es"
  by (simp_all add: bytes_of_def reserved_of_def)

lemma of_remove1:
  assumes "e \<in> set es"
  shows "bytes_of store (remove1 e es) = bytes_of store es - ee_bytes (store ! e)"
    and "reserved_of store (remove1 e es) = reserved_of store es - (if ee_reserved (store ! e) then 1 else 0)"
    and "int (length (remove1 e es)) = int (length es) - 1"
  using assms by (induction es) auto

lemma reserved_of_release:
  assumes "distinct es" and "e \<in> set es" and "e < length store" and "ee_reserved (store ! e)"
    and "\<not> ee_reserved x"
  shows "reserved_of (store[e := x]) es = reserved_of store es - 1"
proof -
  have "reserved_of (store[e := x]) es = reserved_of (store[e := x]) (remove1 e es)"
    using of_remove1(2) [OF assms(2), of "store[e := x]"] assms(3, 5) by (simp add: store_nth)
  also have "\<dots> = reserved_of store (remove1 e es)"
    using assms(1) by (intro of_cong) (simp add: store_nth)
  finally show ?thesis using of_remove1(2) [OF assms(2), of store] assms(4) by simp
qed

section \<open>Preservation\<close>

lemma reserve_inv:
  assumes "inbox_inv ib" and "reserve bytes (Some ib) = (result, Some ib')"
  shows "inbox_inv ib'"
proof (cases "ib' = ib")
  case False
  note inv = inbox_invD [OF assms(1)]
  let ?e = "length (ib_store ib)"
  let ?new = "\<lparr>ee_bytes = bytes, ee_result = None, ee_claim = None, ee_reserved = True\<rparr>"
  have ib': "ib' = ib\<lparr>ib_outstanding := ib_outstanding ib + 1, ib_pending := ib_pending ib + 1,
      ib_bytes := ib_bytes ib + bytes, ib_entries := ?e # ib_entries ib, ib_store := ib_store ib @ [?new]\<rparr>"
    and guard: "bytes \<ge> 1" "ib_outstanding ib < ev_capacity (ib_options ib)"
      "ib_bytes ib + bytes \<le> ev_max_bytes (ib_options ib)"
    using assms(2) False by (auto simp: reserve_def Let_def split: if_splits)
  have old: "(ib_store ib @ [?new]) ! e = ib_store ib ! e" if "e \<in> set (ib_entries ib)" for e
    using that inv(1) by (auto simp: inv_custody_def nth_append)
  have fresh: "?e \<notin> set (ib_entries ib)" using inv(1) by (auto simp: inv_custody_def)
  have "inv_custody ib'" using inv(1) fresh old by (auto simp: inv_custody_def ib' less_Suc_eq)
  moreover have "holds ib' = holds ib" by (simp add: fun_eq_iff holds_def ib')
  then have "inv_claims ib'"
    using inv(2) fresh old by (auto simp: inv_claims_def ib')
  moreover have "bytes_of (ib_store ib @ [?new]) (ib_entries ib) = bytes_of (ib_store ib) (ib_entries ib)"
    "reserved_of (ib_store ib @ [?new]) (ib_entries ib) = reserved_of (ib_store ib) (ib_entries ib)"
    by (rule of_cong; simp add: old)+
  then have "inv_counts ib'" using inv(3) guard old by (simp add: inv_counts_def ib')
  ultimately show ?thesis by (simp add: inbox_inv_def)
qed (use assms in simp)

lemma abort_inv:
  assumes "inbox_inv ib" and "e \<in> set (ib_entries ib)"
  shows "inbox_inv (evidence_abort e ib)"
proof (cases "ee_reserved (ib_store ib ! e)")
  case True
  note inv = inbox_invD [OF assms(1)]
  let ?store = "(ib_store ib)[e := (ib_store ib ! e)\<lparr>ee_reserved := False\<rparr>]"
  have e: "e < length (ib_store ib)" "e \<notin> set (ib_queue ib)" "ee_claim (ib_store ib ! e) = None"
    and d: "distinct (ib_entries ib)"
    using inv(1) assms(2) True by (auto simp: inv_custody_def)
  have "inv_custody (evidence_abort e ib)"
    using inv(1) e by (auto simp: inv_custody_def evidence_abort_def True store_nth)
  moreover have "holds (evidence_abort e ib) = holds ib"
    by (simp add: fun_eq_iff holds_def evidence_abort_def)
  then have "inv_claims (evidence_abort e ib)"
    using inv(2) e by (auto simp: inv_claims_def evidence_abort_def True store_nth d)
  moreover have "bytes_of ?store (remove1 e (ib_entries ib)) = bytes_of (ib_store ib) (remove1 e (ib_entries ib))"
    "reserved_of ?store (remove1 e (ib_entries ib)) = reserved_of (ib_store ib) (remove1 e (ib_entries ib))"
    using d by (intro of_cong; simp add: store_nth)+
  then have "inv_counts (evidence_abort e ib)"
    using inv(3) d e True of_remove1(1, 2) [OF assms(2), of "ib_store ib"] of_remove1(3) [OF assms(2)]
      entry_bytes [OF assms]
    by (simp add: inv_counts_def evidence_abort_def store_nth)
  ultimately show ?thesis by (simp add: inbox_inv_def)
qed (use assms in \<open>simp add: evidence_abort_def\<close>)

lemma commit_evidence_inv:
  assumes "inbox_inv ib" and "e \<in> set (ib_entries ib)" and "ee_reserved (ib_store ib ! e)"
  shows "inbox_inv (evidence_commit e result ib)"
proof -
  note inv = inbox_invD [OF assms(1)]
  let ?x = "(ib_store ib ! e)\<lparr>ee_result := Some result, ee_reserved := False\<rparr>"
  have e: "e < length (ib_store ib)" "e \<notin> set (ib_queue ib)" "ee_claim (ib_store ib ! e) = None"
    and d: "distinct (ib_entries ib)"
    using inv(1) assms(2, 3) by (auto simp: inv_custody_def)
  have "inv_custody (evidence_commit e result ib)"
    using inv(1) e assms(2) by (auto simp: inv_custody_def evidence_commit_def store_nth)
  moreover have "holds (evidence_commit e result ib) = holds ib"
    by (simp add: fun_eq_iff holds_def evidence_commit_def)
  then have "inv_claims (evidence_commit e result ib)"
    using inv(2) e by (auto simp: inv_claims_def evidence_commit_def store_nth)
  moreover have "bytes_of ((ib_store ib)[e := ?x]) (ib_entries ib) = bytes_of (ib_store ib) (ib_entries ib)"
    by (rule of_cong) (simp add: store_nth)
  then have "inv_counts (evidence_commit e result ib)"
    using inv(3) d e assms reserved_of_release [OF d assms(2) e(1) assms(3), of ?x]
    by (simp add: inv_counts_def evidence_commit_def store_nth)
  ultimately show ?thesis by (simp add: inbox_inv_def)
qed

lemma next_inv:
  assumes "inbox_inv ib" and "inbox_next ended releasedOnly ctx (Some ib) = (result, Some ib')"
  shows "inbox_inv ib'"
proof (cases "ib' = ib")
  case False
  note inv = inbox_invD [OF assms(1)]
  have claims: "holds ib c x \<longleftrightarrow> x \<in> set (ib_entries ib) \<and> ee_claim (ib_store ib ! x) = Some c" for c x
    using inv(2) by (simp add: inv_claims_def)
  let ?c = "length (ib_claims ib)"
  from False assms(2) obtain e P where "List.find P (ib_queue ib) = Some e" and ib': "ib' =
      ib\<lparr>ib_queue := remove1 e (ib_queue ib),
        ib_store := (ib_store ib)[e := (ib_store ib ! e)\<lparr>ee_claim := Some ?c\<rparr>],
        ib_claims := ib_claims ib @ [\<lparr>dl_entry = Some e, dl_result = ee_result (ib_store ib ! e)\<rparr>]\<rparr>"
    by (auto simp: inbox_next_def Let_def split: option.splits if_splits)
  then have "e \<in> set (ib_queue ib)" by (metis find_Some_iff nth_mem)
  then have e: "e \<in> set (ib_queue ib)" "e \<in> set (ib_entries ib)" "e < length (ib_store ib)"
    "ee_claim (ib_store ib ! e) = None" "\<not> ee_reserved (ib_store ib ! e)"
    using inv(1) by (auto simp: inv_custody_def)
  let ?store = "(ib_store ib)[e := (ib_store ib ! e)\<lparr>ee_claim := Some ?c\<rparr>]"
  have fields: "ib_entries ib' = ib_entries ib" "ib_store ib' = ?store" by (simp_all add: ib')
  have "inv_custody ib'"
    using inv(1) e by (auto simp: inv_custody_def ib' store_nth dest: notin_set_remove1)
  moreover have held: "holds ib' c x \<longleftrightarrow> holds ib c x \<or> c = ?c \<and> x = e" for c x
    by (auto simp: holds_def ib' nth_append less_Suc_eq)
  have new: "\<not> holds ib ?c x" for x by (simp add: holds_def)
  have "holds ib' c x \<longleftrightarrow> x \<in> set (ib_entries ib') \<and> ee_claim (ib_store ib' ! x) = Some c" for c x
    using claims [of c x] claims [of ?c x] new [of x] e
    by (cases "x = e") (auto simp: held fields store_nth)
  then have "inv_claims ib'" by (simp add: inv_claims_def)
  moreover have "bytes_of ?store (ib_entries ib) = bytes_of (ib_store ib) (ib_entries ib)"
    "reserved_of ?store (ib_entries ib) = reserved_of (ib_store ib) (ib_entries ib)"
    by (rule of_cong; simp add: store_nth)+
  then have "inv_counts ib'" using inv(3) by (simp add: inv_counts_def ib' store_nth)
  ultimately show ?thesis by (simp add: inbox_inv_def)
qed (use assms in simp)

text \<open>What ending an open claim does: it leaves the claim empty and requeues or frees its entry.\<close>

lemma delivery_end_cases:
  assumes "inbox_inv ib" and "c < length (ib_claims ib)"
  obtains (refused) err where "delivery_end ended retry (Some c) ib = (Some err, ib)"
  | (requeued) e where "retry" "holds ib c e" "delivery_end ended retry (Some c) ib =
      (None, ib\<lparr>ib_store := (ib_store ib)[e := (ib_store ib ! e)\<lparr>ee_claim := None\<rparr>],
        ib_queue := ib_queue ib @ [e],
        ib_claims := (ib_claims ib)[c := \<lparr>dl_entry = None, dl_result = None\<rparr>]\<rparr>)"
  | (freed) e where "\<not> retry" "holds ib c e" "\<exists>r. dl_result (ib_claims ib ! c) = Some r \<and> ended r"
      "delivery_end ended retry (Some c) ib =
      (None, ib\<lparr>ib_store := (ib_store ib)[e := (ib_store ib ! e)\<lparr>ee_claim := None, ee_result := None\<rparr>],
        ib_entries := remove1 e (ib_entries ib), ib_outstanding := ib_outstanding ib - 1,
        ib_bytes := ib_bytes ib - ee_bytes (ib_store ib ! e),
        ib_claims := (ib_claims ib)[c := \<lparr>dl_entry = None, dl_result = None\<rparr>]\<rparr>)"
proof (cases "dl_entry (ib_claims ib ! c)")
  case None
  then show thesis using refused by (simp add: delivery_end_def Let_def)
next
  case (Some e)
  then have h: "holds ib c e" using assms(2) by (simp add: holds_def)
  then have claim: "ee_claim (ib_store ib ! e) = Some c"
    using inbox_invD(2) [OF assms(1)] by (simp add: inv_claims_def)
  show thesis
  proof (cases "retry \<or> (\<exists>r. dl_result (ib_claims ib ! c) = Some r \<and> ended r)")
    case True
    then show thesis
      using requeued [OF _ h] freed [OF _ h] claim Some
      by (cases retry) (auto simp: delivery_end_def Let_def)
  next
    case False
    then have "\<not> retry" "\<not> (case dl_result (ib_claims ib ! c) of None \<Rightarrow> False | Some r \<Rightarrow> ended r)"
      by (auto split: option.splits)
    then show thesis using refused Some by (simp add: delivery_end_def Let_def)
  qed
qed

lemma end_inv:
  assumes "inbox_inv ib" and "c < length (ib_claims ib)"
  shows "inbox_inv (snd (delivery_end ended retry (Some c) ib))"
proof -
  note inv = inbox_invD [OF assms(1)]
  have claims: "holds ib c x \<longleftrightarrow> x \<in> set (ib_entries ib) \<and> ee_claim (ib_store ib ! x) = Some c" for c x
    using inv(2) by (simp add: inv_claims_def)
  have at: "e \<in> set (ib_entries ib)" "e < length (ib_store ib)" "e \<notin> set (ib_queue ib)"
    "\<not> ee_reserved (ib_store ib ! e)" "ee_claim (ib_store ib ! e) = Some c"
    "holds ib c x \<longleftrightarrow> x = e" if "holds ib c e" for e x
  proof -
    show claim: "ee_claim (ib_store ib ! e) = Some c" and "e \<in> set (ib_entries ib)"
      using that inv(2) by (simp_all add: inv_claims_def)
    then show "e < length (ib_store ib)" "e \<notin> set (ib_queue ib)" "\<not> ee_reserved (ib_store ib ! e)"
      using inv(1) by (auto simp: inv_custody_def)
    show "holds ib c x \<longleftrightarrow> x = e" using that by (auto simp: holds_def)
  qed
  have d: "distinct (ib_entries ib)" using inv(1) by (simp add: inv_custody_def)
  from assms show ?thesis
  proof (cases rule: delivery_end_cases [where ended = ended and retry = retry])
    case (requeued e)
    note at = at [OF requeued(2)]
    let ?ib = "snd (delivery_end ended retry (Some c) ib)"
    have "inv_custody ?ib" using inv(1) at by (auto simp: inv_custody_def requeued(3) store_nth)
    moreover have "holds ?ib x y \<longleftrightarrow> holds ib x y \<and> x \<noteq> c" for x y
      by (auto simp: holds_def requeued(3) nth_list_update assms(2))
    then have "holds ?ib x y \<longleftrightarrow> y \<in> set (ib_entries ?ib) \<and> ee_claim (ib_store ?ib ! y) = Some x" for x y
      using claims [of x y] at by (cases "y = e") (auto simp: requeued(3) store_nth)
    then have "inv_claims ?ib" by (simp add: inv_claims_def)
    moreover have "bytes_of (ib_store ?ib) (ib_entries ib) = bytes_of (ib_store ib) (ib_entries ib)"
      "reserved_of (ib_store ?ib) (ib_entries ib) = reserved_of (ib_store ib) (ib_entries ib)"
      by (rule of_cong; simp add: requeued(3) store_nth)+
    then have "inv_counts ?ib" using inv(3) by (simp add: inv_counts_def requeued(3) store_nth)
    ultimately show ?thesis by (simp add: inbox_inv_def)
  next
    case (freed e)
    note at = at [OF freed(2)]
    let ?ib = "snd (delivery_end ended retry (Some c) ib)"
    have custody: "inv_custody ?ib" using inv(1) at by (auto simp: inv_custody_def freed(4) store_nth)
    have "holds ?ib x y \<longleftrightarrow> holds ib x y \<and> x \<noteq> c" for x y
      by (auto simp: holds_def freed(4) nth_list_update assms(2))
    then have "holds ?ib x y \<longleftrightarrow> y \<in> set (ib_entries ?ib) \<and> ee_claim (ib_store ?ib ! y) = Some x" for x y
      using claims [of x y] at d by (cases "y = e") (auto simp: freed(4) store_nth)
    then have ends: "inv_claims ?ib" by (simp add: inv_claims_def)
    have "bytes_of (ib_store ?ib) (remove1 e (ib_entries ib)) = bytes_of (ib_store ib) (remove1 e (ib_entries ib))"
      "reserved_of (ib_store ?ib) (remove1 e (ib_entries ib)) = reserved_of (ib_store ib) (remove1 e (ib_entries ib))"
      by (rule of_cong; simp add: freed(4) store_nth)+
    moreover have "ib_bytes ib - ee_bytes (ib_store ib ! e) \<le> ev_max_bytes (ib_options ib)"
      using entry_bytes [OF assms(1) at(1)] inv(3) unfolding inv_counts_def by linarith
    ultimately have "inv_counts ?ib"
      using inv(3) at d of_remove1(1, 2) [OF at(1), of "ib_store ib"] of_remove1(3) [OF at(1)]
      by (simp add: inv_counts_def freed(4) store_nth)
    then show ?thesis using custody ends by (simp add: inbox_inv_def)
  qed (use assms in simp)
qed

interpretation inboxes: transition_system inbox_initial inbox_step inbox_inv
proof
  show "inbox_inv ib" if "inbox_initial ib" for ib
    using that
    by (auto simp: inbox_initial_def NewInbox_def Let_def inbox_inv_def inv_custody_def inv_claims_def
        holds_def inv_counts_def bytes_of_def reserved_of_def split: if_splits)
  show "inbox_inv ib'" if "inbox_inv ib" "inbox_step ib ib'" for ib ib'
    using that(2, 1)
  proof cases
    case (ib_seal result)
    then have "ib' = ib\<lparr>ib_closed := True\<rparr>" by (simp add: Inbox_Seal_def)
    then show ?thesis
      using that(1) by (simp add: inbox_inv_def inv_custody_def inv_claims_def inv_counts_def holds_def)
  qed (use that(1) in \<open>auto intro: reserve_inv abort_inv commit_evidence_inv next_inv end_inv\<close>)
qed

section \<open>What an inbox guarantees\<close>

lemma entries_split:
  assumes "inv_custody ib"
  shows "int (length (ib_entries ib)) = reserved_of (ib_store ib) (ib_entries ib) +
    int (length (ib_queue ib)) +
    int (card {e \<in> set (ib_entries ib). ee_claim (ib_store ib ! e) \<noteq> None})"
proof -
  let ?R = "{e \<in> set (ib_entries ib). ee_reserved (ib_store ib ! e)}" and ?Q = "set (ib_queue ib)"
    and ?C = "{e \<in> set (ib_entries ib). ee_claim (ib_store ib ! e) \<noteq> None}"
  have "set (ib_entries ib) = ?R \<union> ?Q \<union> ?C" and dis: "?R \<inter> ?Q = {}" "(?R \<union> ?Q) \<inter> ?C = {}"
    using assms by (auto simp: inv_custody_def)
  then have "card (set (ib_entries ib)) = card ?R + card ?Q + card ?C"
    by (metis (no_types, lifting) List.finite_set card_Un_disjoint finite_Un)
  moreover have "card ?R = length (filter (\<lambda>e. ee_reserved (ib_store ib ! e)) (ib_entries ib))"
    using assms distinct_card [of "filter (\<lambda>e. ee_reserved (ib_store ib ! e)) (ib_entries ib)"]
    by (simp add: inv_custody_def)
  ultimately show ?thesis
    using assms by (simp add: inv_custody_def reserved_of_def distinct_card)
qed

lemma claims_bijective:
  assumes "inbox_inv ib"
  shows "card {c. \<exists>e. holds ib c e} = card {e \<in> set (ib_entries ib). ee_claim (ib_store ib ! e) \<noteq> None}"
proof -
  have claims: "holds ib c x \<longleftrightarrow> x \<in> set (ib_entries ib) \<and> ee_claim (ib_store ib ! x) = Some c" for c x
    using inbox_invD(2) [OF assms] by (simp add: inv_claims_def)
  let ?A = "{e \<in> set (ib_entries ib). ee_claim (ib_store ib ! e) \<noteq> None}"
    and ?f = "\<lambda>e. the (ee_claim (ib_store ib ! e))"
  have claimed: "holds ib (?f e) e" if "e \<in> ?A" for e
    using that unfolding claims by simp
  have "inj_on ?f ?A"
  proof (rule inj_onI)
    fix x y
    assume "x \<in> ?A" "y \<in> ?A" and same: "?f x = ?f y"
    then have "holds ib (?f y) x" "holds ib (?f y) y" using claimed by metis+
    then show "x = y" by (simp add: holds_def)
  qed
  moreover have "?f ` ?A = {c. \<exists>e. holds ib c e}"
  proof (rule set_eqI, rule iffI)
    fix c
    assume "c \<in> {c. \<exists>e. holds ib c e}"
    then obtain e where "holds ib c e" by blast
    then have "e \<in> ?A" "?f e = c" by (simp_all add: claims)
    then show "c \<in> ?f ` ?A" by blast
  qed (use claimed in blast)
  ultimately show ?thesis using card_image [of ?f ?A] by simp
qed

text \<open>C23: an inbox accounts for all evidence in its custody. In every reachable state each live entry is in
  exactly one place (reserved, queued or held by exactly one open delivery), the reported numbers of
  outstanding, queued, claimed and reserved records are the true ones, the reported bytes are the sum of
  the live reservations, and both stay within the configured capacity.\<close>

theorem inbox_custody_exact:
  assumes "reach inbox_initial inbox_step ib" and "Inbox_Inspect (Some ib) = Inr status"
  shows "es_outstanding status = es_reserved status + es_queued status + es_claimed status \<and>
    es_claimed status = int (card {c. \<exists>e. holds ib c e}) \<and>
    es_reserved status = int (card {e \<in> set (ib_entries ib). ee_reserved (ib_store ib ! e)}) \<and>
    es_bytes status = (\<Sum>e\<leftarrow>ib_entries ib. ee_bytes (ib_store ib ! e)) \<and>
    es_outstanding status \<le> ev_capacity (ib_options ib) \<and> es_bytes status \<le> ev_max_bytes (ib_options ib) \<and>
    (\<forall>e. e \<in> set (ib_entries ib) \<longrightarrow>
       (if ee_reserved (ib_store ib ! e) then e \<notin> set (ib_queue ib) \<and> (\<forall>c. \<not> holds ib c e)
        else (e \<in> set (ib_queue ib)) \<noteq> (\<exists>!c. holds ib c e)))"
proof -
  have inv: "inbox_inv ib" by (rule inboxes.reach_inv [OF assms(1)])
  note parts = inbox_invD [OF inv]
  have claims: "holds ib c e \<longleftrightarrow> e \<in> set (ib_entries ib) \<and> ee_claim (ib_store ib ! e) = Some c" for c e
    using parts(2) by (simp add: inv_claims_def)
  have status: "status = \<lparr>es_outstanding = ib_outstanding ib, es_queued = int (length (ib_queue ib)),
      es_claimed = ib_outstanding ib - ib_pending ib - int (length (ib_queue ib)),
      es_reserved = ib_pending ib, es_bytes = ib_bytes ib, es_closed = ib_closed ib\<rparr>"
    using assms(2) by (simp add: Inbox_Inspect_def)
  have "reserved_of (ib_store ib) (ib_entries ib) =
      int (card {e \<in> set (ib_entries ib). ee_reserved (ib_store ib ! e)})"
    using parts(1) distinct_card [of "filter (\<lambda>e. ee_reserved (ib_store ib ! e)) (ib_entries ib)"]
    by (simp add: inv_custody_def reserved_of_def)
  moreover have "if ee_reserved (ib_store ib ! e) then e \<notin> set (ib_queue ib) \<and> (\<forall>c. \<not> holds ib c e)
      else (e \<in> set (ib_queue ib)) \<noteq> (\<exists>!c. holds ib c e)" if "e \<in> set (ib_entries ib)" for e
    using that parts(1) by (cases "ee_claim (ib_store ib ! e)") (auto simp: inv_custody_def claims)
  ultimately show ?thesis
    using parts(3) entries_split [OF parts(1)] claims_bijective [OF inv]
    by (simp add: status inv_counts_def bytes_of_def)
qed

text \<open>C24: a delivery is settled exactly once. Acknowledging an open delivery is refused as pending while its
  operation's work has not ended, and changes nothing; otherwise it frees exactly that record's
  reservation. Retrying puts the record at the end of the queue and keeps its reservation. Either way the
  delivery is spent: settling it again or reading its receipt fails with \<^verbatim>\<open>ErrReleased\<close> and changes
  nothing.\<close>

theorem delivery_settles_once:
  assumes "reach inbox_initial inbox_step ib" and "holds ib c e"
    and "dl_result (ib_claims ib ! c) = Some r"
    and "delivery_end ended retry (Some c) ib = (result, ib')"
  shows "(\<not> retry \<and> \<not> ended r \<longrightarrow> ib' = ib \<and>
      result = Some (failureOf operation_ErrPending ''ack'' [] (no_operation\<lparr>operation_pending := True\<rparr>) [])) \<and>
    (retry \<or> ended r \<longrightarrow> result = None \<and>
      ib_queue ib' = (if retry then ib_queue ib @ [e] else ib_queue ib) \<and>
      ib_outstanding ib' = ib_outstanding ib - (if retry then 0 else 1) \<and>
      ib_bytes ib' = ib_bytes ib - (if retry then 0 else ee_bytes (ib_store ib ! e)) \<and>
      (e \<in> set (ib_entries ib') \<longleftrightarrow> retry) \<and>
      (\<forall>again. delivery_end ended again (Some c) ib' =
         (Some (failureOf operation_ErrReleased ''delivery'' [] no_operation []), ib')) \<and>
      Delivery_Receipt (Some c) ib' = Inl (failureOf operation_ErrReleased ''receipt'' [] no_operation []))"
proof -
  have inv: "inbox_inv ib" by (rule inboxes.reach_inv [OF assms(1)])
  have c: "c < length (ib_claims ib)" "dl_entry (ib_claims ib ! c) = Some e"
    using assms(2) by (simp_all add: holds_def)
  have e: "e \<in> set (ib_entries ib)" "ee_claim (ib_store ib ! e) = Some c" "distinct (ib_entries ib)"
    using inbox_invD(1, 2) [OF inv] assms(2) by (simp_all add: inv_claims_def inv_custody_def)
  show ?thesis
    using assms(3, 4) c e by (cases retry) (auto simp: delivery_end_def Delivery_Receipt_def Let_def)
qed

section \<open>Delivering one record\<close>

text \<open>\<^verbatim>\<open>DeliverOne\<close>: \<open>waited\<close> is the error of waiting for the record's release, \<open>late\<close> the context
  after it, \<open>sunk\<close> what the sink returns. \<open>None\<close> when it is still waiting for a record.\<close>

definition DeliverOne ::
  "('r \<Rightarrow> bool) \<Rightarrow> bool \<Rightarrow> go_ctx option \<Rightarrow> gerr option \<Rightarrow> go_ctx \<Rightarrow> gerr option \<Rightarrow> 'r inbox \<Rightarrow>
     gerr option option \<times> 'r inbox" where
  "DeliverOne ended sink ctx waited late sunk ib =
     (if \<not> sink then (Some (Some (failureOf operation_ErrOptions ''deliver'' [] no_operation [])), ib)
      else
        (case Inbox_Next ended ctx (Some ib) of
           (None, _) \<Rightarrow> (None, ib)
         | (Some (Inl err), _) \<Rightarrow> (Some (Some err), ib)
         | (Some (Inr c), claimed) \<Rightarrow>
             (let held = the claimed; returned = snd (Delivery_Retry ended (Some c) held) in
              if waited \<noteq> None then (Some waited, returned)
              else if ctx_err late \<noteq> None
              then (Some (Some (failureOf operation_ErrWait ''deliver'' [] no_operation
                [ctx_err late, ctx_cause late])), returned)
              else if sunk \<noteq> None
              then (Some (Some (failureOf operation_ErrEvidence ''deliver'' [] no_operation [sunk])), returned)
              else (case Delivery_Ack ended (Some c) held of (result, acked) \<Rightarrow> (Some result, acked)))))"

text \<open>A claim \<^verbatim>\<open>next\<close> hands out holds the head of the queue.\<close>

lemma next_claims:
  assumes "inbox_next ended False ctx (Some ib) = (Some (Inr c), claimed)"
  obtains e held where "claimed = Some held" "holds held c e" "ib_entries held = ib_entries ib"
    "ib_outstanding held = ib_outstanding ib" "ib_bytes held = ib_bytes ib"
    "dl_result (ib_claims held ! c) = ee_result (ib_store ib ! e)" "ib_queue ib = e # ib_queue held"
proof -
  from assms obtain e rest where q: "ib_queue ib = e # rest" and c: "c = length (ib_claims ib)"
    and held: "claimed = Some (ib\<lparr>ib_queue := rest,
      ib_store := (ib_store ib)[e := (ib_store ib ! e)\<lparr>ee_claim := Some c\<rparr>],
      ib_claims := ib_claims ib @ [\<lparr>dl_entry = Some e, dl_result = ee_result (ib_store ib ! e)\<rparr>]\<rparr>)"
    by (cases "ib_queue ib") (auto simp: inbox_next_def Let_def split: option.splits if_splits)
  show thesis by (rule that [OF held, of e]) (simp_all add: q c holds_def nth_append)
qed

text \<open>C25: delivering a record never loses evidence. When \<^verbatim>\<open>DeliverOne\<close> returns on a reachable inbox, and
  waiting for the release reported success only for work that has ended, then it succeeds exactly when
  the head record left custody, one record and its bytes; with any error, from the wait, the context or
  the sink, every record that was in custody still is.\<close>

theorem DeliverOne_no_loss:
  assumes "reach inbox_initial inbox_step ib"
    and "DeliverOne ended sink ctx waited late sunk ib = (Some result, ib')"
    and "\<And>e. waited = None \<Longrightarrow> ib_queue ib \<noteq> [] \<Longrightarrow> e = hd (ib_queue ib) \<Longrightarrow>
      \<exists>r. ee_result (ib_store ib ! e) = Some r \<and> ended r"
  shows "(result = None \<longrightarrow> ib_queue ib \<noteq> [] \<and> ib_entries ib' = remove1 (hd (ib_queue ib)) (ib_entries ib) \<and>
      ib_outstanding ib' = ib_outstanding ib - 1) \<and>
    (result \<noteq> None \<longrightarrow> ib_entries ib' = ib_entries ib \<and> ib_outstanding ib' = ib_outstanding ib \<and>
      ib_bytes ib' = ib_bytes ib)"
proof (cases "\<exists>c claimed. sink \<and> inbox_next ended False ctx (Some ib) = (Some (Inr c), claimed)")
  case False
  then have "ib' = ib \<and> result \<noteq> None"
    using assms(2) by (auto simp: DeliverOne_def Inbox_Next_def split: if_splits prod.splits option.splits sum.splits)
  then show ?thesis by simp
next
  case True
  then obtain c claimed where sink: "sink"
    and nxt: "inbox_next ended False ctx (Some ib) = (Some (Inr c), claimed)" by blast
  from nxt obtain e held where held: "claimed = Some held" "holds held c e"
    "ib_entries held = ib_entries ib" "ib_outstanding held = ib_outstanding ib" "ib_bytes held = ib_bytes ib"
    "dl_result (ib_claims held ! c) = ee_result (ib_store ib ! e)" "ib_queue ib = e # ib_queue held"
    by (rule next_claims)
  have inv: "inbox_inv held"
    using next_inv [OF inboxes.reach_inv [OF assms(1)]] nxt held(1) by blast
  have c: "c < length (ib_claims held)" using held(2) by (simp add: holds_def)
  have same: "x = e" if "holds held c x" for x using that held(2) by (simp add: holds_def)
  have kept: "ib_entries (snd (Delivery_Retry ended (Some c) held)) = ib_entries ib \<and>
      ib_outstanding (snd (Delivery_Retry ended (Some c) held)) = ib_outstanding ib \<and>
      ib_bytes (snd (Delivery_Retry ended (Some c) held)) = ib_bytes ib"
    using inv c held(3-5) by (cases rule: delivery_end_cases [where ended = ended and retry = True])
      (simp_all add: Delivery_Retry_def)
  show ?thesis
  proof (cases "waited = None \<and> ctx_err late = None \<and> sunk = None")
    case False
    then have "result \<noteq> None \<and> ib' = snd (Delivery_Retry ended (Some c) held)"
      using assms(2) sink nxt held(1) by (auto simp: DeliverOne_def Inbox_Next_def Let_def split: if_splits)
    then show ?thesis using kept by simp
  next
    case True
    have "\<exists>r. dl_result (ib_claims held ! c) = Some r \<and> ended r" using assms(3) True held(6, 7) by simp
    moreover have "(result, ib') = delivery_end ended False (Some c) held"
      using assms(2) sink nxt held(1) True
      by (simp add: DeliverOne_def Inbox_Next_def Let_def Delivery_Ack_def split: prod.splits)
    moreover have "holds held c e \<longrightarrow> ee_claim (ib_store held ! e) = Some c"
      using inbox_invD(2) [OF inv] by (simp add: inv_claims_def)
    ultimately show ?thesis
      using held by (auto simp: delivery_end_def Let_def holds_def)
  qed
qed

section \<open>The custody ledger\<close>

text \<open>The contract an inbox implements: which records are reserved, queued in order, and claimed.\<close>

record ledger =
  lg_reserved :: "nat set"
  lg_queue :: "nat list"
  lg_claimed :: "nat set"

inductive ledger_step :: "ledger \<Rightarrow> ledger \<Rightarrow> bool" where
  lg_idle: "ledger_step l l"
| lg_take: "e \<notin> lg_reserved l \<union> set (lg_queue l) \<union> lg_claimed l \<Longrightarrow>
    ledger_step l (l\<lparr>lg_reserved := insert e (lg_reserved l)\<rparr>)"
| lg_cancel: "e \<in> lg_reserved l \<Longrightarrow> ledger_step l (l\<lparr>lg_reserved := lg_reserved l - {e}\<rparr>)"
| lg_admit: "e \<in> lg_reserved l \<Longrightarrow>
    ledger_step l (l\<lparr>lg_reserved := lg_reserved l - {e}, lg_queue := lg_queue l @ [e]\<rparr>)"
| lg_claim: "e \<in> set (lg_queue l) \<Longrightarrow>
    ledger_step l (l\<lparr>lg_queue := remove1 e (lg_queue l), lg_claimed := insert e (lg_claimed l)\<rparr>)"
| lg_return: "e \<in> lg_claimed l \<Longrightarrow>
    ledger_step l (l\<lparr>lg_queue := lg_queue l @ [e], lg_claimed := lg_claimed l - {e}\<rparr>)"
| lg_discharge: "e \<in> lg_claimed l \<Longrightarrow> ledger_step l (l\<lparr>lg_claimed := lg_claimed l - {e}\<rparr>)"

definition ledger_of :: "'r inbox \<Rightarrow> ledger" where
  "ledger_of ib =
     \<lparr>lg_reserved = {e \<in> set (ib_entries ib). ee_reserved (ib_store ib ! e)}, lg_queue = ib_queue ib,
      lg_claimed = {e \<in> set (ib_entries ib). ee_claim (ib_store ib ! e) \<noteq> None}\<rparr>"

lemma ledger_stepI:
  "ledger_step l m \<Longrightarrow> lg_reserved m = lg_reserved l' \<Longrightarrow> lg_queue m = lg_queue l' \<Longrightarrow>
    lg_claimed m = lg_claimed l' \<Longrightarrow> ledger_step l l'"
  by (metis (full_types) ledger.equality old.unit.exhaust)

lemma reserve_ledger:
  assumes "inv_custody ib" and "reserve bytes (Some ib) = (result, Some ib')"
  shows "ledger_step (ledger_of ib) (ledger_of ib')"
proof (cases "ib' = ib")
  case False
  then have ib': "ib_queue ib' = ib_queue ib" "ib_entries ib' = length (ib_store ib) # ib_entries ib"
    "ib_store ib' = ib_store ib @
      [\<lparr>ee_bytes = bytes, ee_result = None, ee_claim = None, ee_reserved = True\<rparr>]"
    using assms(2) by (auto simp: reserve_def Let_def split: if_splits)
  have lt: "e < length (ib_store ib)" if "e \<in> set (ib_entries ib)" for e
    using that assms(1) by (simp add: inv_custody_def)
  have "set (ib_queue ib) \<subseteq> set (ib_entries ib)" using assms(1) by (simp add: inv_custody_def)
  then have "length (ib_store ib) \<notin> set (ib_entries ib)" "length (ib_store ib) \<notin> set (ib_queue ib)"
    using lt by blast+
  then show ?thesis
    by (intro ledger_stepI [OF lg_take [of "length (ib_store ib)"]])
      (auto simp: ledger_of_def ib' nth_append dest: lt)
qed (simp add: lg_idle)

lemma abort_ledger:
  assumes "inv_custody ib" and "e \<in> set (ib_entries ib)"
  shows "ledger_step (ledger_of ib) (ledger_of (evidence_abort e ib))"
proof (cases "ee_reserved (ib_store ib ! e)")
  case True
  then show ?thesis
    using assms by (intro ledger_stepI [OF lg_cancel [of e]])
      (auto simp: ledger_of_def evidence_abort_def store_nth inv_custody_def)
qed (simp add: evidence_abort_def lg_idle)

lemma commit_ledger:
  assumes "inv_custody ib" and "e \<in> set (ib_entries ib)" and "ee_reserved (ib_store ib ! e)"
  shows "ledger_step (ledger_of ib) (ledger_of (evidence_commit e result ib))"
  using assms by (intro ledger_stepI [OF lg_admit [of e]])
    (auto simp: ledger_of_def evidence_commit_def store_nth inv_custody_def)

lemma next_ledger:
  assumes "inv_custody ib" and "inbox_next ended releasedOnly ctx (Some ib) = (result, Some ib')"
  shows "ledger_step (ledger_of ib) (ledger_of ib')"
proof (cases "ib' = ib")
  case False
  with assms(2) obtain e P where "List.find P (ib_queue ib) = Some e" and ib': "ib' =
      ib\<lparr>ib_queue := remove1 e (ib_queue ib),
        ib_store := (ib_store ib)[e := (ib_store ib ! e)\<lparr>ee_claim := Some (length (ib_claims ib))\<rparr>],
        ib_claims := ib_claims ib @ [\<lparr>dl_entry = Some e, dl_result = ee_result (ib_store ib ! e)\<rparr>]\<rparr>"
    by (auto simp: inbox_next_def Let_def split: option.splits if_splits)
  then have "e \<in> set (ib_queue ib)" by (metis find_Some_iff nth_mem)
  then show ?thesis
    using assms(1) by (intro ledger_stepI [OF lg_claim [of e]])
      (auto simp: ledger_of_def ib' store_nth inv_custody_def)
qed (simp add: lg_idle)

lemma end_ledger:
  assumes "inbox_inv ib" and "c < length (ib_claims ib)"
  shows "ledger_step (ledger_of ib) (ledger_of (snd (delivery_end ended retry (Some c) ib)))"
proof -
  have at: "e \<in> set (ib_entries ib)" "ee_claim (ib_store ib ! e) = Some c" "e < length (ib_store ib)"
    "distinct (ib_entries ib)" if "holds ib c e" for e
    using that inbox_invD(1, 2) [OF assms(1)] by (auto simp: inv_claims_def inv_custody_def)
  from assms show ?thesis
  proof (cases rule: delivery_end_cases [where ended = ended and retry = retry])
    case (requeued e)
    then show ?thesis
      using at by (intro ledger_stepI [OF lg_return [of e]]) (auto simp: ledger_of_def store_nth)
  next
    case (freed e)
    then show ?thesis
      using at inbox_invD(1) [OF assms(1)] by (intro ledger_stepI [OF lg_discharge [of e]])
        (auto simp: ledger_of_def store_nth inv_custody_def)
  qed (simp add: lg_idle)
qed

text \<open>C22: an inbox implements the custody ledger. Every step of the code from a reachable state takes at most
  one record from one place to the next: a free record is reserved, a reservation is cancelled or joins
  the end of the queue, a queued record is claimed, and a claimed one goes back to the end of the queue
  or is discharged; nothing else moves.\<close>

theorem inbox_refines_ledger:
  assumes "reach inbox_initial inbox_step ib" and "inbox_step ib ib'"
  shows "ledger_step (ledger_of ib) (ledger_of ib')"
proof -
  have inv: "inbox_inv ib" by (rule inboxes.reach_inv [OF assms(1)])
  note custody = inbox_invD(1) [OF inv]
  from assms(2) show ?thesis
  proof cases
    case (ib_reserve bytes result)
    then show ?thesis using reserve_ledger [OF custody] by blast
  next
    case (ib_abort e)
    then show ?thesis using abort_ledger [OF custody] by blast
  next
    case (ib_commit e result)
    then show ?thesis using commit_ledger [OF custody] by blast
  next
    case (ib_next ended releasedOnly ctx result)
    then show ?thesis using next_ledger [OF custody] by blast
  next
    case (ib_seal result)
    then have "ledger_of ib' = ledger_of ib" by (auto simp: Inbox_Seal_def ledger_of_def)
    then show ?thesis by (simp add: lg_idle)
  next
    case (ib_end c ended retry)
    then show ?thesis using end_ledger [OF inv] by blast
  qed
qed

section \<open>A delivered record\<close>

definition ex_entry :: "'r evidenceEntry" where
  "ex_entry = \<lparr>ee_bytes = 5, ee_result = None, ee_claim = None, ee_reserved = True\<rparr>"

definition ex_inbox :: "'r inbox" where
  "ex_inbox = \<lparr>ib_options = \<lparr>ev_capacity = 2, ev_max_bytes = 10\<rparr>, ib_closed = False, ib_outstanding = 0,
     ib_bytes = 0, ib_pending = 0, ib_queue = [], ib_entries = [], ib_store = [], ib_claims = []\<rparr>"

definition ex_queued :: "nat inbox" where
  "ex_queued = ex_inbox\<lparr>ib_outstanding := 1, ib_bytes := 5, ib_queue := [0], ib_entries := [0],
     ib_store := [ex_entry\<lparr>ee_result := Some 7, ee_reserved := False\<rparr>]\<rparr>"

definition ex_claimed :: "nat inbox" where
  "ex_claimed = ex_queued\<lparr>ib_queue := [],
     ib_store := [ex_entry\<lparr>ee_result := Some 7, ee_reserved := False, ee_claim := Some 0\<rparr>],
     ib_claims := [\<lparr>dl_entry = Some 0, dl_result = Some 7\<rparr>]\<rparr>"

lemmas ex_inbox_defs = ex_entry_def ex_inbox_def ex_queued_def ex_claimed_def

lemma ex_inbox_start: "inbox_initial ex_inbox"
  unfolding inbox_initial_def
  by (rule exI [of _ "\<lparr>ev_capacity = 2, ev_max_bytes = 10\<rparr>"])
    (simp add: NewInbox_def ex_inbox_defs default_to_def Let_def)

lemma ex_claim_step:
  "inbox_next (\<lambda>_. False) False (Some live_ctx) (Some ex_queued) = (Some (Inr 0), Some ex_claimed)"
  by (simp add: inbox_next_def ex_inbox_defs live_ctx_def Let_def)

lemma ex_queued_reached: "reach inbox_initial inbox_step ex_queued"
proof -
  let ?reserved = "ex_inbox\<lparr>ib_outstanding := 1, ib_pending := 1, ib_bytes := 5, ib_entries := [0],
    ib_store := [ex_entry]\<rparr>"
  have "reserve 5 (Some ex_inbox) = (Inr 0, Some ?reserved)" by (simp add: reserve_def ex_inbox_defs Let_def)
  then have "inbox_step ex_inbox ?reserved" by (rule ib_reserve)
  moreover have "inbox_step ?reserved (evidence_commit 0 7 ?reserved)"
    by (rule ib_commit) (simp_all add: ex_inbox_defs)
  moreover have "evidence_commit 0 7 ?reserved = ex_queued" by (simp add: evidence_commit_def ex_inbox_defs)
  ultimately show ?thesis
    using reach_step [where step = inbox_step, OF reach_step [where step = inbox_step,
        OF reach_initial [where initial = inbox_initial and step = inbox_step, OF ex_inbox_start]]] by metis
qed

lemma ex_claimed_reached: "reach inbox_initial inbox_step ex_claimed"
  by (rule reach_step [where step = inbox_step, OF ex_queued_reached ib_next [OF ex_claim_step]])

theorem inbox_custody_exact_witness:
  "Inbox_Inspect (Some ex_claimed) = Inr \<lparr>es_outstanding = 1, es_queued = 0, es_claimed = 1,
      es_reserved = 0, es_bytes = 5, es_closed = False\<rparr> \<and>
    card {c. \<exists>e. holds ex_claimed c e} = 1"
proof -
  have status: "Inbox_Inspect (Some ex_claimed) = Inr \<lparr>es_outstanding = 1, es_queued = 0, es_claimed = 1,
      es_reserved = 0, es_bytes = 5, es_closed = False\<rparr>"
    by (simp add: Inbox_Inspect_def ex_inbox_defs)
  from inbox_custody_exact [OF ex_claimed_reached status] show ?thesis by (simp add: status)
qed

theorem delivery_settles_once_witness:
  "fst (delivery_end (\<lambda>r. r = 7) False (Some 0) ex_claimed) = None \<and>
    ib_outstanding (snd (delivery_end (\<lambda>r. r = 7) False (Some 0) ex_claimed)) = 0"
proof -
  have "holds ex_claimed 0 0" "dl_result (ib_claims ex_claimed ! 0) = Some 7"
    by (simp_all add: holds_def ex_inbox_defs)
  from delivery_settles_once [OF ex_claimed_reached this, of "\<lambda>r. r = 7" False]
  show ?thesis by (cases "delivery_end (\<lambda>r. r = 7) False (Some 0) ex_claimed") (simp add: ex_inbox_defs)
qed

theorem DeliverOne_no_loss_witness:
  "\<exists>err ib'. DeliverOne (\<lambda>_. False) True (Some live_ctx) (Some err) live_ctx None ex_queued =
      (Some (Some err), ib') \<and> ib_entries ib' = [0] \<and> ib_queue ib' = [0]"
proof -
  let ?err = "failureOf operation_ErrWait ''wait'' [] no_operation []"
  let ?out = "DeliverOne (\<lambda>_. False) True (Some live_ctx) (Some ?err) live_ctx None ex_queued"
  have out: "?out = (Some (Some ?err), snd (Delivery_Retry (\<lambda>_. False) (Some 0) ex_claimed))"
    by (simp add: DeliverOne_def Inbox_Next_def ex_claim_step)
  have "ib_entries (snd ?out) = ib_entries ex_queued"
    using DeliverOne_no_loss [OF ex_queued_reached out] by (simp add: out)
  moreover have "ib_queue (snd ?out) = [0]"
    unfolding out by (simp add: Delivery_Retry_def delivery_end_def ex_inbox_defs Let_def)
  ultimately show ?thesis using out by (auto simp: ex_inbox_defs)
qed

theorem inbox_refines_ledger_witness:
  "ledger_step \<lparr>lg_reserved = {}, lg_queue = [0], lg_claimed = {}\<rparr>
     \<lparr>lg_reserved = {}, lg_queue = [], lg_claimed = {0}\<rparr>"
  using inbox_refines_ledger [OF ex_queued_reached ib_next [OF ex_claim_step]]
  by (simp add: ledger_of_def ex_inbox_defs Collect_conv_if)

end
