(* ===== verification/Operation_Begin.thy ===== *)
theory Operation_Begin
  imports Operation_Steps Operation_Evidence
begin

text \<open>
  Admission of operations in \<^verbatim>\<open>adapters/v1/call.go\<close>, \<^verbatim>\<open>lifetime.go\<close> and \<^verbatim>\<open>ownership.go\<close>: endpoints, the
  sections of \<^verbatim>\<open>beginContexts\<close>, and the runtimes together with the inboxes that receive their evidence. Runtimes
  and inboxes are named by numbers, and several runtimes may report to one inbox; an operation is named by its
  runtime and its node. A caller between the sections is an admission with the section it has reached.
\<close>

section \<open>Endpoints\<close>

record endpoint =
  ep_runtime :: nat
  ep_inbox :: nat
  ep_observer :: "nat option"

text \<open>The runtime, with its number, and the declaration of \<^verbatim>\<open>Bind\<close>: whether it has a copy function, its inbox (\<open>None\<close> for a nil or zero one)
  and its observer (\<open>Some None\<close> for a zero one).\<close>

definition Endpoint_Bind :: "(nat \<times> 'v runtime) option \<Rightarrow> bool \<Rightarrow> nat option \<Rightarrow> nat option option \<Rightarrow> gerr + endpoint" where
  "Endpoint_Bind runtime copy evidence observer =
     (case runtime of
        None \<Rightarrow> Inl (failureOf operation_ErrHandle ''bind'' [] no_operation [])
      | Some (k, rt) \<Rightarrow>
          if \<not> copy \<or> evidence = None \<or> observer = Some None
          then Inl (failureOf operation_ErrOptions ''bind'' [] no_operation [])
          else if runtime_stopped (rn_gate rt)
          then Inl (failureOf operation_ErrClosed ''bind'' (rn_name rt) no_operation [])
          else Inr \<lparr>ep_runtime = k, ep_inbox = the evidence, ep_observer = Option.bind observer (\<lambda>obs. obs)\<rparr>)"

text \<open>Runtimes compared by identity.\<close>

definition UsesRuntime :: "endpoint option \<Rightarrow> nat option \<Rightarrow> bool" where
  "UsesRuntime endpoint runtime = (endpoint \<noteq> None \<and> runtime \<noteq> None \<and> ep_runtime (the endpoint) = the runtime)"

section \<open>Contexts of an admission\<close>

text \<open>The context \<^verbatim>\<open>admissionLifetime\<close> derives: it ends with \<open>ctx\<close>, or with the joined errors of the lifetime.\<close>

definition admissionLifetime :: "go_ctx \<Rightarrow> go_ctx \<Rightarrow> go_ctx" where
  "admissionLifetime ctx lifetime =
     (if ctx_err ctx \<noteq> None then ctx
      else if ctx_err lifetime \<noteq> None
      then cancel_ctx (errors_join [ctx_err lifetime, ctx_cause lifetime]) ctx
      else ctx)"

section \<open>Admissions\<close>

datatype begin_stage = Reserved | InQueue nat | Permitted | Failed gerr | Accepted nat | Refused gerr

record caller =
  ad_endpoint :: endpoint
  ad_request :: Request
  ad_parent :: "nat option"
  ad_entry :: nat
  ad_stage :: begin_stage

record 'v world =
  wd_runtimes :: "nat \<Rightarrow> 'v runtime"
  wd_inboxes :: "(nat \<times> nat) inbox list"
  wd_admissions :: "caller list"

text \<open>A scope: none, or a node of a runtime.\<close>

datatype parent_scope = NoParent | ChildOf nat nat

definition scope_node :: "parent_scope \<Rightarrow> nat option" where
  "scope_node parent = (case parent of NoParent \<Rightarrow> None | ChildOf k n \<Rightarrow> Some n)"

definition set_stage :: "nat \<Rightarrow> begin_stage \<Rightarrow> 'v world \<Rightarrow> 'v world" where
  "set_stage a stage w =
     w\<lparr>wd_admissions := (wd_admissions w)[a := (wd_admissions w ! a)\<lparr>ad_stage := stage\<rparr>]\<rparr>"

definition foreign_scope :: "parent_scope \<Rightarrow> nat \<Rightarrow> bool" where
  "foreign_scope parent k = (case parent of NoParent \<Rightarrow> False | ChildOf k' n \<Rightarrow> k' \<noteq> k)"

text \<open>\<^verbatim>\<open>beginContexts\<close> up to the reservation of its evidence.\<close>

definition begin_reserve ::
  "endpoint option \<Rightarrow> go_ctx option \<Rightarrow> go_ctx option \<Rightarrow> Request \<Rightarrow> parent_scope \<Rightarrow> 'v world \<Rightarrow>
     (gerr + nat) \<times> 'v world" where
  "begin_reserve endpoint ctx lifetime request parent w =
     (case endpoint of
        None \<Rightarrow> (Inl (failureOf operation_ErrHandle ''begin'' [] no_operation []), w)
      | Some ep \<Rightarrow>
          (let name = rn_name (wd_runtimes w (ep_runtime ep)) in
           if ctx = None \<or> lifetime = None \<or> \<not> validRequest request (parent \<noteq> NoParent)
           then (Inl (failureOf operation_ErrRequest ''begin'' name no_operation []), w)
           else if foreign_scope parent (ep_runtime ep)
           then (Inl (failureOf operation_ErrHandle ''child'' name no_operation []), w)
           else if ctx_err (the ctx) \<noteq> None
           then (Inl (failureOf operation_ErrWait ''begin'' name no_operation
             [ctx_err (the ctx), ctx_cause (the ctx)]), w)
           else
             (case reserve (req_evidence_bytes request) (Some (wd_inboxes w ! ep_inbox ep)) of
                (Inl err, _) \<Rightarrow> (Inl err, w)
              | (Inr entry, ib) \<Rightarrow>
                  (Inr (length (wd_admissions w)),
                   w\<lparr>wd_inboxes := (wd_inboxes w)[ep_inbox ep := the ib],
                     wd_admissions := wd_admissions w @
                       [\<lparr>ad_endpoint = ep, ad_request = request, ad_parent = scope_node parent,
                         ad_entry = entry, ad_stage = Reserved\<rparr>]\<rparr>))))"

text \<open>The first section of \<^verbatim>\<open>acquire\<close> for a root; a child needs no permit of its own.\<close>

definition begin_acquire :: "go_ctx \<Rightarrow> nat \<Rightarrow> 'v world \<Rightarrow> 'v world" where
  "begin_acquire ctx a w =
     (let ad = wd_admissions w ! a; k = ep_runtime (ad_endpoint ad); rt = wd_runtimes w k in
      if ad_parent ad \<noteq> None then set_stage a Permitted w
      else
        (case acquire_enter ctx (req_work_bytes (ad_request ad)) (rn_gate rt) of
           (result, g) \<Rightarrow>
             set_stage a (case result of Inl err \<Rightarrow> Failed err | Inr None \<Rightarrow> Permitted | Inr (Some p) \<Rightarrow> InQueue p)
               (w\<lparr>wd_runtimes := (wd_runtimes w)(k := rt\<lparr>rn_gate := g\<rparr>)\<rparr>)))"

definition begin_wait :: "nat \<Rightarrow> nat \<Rightarrow> 'v world \<Rightarrow> 'v world" where
  "begin_wait p a w =
     (let k = ep_runtime (ad_endpoint (wd_admissions w ! a)); rt = wd_runtimes w k in
      case acquire_return p (rn_gate rt) of
        (None, _) \<Rightarrow> w
      | (Some result, g) \<Rightarrow>
          set_stage a (case result of None \<Rightarrow> Permitted | Some err \<Rightarrow> Failed err)
            (w\<lparr>wd_runtimes := (wd_runtimes w)(k := rt\<lparr>rn_gate := g\<rparr>)\<rparr>))"

text \<open>The section that creates the node and commits its evidence, or gives the permit back.\<close>

definition begin_commit :: "go_ctx \<Rightarrow> go_ctx \<Rightarrow> nat \<Rightarrow> 'v world \<Rightarrow> 'v world" where
  "begin_commit ctx lifetime a w =
     (let ad = wd_admissions w ! a; k = ep_runtime (ad_endpoint ad); rt = wd_runtimes w k; request = ad_request ad;
          i = ep_inbox (ad_endpoint ad); observer = ep_observer (ad_endpoint ad)
      in case (if ctx_err ctx \<noteq> None
               then (Inl (failureOf operation_ErrWait ''begin'' (rn_name rt) no_operation
                 [ctx_err ctx, ctx_cause ctx]), rt)
               else newNodeLocked lifetime request (ad_parent ad) observer rt) of
           (Inl err, _) \<Rightarrow>
             set_stage a (Failed err)
               (if ad_parent ad = None
                then w\<lparr>wd_runtimes := (wd_runtimes w)
                  (k := rt\<lparr>rn_gate := releasePermitLocked (req_work_bytes request) (rn_gate rt)\<rparr>)\<rparr>
                else w)
         | (Inr n, rt') \<Rightarrow>
             set_stage a (Accepted n)
               (w\<lparr>wd_runtimes := (wd_runtimes w)(k := publish_event observer
                    \<lparr>event_operation = req_operation request, event_phase = Admitted, event_failed = False\<rparr> rt'),
                  wd_inboxes := (wd_inboxes w)[i := evidence_commit (ad_entry ad) (k, n) (wd_inboxes w ! i)]\<rparr>))"

definition begin_abort :: "gerr \<Rightarrow> nat \<Rightarrow> 'v world \<Rightarrow> 'v world" where
  "begin_abort err a w =
     (let ad = wd_admissions w ! a; i = ep_inbox (ad_endpoint ad) in
      set_stage a (Refused err)
        (w\<lparr>wd_inboxes := (wd_inboxes w)[i := evidence_abort (ad_entry ad) (wd_inboxes w ! i)]\<rparr>))"

section \<open>Entry points\<close>

text \<open>\<^verbatim>\<open>Run\<close>, \<^verbatim>\<open>Start\<close>, \<^verbatim>\<open>Child\<close>, \<^verbatim>\<open>StartChild\<close>, the retained variants and \<^verbatim>\<open>Using\<close> up to their admission.\<close>

definition Endpoint_begin ::
  "endpoint option \<Rightarrow> go_ctx option \<Rightarrow> Request \<Rightarrow> parent_scope \<Rightarrow> 'v world \<Rightarrow> (gerr + nat) \<times> 'v world" where
  "Endpoint_begin endpoint ctx request parent w = begin_reserve endpoint ctx ctx request parent w"

definition Endpoint_Run ::
  "bool \<Rightarrow> endpoint option \<Rightarrow> go_ctx option \<Rightarrow> Request \<Rightarrow> 'v world \<Rightarrow> (gerr + nat) \<times> 'v world" where
  "Endpoint_Run producer endpoint ctx request w =
     (if \<not> producer then (Inl (failureOf operation_ErrOptions ''run'' [] no_operation []), w)
      else Endpoint_begin endpoint ctx request NoParent w)"

definition Endpoint_Start ::
  "bool \<Rightarrow> endpoint option \<Rightarrow> go_ctx option \<Rightarrow> Request \<Rightarrow> 'v world \<Rightarrow> (gerr + nat) \<times> 'v world" where
  "Endpoint_Start producer endpoint ctx request w =
     (if \<not> producer then (Inl (failureOf operation_ErrOptions ''start'' [] no_operation []), w)
      else Endpoint_begin endpoint ctx request NoParent w)"

definition Endpoint_Child ::
  "bool \<Rightarrow> endpoint option \<Rightarrow> go_ctx option \<Rightarrow> parent_scope \<Rightarrow> Request \<Rightarrow> 'v world \<Rightarrow> (gerr + nat) \<times> 'v world" where
  "Endpoint_Child producer endpoint ctx parent request w =
     (if parent = NoParent \<or> \<not> producer
      then (Inl (failureOf operation_ErrHandle ''child'' [] no_operation []), w)
      else Endpoint_begin endpoint ctx request parent w)"

definition Endpoint_StartChild ::
  "bool \<Rightarrow> endpoint option \<Rightarrow> go_ctx option \<Rightarrow> parent_scope \<Rightarrow> Request \<Rightarrow> 'v world \<Rightarrow> (gerr + nat) \<times> 'v world" where
  "Endpoint_StartChild producer endpoint ctx parent request w =
     (if parent = NoParent \<or> \<not> producer
      then (Inl (failureOf operation_ErrHandle ''child'' [] no_operation []), w)
      else Endpoint_begin endpoint ctx request parent w)"

definition Endpoint_retained ::
  "bool \<Rightarrow> endpoint option \<Rightarrow> go_ctx option \<Rightarrow> go_ctx option \<Rightarrow> parent_scope \<Rightarrow> Request \<Rightarrow> 'v world \<Rightarrow>
     (gerr + nat) \<times> 'v world" where
  "Endpoint_retained producer endpoint ctx lifetime parent request w =
     (if \<not> producer \<or> ctx = None \<or> lifetime = None
      then (Inl (failureOf operation_ErrOptions ''retained'' [] no_operation []), w)
      else begin_reserve endpoint (Some (admissionLifetime (the ctx) (the lifetime))) lifetime request parent w)"

definition RunWithLifetime ::
  "bool \<Rightarrow> endpoint option \<Rightarrow> go_ctx option \<Rightarrow> go_ctx option \<Rightarrow> Request \<Rightarrow> 'v world \<Rightarrow> (gerr + nat) \<times> 'v world" where
  "RunWithLifetime producer endpoint ctx lifetime request w =
     Endpoint_retained producer endpoint ctx lifetime NoParent request w"

definition ChildWithLifetime ::
  "bool \<Rightarrow> endpoint option \<Rightarrow> go_ctx option \<Rightarrow> go_ctx option \<Rightarrow> parent_scope \<Rightarrow> Request \<Rightarrow> 'v world \<Rightarrow>
     (gerr + nat) \<times> 'v world" where
  "ChildWithLifetime producer endpoint ctx lifetime parent request w =
     (if parent = NoParent then (Inl (failureOf operation_ErrHandle ''child'' [] no_operation []), w)
      else Endpoint_retained producer endpoint ctx lifetime parent request w)"

definition usingContexts ::
  "bool \<Rightarrow> endpoint option \<Rightarrow> go_ctx option \<Rightarrow> go_ctx option \<Rightarrow> Request \<Rightarrow> 'v world \<Rightarrow> (gerr + nat) \<times> 'v world" where
  "usingContexts producer endpoint ctx lifetime request w =
     (if \<not> producer then (Inl (failureOf operation_ErrOptions ''using'' [] no_operation []), w)
      else begin_reserve endpoint ctx lifetime request NoParent w)"

definition Using ::
  "bool \<Rightarrow> endpoint option \<Rightarrow> go_ctx option \<Rightarrow> Request \<Rightarrow> 'v world \<Rightarrow> (gerr + nat) \<times> 'v world" where
  "Using producer endpoint ctx request w = usingContexts producer endpoint ctx ctx request w"

definition StartUsing ::
  "bool \<Rightarrow> endpoint option \<Rightarrow> go_ctx option \<Rightarrow> Request \<Rightarrow> 'v world \<Rightarrow> (gerr + nat) \<times> 'v world" where
  "StartUsing producer endpoint ctx request w = usingContexts producer endpoint ctx ctx request w"

definition UsingWithLifetime ::
  "bool \<Rightarrow> endpoint option \<Rightarrow> go_ctx option \<Rightarrow> go_ctx option \<Rightarrow> Request \<Rightarrow> 'v world \<Rightarrow> (gerr + nat) \<times> 'v world" where
  "UsingWithLifetime producer endpoint ctx lifetime request w =
     (if ctx = None \<or> lifetime = None \<or> \<not> producer
      then (Inl (failureOf operation_ErrOptions ''using'' [] no_operation []), w)
      else usingContexts producer endpoint (Some (admissionLifetime (the ctx) (the lifetime))) lifetime request w)"

text \<open>The producer's turn: \<^verbatim>\<open>dispatch\<close> settles the call itself when the runtime has stopped or the call is
  cancelled; \<open>None\<close> when it runs the producer.\<close>

definition dispatch_refusal :: "nat \<Rightarrow> 'v runtime \<Rightarrow> 'v Outcome option" where
  "dispatch_refusal n rt =
     (let nd = rn_nodes rt ! n; cause = cancellation (rn_nodes rt) n; base = rt_base (rn_gate rt) in
      if runtime_stopped (rn_gate rt) \<or> cause \<noteq> None
      then Some \<lparr>out_value = None, out_primary = Some (failureOf operation_ErrClosed (req_operation (nd_request nd))
          (rn_name rt) (no_operation\<lparr>operation_sequence := nd_sequence nd\<rparr>) [cause, ctx_err base, ctx_cause base]),
        out_cleanup = None\<rparr>
      else None)"

text \<open>\<^verbatim>\<open>using\<close>'s producer: what it settles when the lease or its value is refused or the call is over, and
  the source it records.\<close>

definition using_source_error :: "gerr \<Rightarrow> nat \<Rightarrow> 'v runtime \<Rightarrow> 'v Outcome" where
  "using_source_error err n rt =
     (let nd = rn_nodes rt ! n in
      \<lparr>out_value = None, out_primary = Some (failureOf operation_ErrSource (req_operation (nd_request nd))
          (rn_name rt) (no_operation\<lparr>operation_sequence := nd_sequence nd\<rparr>) [Some err]),
       out_cleanup = None\<rparr>)"

definition using_capture :: "string \<Rightarrow> nat \<Rightarrow> nat \<Rightarrow> nat \<Rightarrow> 'v runtime \<Rightarrow> 'v runtime" where
  "using_capture name generation lease n rt =
     update_node n (\<lambda>nd. nd\<lparr>nd_source := \<lparr>src_name = name, src_generation = generation\<rparr>,
       nd_release := LeaseRelease lease\<rparr>) rt"

definition using_refusal :: "gerr option \<Rightarrow> nat \<Rightarrow> 'v runtime \<Rightarrow> 'v Outcome option" where
  "using_refusal failed n rt =
     (let nd = rn_nodes rt ! n; ctx = nd_ctx nd in
      if failed \<noteq> None then Some (using_source_error (the failed) n rt)
      else if runtime_stopped (rn_gate rt) \<or> ctx_err ctx \<noteq> None
      then Some \<lparr>out_value = None, out_primary = Some (failureOf operation_ErrClosed (req_operation (nd_request nd))
          (rn_name rt) (no_operation\<lparr>operation_sequence := nd_sequence nd\<rparr>) [ctx_err ctx, ctx_cause ctx]),
        out_cleanup = None\<rparr>
      else None)"

end
