(* ===== verification/Operation_Handles.thy ===== *)
theory Operation_Handles
  imports Operation_Begin Resource_Handles
begin

text \<open>
  The handles of \<^verbatim>\<open>adapters/v1\<close>: what a \<^verbatim>\<open>Call\<close> gives away of its operation, and the renderings of every handle type
  in \<^verbatim>\<open>diagnostics.go\<close>.
\<close>

section \<open>Calls\<close>

text \<open>A nil or zero call is \<open>None\<close>.\<close>

definition Call_Scope :: "(nat \<times> nat) option \<Rightarrow> parent_scope" where
  "Call_Scope call = (case call of None \<Rightarrow> NoParent | Some (k, n) \<Rightarrow> ChildOf k n)"

definition Call_Receipt :: "(nat \<times> nat) option \<Rightarrow> (nat \<times> nat) option" where
  "Call_Receipt call = call"

section \<open>Rendering\<close>

datatype operation_handle =
    HRuntime | HEndpoint | HCall | HCallScope | HGuard | HReceipt | HSnapshot | HInbox | HDelivery
  | HDeclaration | HOutcome | HObserver | HInfo | HRequest

definition opaque_operation :: "string \<Rightarrow> handle_methods" where
  "opaque_operation name =
     \<lparr>hm_format = formatHandle name, hm_string = name, hm_gostring = name, hm_logvalue = LogString name,
      hm_marshal = Inl (failureOf operation_ErrSerialization ''marshal'' [] no_operation []),
      hm_unmarshal = (\<lambda>_. Some (failureOf operation_ErrSerialization ''unmarshal'' [] no_operation []))\<rparr>"

fun operation_methods :: "operation_handle \<Rightarrow> handle_methods" where
  "operation_methods HRuntime = opaque_operation ''adapters.Runtime''"
| "operation_methods HEndpoint = opaque_operation ''adapters.Endpoint''"
| "operation_methods HCall = opaque_operation ''adapters.Call''"
| "operation_methods HCallScope = opaque_operation ''adapters.Scope''"
| "operation_methods HGuard = opaque_operation ''adapters.Guard''"
| "operation_methods HReceipt = opaque_operation ''adapters.Receipt''"
| "operation_methods HSnapshot = opaque_operation ''adapters.Snapshot''"
| "operation_methods HInbox = opaque_operation ''adapters.Inbox''"
| "operation_methods HDelivery = opaque_operation ''adapters.Delivery''"
| "operation_methods HDeclaration = opaque_operation ''adapters.Declaration''"
| "operation_methods HOutcome = opaque_operation ''adapters.Outcome''"
| "operation_methods HObserver = opaque_operation ''adapters.Observer''"
| "operation_methods HInfo = opaque_operation ''adapters.Info''"
| "operation_methods HRequest = opaque_operation ''adapters.Request''"

end
