(* ===== verification/Operation_Receipt.thy ===== *)
theory Operation_Receipt
  imports Operation_Steps
begin

text \<open>
  The read side of \<^verbatim>\<open>adapters/v1/call.go\<close>: receipts, snapshots and what they report.
\<close>

section \<open>Model\<close>

record Info =
  info_runtime :: string
  info_operation :: string
  info_id :: string
  info_sequence :: nat
  info_parent :: nat
  info_depth :: int
  info_source :: Source
  info_resolved :: bool
  info_released :: bool

definition infoLocked :: "nat \<Rightarrow> 'v runtime \<Rightarrow> Info" where
  "infoLocked n rt =
     (let nd = rn_nodes rt ! n in
      \<lparr>info_runtime = rn_name rt, info_operation = req_operation (nd_request nd), info_id = req_id (nd_request nd),
       info_sequence = nd_sequence nd, info_parent = parent_sequence (rn_nodes rt) n, info_depth = nd_depth nd,
       info_source = nd_source nd, info_resolved = nd_resolved nd, info_released = nd_released nd\<rparr>)"

text \<open>A snapshot that is not \<open>snap_valid\<close> is the zero one.\<close>

record 'v Snapshot =
  snap_info :: Info
  snap_outcome :: "'v Outcome"
  snap_copy :: "'v \<Rightarrow> 'v"
  snap_valid :: bool

definition zero_snapshot :: "'v Snapshot" where
  "zero_snapshot =
     \<lparr>snap_info = \<lparr>info_runtime = [], info_operation = [], info_id = [], info_sequence = 0, info_parent = 0,
        info_depth = 0, info_source = \<lparr>src_name = [], src_generation = 0\<rparr>, info_resolved = False,
        info_released = False\<rparr>,
      snap_outcome = empty_outcome, snap_copy = (\<lambda>v. v), snap_valid = False\<rparr>"

definition Receipt_Snapshot :: "('v \<Rightarrow> 'v) \<Rightarrow> nat option \<Rightarrow> 'v runtime \<Rightarrow> 'v Snapshot \<times> bool" where
  "Receipt_Snapshot copy receipt rt =
     (case receipt of
        None \<Rightarrow> (zero_snapshot, False)
      | Some n \<Rightarrow>
          (let value = \<lparr>snap_info = infoLocked n rt, snap_outcome = nd_outcome (rn_nodes rt ! n),
             snap_copy = copy, snap_valid = True\<rparr>
           in (value, info_resolved (snap_info value))))"

text \<open>\<^verbatim>\<open>wait\<close>. Its two selects and the lock of \<^verbatim>\<open>Snapshot\<close> observe the runtime at three moments, \<open>rt0\<close>, \<open>rt1\<close>
  and \<open>rt2\<close>, and the context \<open>c\<close> at the second; when both cases of the second select are ready, \<open>pick\<close> says
  whether it takes the channel of the receipt. \<open>None\<close> while it waits.\<close>

definition receipt_wait ::
  "('v \<Rightarrow> 'v) \<Rightarrow> bool \<Rightarrow> bool \<Rightarrow> go_ctx option \<Rightarrow> nat option \<Rightarrow> 'v runtime \<Rightarrow> 'v runtime \<Rightarrow> 'v runtime \<Rightarrow>
     ('v Snapshot \<times> gerr option) option" where
  "receipt_wait copy released pick ctx receipt rt0 rt1 rt2 =
     (case receipt of
        None \<Rightarrow> Some (zero_snapshot, Some (failureOf operation_ErrHandle ''wait'' [] no_operation []))
      | Some n \<Rightarrow>
          (case ctx of
             None \<Rightarrow> Some (zero_snapshot, Some (failureOf operation_ErrOptions ''wait'' [] no_operation []))
           | Some c \<Rightarrow>
               (let ready = (\<lambda>rt. if released then nd_released (rn_nodes rt ! n) else nd_resolved (rn_nodes rt ! n));
                    value = fst (Receipt_Snapshot copy receipt rt2) in
                if ready rt0 \<or> ready rt1 \<and> (ctx_err c = None \<or> pick) then Some (value, None)
                else if ctx_err c \<noteq> None
                then Some (value, Some (failureOf operation_ErrWait ''wait'' (rn_name rt2)
                  (no_operation\<lparr>operation_sequence := nd_sequence (rn_nodes rt2 ! n),
                    operation_pending := \<not> info_released (snap_info value)\<rparr>) [ctx_err c, ctx_cause c]))
                else None)))"

definition Receipt_Wait ::
  "('v \<Rightarrow> 'v) \<Rightarrow> bool \<Rightarrow> go_ctx option \<Rightarrow> nat option \<Rightarrow> 'v runtime \<Rightarrow> 'v runtime \<Rightarrow> 'v runtime \<Rightarrow>
     ('v Snapshot \<times> gerr option) option" where
  "Receipt_Wait copy pick ctx receipt rt0 rt1 rt2 = receipt_wait copy False pick ctx receipt rt0 rt1 rt2"

definition Receipt_WaitReleased ::
  "('v \<Rightarrow> 'v) \<Rightarrow> bool \<Rightarrow> go_ctx option \<Rightarrow> nat option \<Rightarrow> 'v runtime \<Rightarrow> 'v runtime \<Rightarrow> 'v runtime \<Rightarrow>
     ('v Snapshot \<times> gerr option) option" where
  "Receipt_WaitReleased copy pick ctx receipt rt0 rt1 rt2 = receipt_wait copy True pick ctx receipt rt0 rt1 rt2"

definition Snapshot_Info :: "'v Snapshot \<Rightarrow> Info" where
  "Snapshot_Info value = snap_info value"

definition Snapshot_ValueCopy :: "'v Snapshot \<Rightarrow> 'v option" where
  "Snapshot_ValueCopy value =
     (if \<not> snap_valid value \<or> \<not> info_resolved (snap_info value) then None
      else map_option (snap_copy value) (out_value (snap_outcome value)))"

definition Snapshot_Primary :: "'v Snapshot \<Rightarrow> gerr option" where
  "Snapshot_Primary value = out_primary (snap_outcome value)"

definition Snapshot_Cleanup :: "'v Snapshot \<Rightarrow> gerr option" where
  "Snapshot_Cleanup value = out_cleanup (snap_outcome value)"

definition Snapshot_Err :: "'v Snapshot \<Rightarrow> gerr option" where
  "Snapshot_Err value =
     (let info = snap_info value; outcome = snap_outcome value in
      if \<not> snap_valid value then Some (failureOf operation_ErrHandle ''result'' [] no_operation [])
      else if \<not> info_resolved info
      then Some (failureOf operation_ErrPending ''result'' (info_runtime info)
        (no_operation\<lparr>operation_sequence := info_sequence info, operation_pending := True\<rparr>) [])
      else if out_primary outcome = None \<and> out_cleanup outcome = None then None
      else Some (failureOf operation_ErrOperation (info_operation info) (info_runtime info)
        \<lparr>operation_sequence = info_sequence info, operation_parent = info_parent info,
         operation_pending = (\<not> info_released info)\<rparr> [out_primary outcome, out_cleanup outcome]))"

section \<open>What a receipt reports\<close>

lemma publish_node:
  assumes "n < length (rn_nodes rt)"
  shows "nd_resolved (rn_nodes (snd (Resolve_publish copy outcome n rt)) ! n)"
    and "nd_outcome (rn_nodes (snd (Resolve_publish copy outcome n rt)) ! n) =
      outcome\<lparr>out_value := map_option copy (out_value outcome)\<rparr>"
  using assms by (simp_all add: Resolve_publish_def canFinishLocked_def Let_def)

text \<open>Along a run the node of a receipt evolves.\<close>

lemma receipt_evolves:
  assumes "runtime_inv (rt, entering)" and "runtime_step\<^sup>*\<^sup>* (rt, entering) (rt', entering')" and "n < length (rn_nodes rt)"
  shows "evolves (rn_nodes rt ! n) (rn_nodes rt' ! n)" and "n < length (rn_nodes rt')" and "runtime_inv (rt', entering')"
  using run_evolves [OF assms(2, 1)] assms(3) runtimes.steps_inv [OF assms(2, 1)] by (simp_all add: all_evolve_def)

text \<open>C34: a published outcome reaches its receipt. After a producer has published an outcome, and after any
  further steps of the runtime, waiting on the receipt returns without an error, whatever the context does and
  whatever happens before the snapshot is taken, and the snapshot shows that outcome: the present value, copied
  on the way in and on the way out, or its absence; the original primary error; and the original cleanup error,
  to which at most the error of releasing the source is joined, and only once the work has been released. The
  snapshot has no error exactly when both are nil.\<close>

theorem resolved_outcome_observed:
  fixes rt rt0 rt2 :: "'v runtime"
  assumes "reach runtime_initial runtime_step (rt, entering)" and "n < length (rn_nodes rt)"
    and "nd_resolving (rn_nodes rt ! n)"
    and "runtime_step\<^sup>*\<^sup>* (snd (Resolve_publish copy outcome n rt), entering) (rt0, entering0)"
    and "runtime_step\<^sup>*\<^sup>* (rt0, entering0) (rt2, entering2)"
    and "Receipt_Wait copy pick (Some ctx) (Some n) rt0 rt1 rt2 = reply"
  shows "\<exists>value. reply = Some (value, None) \<and> Receipt_Snapshot copy (Some n) rt2 = (value, True) \<and>
    Snapshot_ValueCopy value = map_option (\<lambda>v. copy (copy v)) (out_value outcome) \<and>
    Snapshot_Primary value = out_primary outcome \<and>
    (Snapshot_Cleanup value = out_cleanup outcome \<or> info_released (Snapshot_Info value) \<and>
      (\<exists>err. Snapshot_Cleanup value = errors_join [out_cleanup outcome, Some err])) \<and>
    (Snapshot_Err value = None \<longleftrightarrow> out_primary outcome = None \<and> Snapshot_Cleanup value = None)"
proof -
  let ?mid = "snd (Resolve_publish copy outcome n rt)" and ?nd = "\<lambda>rt. rn_nodes rt ! n"
  have step: "runtime_step (rt, entering) (?mid, entering)" by (rule ru_publish [OF assms(2, 3)])
  have inv: "runtime_inv (?mid, entering)" by (rule step_runtime_inv [OF step runtimes.reach_inv [OF assms(1)]])
  have n: "n < length (rn_nodes ?mid)"
    using step_evolves [OF step runtimes.reach_inv [OF assms(1)]] assms(2) by (simp add: all_evolve_def)
  note first = receipt_evolves [OF inv assms(4) n]
  note both = evolves_trans [OF first(1) receipt_evolves(1) [OF first(3) assms(5) first(2)]]
  note published = publish_node [OF assms(2), of copy outcome]
  have "nd_resolved (?nd rt0)" using first(1) published(1) by (simp add: evolves_def)
  moreover have "nd_resolved (?nd rt2)" "out_value (nd_outcome (?nd rt2)) = map_option copy (out_value outcome)"
    "out_primary (nd_outcome (?nd rt2)) = out_primary outcome"
    "out_cleanup (nd_outcome (?nd rt2)) = out_cleanup outcome \<or> nd_released (?nd rt2) \<and>
      (\<exists>err. out_cleanup (nd_outcome (?nd rt2)) = errors_join [out_cleanup outcome, Some err])"
    using both published unfolding evolves_def by simp_all
  ultimately show ?thesis
    using assms(6) by (auto simp: Receipt_Wait_def receipt_wait_def Receipt_Snapshot_def Let_def infoLocked_def Snapshot_Info_def
        Snapshot_ValueCopy_def Snapshot_Primary_def Snapshot_Err_def Snapshot_Cleanup_def option.map_comp comp_def)
qed

text \<open>C35: \<^verbatim>\<open>WaitReleased\<close> joins the work. Let its selects and its snapshot observe a reachable runtime at three
  moments of a run. When it returns without an error, the snapshot is resolved and released, this operation and
  every one below it had been released by then, with no stack running and no guard held, and no later step
  changes the outcome the snapshot shows. Its only error is the end of its own context; that error and the snapshot agree on whether the work is
  still pending, and the work may be released by then. It keeps waiting only while its context lives and the
  work was not released when it looked.\<close>

theorem wait_released_joins:
  fixes rt0 rt1 rt2 rt3 :: "'v runtime"
  assumes "reach runtime_initial runtime_step (rt0, entering0)" and "n < length (rn_nodes rt0)"
    and "runtime_step\<^sup>*\<^sup>* (rt0, entering0) (rt1, entering1)" and "runtime_step\<^sup>*\<^sup>* (rt1, entering1) (rt2, entering2)"
    and "runtime_step\<^sup>*\<^sup>* (rt2, entering2) (rt3, entering3)"
    and "Receipt_WaitReleased copy pick (Some ctx) (Some n) rt0 rt1 rt2 = reply"
  shows "case reply of
      None \<Rightarrow> \<not> nd_released (rn_nodes rt1 ! n) \<and> ctx_err ctx = None
    | Some (value, None) \<Rightarrow>
        info_resolved (Snapshot_Info value) \<and> info_released (Snapshot_Info value) \<and>
        snap_outcome value = nd_outcome (rn_nodes rt3 ! n) \<and>
        (\<forall>m. (m, n) \<in> (child_of (rn_nodes rt2))\<^sup>* \<longrightarrow> nd_released (rn_nodes rt2 ! m) \<and> \<not> nd_running (rn_nodes rt2 ! m) \<and>
           (\<forall>k < length (rn_guards rt2). rn_guards rt2 ! k \<notin> {GuardOpen m, GuardLeaving m}))
    | Some (value, Some err) \<Rightarrow>
        ctx_err ctx \<noteq> None \<and> value = fst (Receipt_Snapshot copy (Some n) rt2) \<and>
        err = failureOf operation_ErrWait ''wait'' (rn_name rt2)
          \<lparr>operation_sequence = Suc n, operation_parent = 0, operation_pending = (\<not> nd_released (rn_nodes rt2 ! n))\<rparr>
          [ctx_err ctx, ctx_cause ctx]"
proof -
  let ?nd = "\<lambda>rt. rn_nodes rt ! n"
  note first = receipt_evolves [OF runtimes.reach_inv [OF assms(1)] assms(3, 2)]
  note second = receipt_evolves [OF first(3) assms(4) first(2)]
  note third = receipt_evolves [OF second(3) assms(5) second(2)]
  have released: "nd_released (?nd rt0) \<Longrightarrow> nd_released (?nd rt1)" "nd_released (?nd rt1) \<Longrightarrow> nd_released (?nd rt2)"
    "nd_released (?nd rt2) \<Longrightarrow> nd_outcome (?nd rt3) = nd_outcome (?nd rt2)"
    using first(1) second(1) third(1) by (simp_all add: evolves_def)
  have below: "nd_resolved (?nd rt2) \<and> (\<forall>m. (m, n) \<in> (child_of (rn_nodes rt2))\<^sup>* \<longrightarrow> nd_released (rn_nodes rt2 ! m) \<and>
      \<not> nd_running (rn_nodes rt2 ! m) \<and> (\<forall>k < length (rn_guards rt2). rn_guards rt2 ! k \<notin> {GuardOpen m, GuardLeaving m}))"
    if "nd_released (?nd rt2)"
    using below_released [OF second(3, 2) that] by blast
  have "nd_sequence (?nd rt2) = Suc n" using node_inv(2) [OF second(3, 2)] by (simp add: linked_def)
  then have sequence: "no_operation\<lparr>operation_sequence := nd_sequence (?nd rt2), operation_pending := b\<rparr> =
      \<lparr>operation_sequence = Suc n, operation_parent = 0, operation_pending = b\<rparr>" for b by simp
  show ?thesis
  proof (cases "nd_released (?nd rt0) \<or> nd_released (?nd rt1) \<and> (ctx_err ctx = None \<or> pick)")
    case True
    then have "nd_released (?nd rt2)" using released by blast
    then show ?thesis
      using True below released(3) assms(6)
      by (auto simp: Receipt_WaitReleased_def receipt_wait_def Receipt_Snapshot_def Let_def infoLocked_def Snapshot_Info_def)
  next
    case False
    then show ?thesis
      using assms(6) sequence released(1)
      by (auto simp: Receipt_WaitReleased_def receipt_wait_def Receipt_Snapshot_def Let_def infoLocked_def)
  qed
qed

definition ex_resolving :: "nat runtime" where
  "ex_resolving = snd (Resolve_enter (Some 0) ex_begun)"

lemma ex_resolving_reached: "reach runtime_initial runtime_step (ex_resolving, {#})"
proof -
  have "Resolve_enter (Some 0) ex_begun = (fst (Resolve_enter (Some 0) ex_begun), ex_resolving)"
    by (simp add: ex_resolving_def)
  from reach_step [where step = runtime_step, OF ex_begun_reached ru_resolve [OF this]]
  show ?thesis by (simp add: ex_begun_nodes)
qed

lemma ex_resolving_node: "length (rn_nodes ex_resolving) = 1" "nd_resolving (rn_nodes ex_resolving ! 0)"
  by (simp_all add: ex_resolving_def Resolve_enter_def Let_def ex_begun_nodes new_node_def)

theorem resolved_outcome_observed_witness:
  "\<exists>value. Receipt_Wait Suc False (Some live_ctx) (Some 0)
      (snd (Resolve_publish Suc \<lparr>out_value = Some 5, out_primary = None, out_cleanup = Some io_EOF\<rparr> 0 ex_resolving)) ex_resolving
      (snd (Resolve_publish Suc \<lparr>out_value = Some 5, out_primary = None, out_cleanup = Some io_EOF\<rparr> 0 ex_resolving)) =
    Some (value, None) \<and> Snapshot_ValueCopy value = Some 7 \<and> Snapshot_Err value \<noteq> None"
proof -
  have "0 < length (rn_nodes ex_resolving)" "nd_resolving (rn_nodes ex_resolving ! 0)"
    by (simp_all add: ex_resolving_node)
  from resolved_outcome_observed [OF ex_resolving_reached this rtranclp.rtrancl_refl rtranclp.rtrancl_refl refl,
      where copy = Suc and outcome = "\<lparr>out_value = Some 5, out_primary = None, out_cleanup = Some io_EOF\<rparr>" and
        ctx = live_ctx and pick = False and ?rt1.0 = ex_resolving]
  show ?thesis by (auto simp: errors_join_def non_nil_def)
qed

theorem wait_released_joins_witness:
  "\<exists>value. Receipt_WaitReleased Suc True (Some live_ctx) (Some 0) ex_finishing ex_released ex_released = Some (value, None) \<and>
    info_released (Snapshot_Info value)"
proof -
  have finish: "runtime_step\<^sup>*\<^sup>* (ex_finishing, {#}) (ex_released, {#})" unfolding ex_released_def
    by (rule r_into_rtranclp, rule ru_finish) (simp_all add: ex_finishing_node)
  obtain shot where shot: "Receipt_WaitReleased Suc True (Some live_ctx) (Some 0) ex_finishing ex_released ex_released =
      Some (shot, None)"
    by (simp add: Receipt_WaitReleased_def receipt_wait_def ex_released_node Let_def live_ctx_def)
  have "0 < length (rn_nodes ex_finishing)" by (simp add: ex_finishing_node)
  from wait_released_joins [OF ex_finishing_reached this finish rtranclp.rtrancl_refl rtranclp.rtrancl_refl shot] shot
  show ?thesis by simp
qed

end
