(* ===== verification/Operation_Custody.thy ===== *)
theory Operation_Custody
  imports Operation_Evidence
begin

text \<open>
  What an inbox keeps under one of its entries, and what every operation of \<^verbatim>\<open>adapters/v1/evidence.go\<close> does to
  it: a view of the inbox as a partial map from entries to records.
\<close>

section \<open>Custody of one record\<close>

text \<open>What an inbox keeps under an entry: nothing, a reservation, or the record of an operation.\<close>

definition custody :: "'r inbox \<Rightarrow> nat \<Rightarrow> 'r option option" where
  "custody ib e =
     (if e \<in> set (ib_entries ib) then Some (ee_result (ib_store ib ! e)) else None)"

text \<open>An entry has no result exactly while it is reserved, and a claim names the result of the record it holds.\<close>

definition inv_results :: "'r inbox \<Rightarrow> bool" where
  "inv_results ib \<longleftrightarrow> inbox_inv ib \<and>
     (\<forall>e\<in>set (ib_entries ib). ee_reserved (ib_store ib ! e) \<longleftrightarrow> ee_result (ib_store ib ! e) = None) \<and>
     (\<forall>c e. holds ib c e \<longrightarrow> dl_result (ib_claims ib ! c) = ee_result (ib_store ib ! e))"

lemma inv_resultsD:
  assumes "inv_results ib"
  shows "inbox_inv ib" and "holds ib c e \<Longrightarrow> dl_result (ib_claims ib ! c) = ee_result (ib_store ib ! e)"
    and "e \<in> set (ib_entries ib) \<Longrightarrow> e < length (ib_store ib)"
    and "holds ib c e \<Longrightarrow> e \<in> set (ib_entries ib) \<and> ee_claim (ib_store ib ! e) = Some c \<and> \<not> ee_reserved (ib_store ib ! e)"
    and "e \<in> set (ib_entries ib) \<Longrightarrow> ee_reserved (ib_store ib ! e) \<longleftrightarrow> ee_result (ib_store ib ! e) = None"
  using assms by (auto simp: inv_results_def inbox_inv_def inv_custody_def inv_claims_def)

lemma reserve_custody:
  assumes "inv_results ib" and "reserve bytes (Some ib) = (Inr e, handle)"
  obtains ib' where "handle = Some ib'" "e = length (ib_store ib)" "length (ib_store ib') = Suc e"
    "custody ib' = (custody ib)(e := Some None)" "inv_results ib'"
proof -
  note inv = inv_resultsD [OF assms(1)]
  define ib' where "ib' = ib\<lparr>ib_outstanding := ib_outstanding ib + 1, ib_pending := ib_pending ib + 1,
               ib_bytes := ib_bytes ib + bytes, ib_entries := e # ib_entries ib,
               ib_store := ib_store ib @
                 [\<lparr>ee_bytes = bytes, ee_result = None, ee_claim = None, ee_reserved = True\<rparr>]\<rparr>"
  have "handle = Some ib'" "e = length (ib_store ib)"
    using assms(2) by (auto simp: reserve_def Let_def ib'_def split: if_splits)
  note ib' = this ib'_def
  have "inbox_inv ib'" using reserve_inv [OF inv(1)] assms(2) ib'(1) by blast
  moreover have "dl_result (ib_claims ib' ! c) = ee_result (ib_store ib' ! x)" if "holds ib' c x" for c x
  proof -
    from that have h: "holds ib c x" by (simp add: ib'(3) holds_def)
    then have "x < length (ib_store ib)" using inv(3, 4) by blast
    then show ?thesis using inv(2) [OF h] by (simp add: ib'(3) nth_append)
  qed
  moreover have "ee_reserved (ib_store ib' ! x) \<longleftrightarrow> ee_result (ib_store ib' ! x) = None" if "x \<in> set (ib_entries ib')" for x
    using that inv(3, 5) [of x] by (auto simp: ib'(2, 3) nth_append)
  ultimately have "inv_results ib'" by (simp add: inv_results_def)
  moreover have "custody ib' = (custody ib)(e := Some None)"
  proof
    show "custody ib' x = ((custody ib)(e := Some None)) x" for x
      using inv(3) [of x] by (auto simp: custody_def ib'(2, 3) nth_append)
  qed
  ultimately show thesis using that ib' by simp
qed

lemma abort_custody:
  assumes "inv_results ib" and "custody ib e = Some None"
  shows "custody (evidence_abort e ib) = (custody ib)(e := None)" and "inv_results (evidence_abort e ib)"
    and "length (ib_store (evidence_abort e ib)) = length (ib_store ib)"
proof -
  note inv = inv_resultsD [OF assms(1)]
  have e: "e \<in> set (ib_entries ib)" and reserved: "ee_reserved (ib_store ib ! e)"
    using assms(2) inv(5) by (auto simp: custody_def split: if_splits)
  have distinct: "distinct (ib_entries ib)" using inv(1) by (simp add: inbox_inv_def inv_custody_def)
  show "custody (evidence_abort e ib) = (custody ib)(e := None)"
    using distinct by (auto simp: custody_def evidence_abort_def reserved fun_eq_iff store_nth)
  have "dl_result (ib_claims (evidence_abort e ib) ! c) = ee_result (ib_store (evidence_abort e ib) ! x)"
    if "holds (evidence_abort e ib) c x" for c x
  proof -
    from that have "holds ib c x" by (simp add: evidence_abort_def reserved holds_def)
    then show ?thesis using inv(2, 4) reserved by (auto simp: evidence_abort_def store_nth)
  qed
  moreover have "ee_reserved (ib_store (evidence_abort e ib) ! x) \<longleftrightarrow> ee_result (ib_store (evidence_abort e ib) ! x) = None"
    if "x \<in> set (ib_entries (evidence_abort e ib))" for x
    using that inv(5) [of x] distinct by (auto simp: evidence_abort_def reserved store_nth)
  ultimately show "inv_results (evidence_abort e ib)" using abort_inv [OF inv(1) e] by (simp add: inv_results_def)
qed (simp add: evidence_abort_def)

lemma commit_custody:
  assumes "inv_results ib" and "custody ib e = Some None"
  shows "custody (evidence_commit e n ib) = (custody ib)(e := Some (Some n))" and "inv_results (evidence_commit e n ib)"
    and "length (ib_store (evidence_commit e n ib)) = length (ib_store ib)"
proof -
  note inv = inv_resultsD [OF assms(1)]
  have e: "e \<in> set (ib_entries ib)" and reserved: "ee_reserved (ib_store ib ! e)"
    using assms(2) inv(5) by (auto simp: custody_def split: if_splits)
  show "custody (evidence_commit e n ib) = (custody ib)(e := Some (Some n))"
    using e inv(3) [OF e] by (auto simp: custody_def evidence_commit_def fun_eq_iff)
  have "dl_result (ib_claims (evidence_commit e n ib) ! c) = ee_result (ib_store (evidence_commit e n ib) ! x)"
    if "holds (evidence_commit e n ib) c x" for c x
  proof -
    from that have "holds ib c x" by (simp add: evidence_commit_def holds_def)
    then show ?thesis using inv(2, 4) reserved by (auto simp: evidence_commit_def store_nth)
  qed
  moreover have "ee_reserved (ib_store (evidence_commit e n ib) ! x) \<longleftrightarrow> ee_result (ib_store (evidence_commit e n ib) ! x) = None"
    if "x \<in> set (ib_entries (evidence_commit e n ib))" for x
    using that inv(3, 5) [of x] by (auto simp: evidence_commit_def store_nth)
  ultimately show "inv_results (evidence_commit e n ib)"
    using commit_evidence_inv [OF inv(1) e reserved] by (simp add: inv_results_def)
qed (simp add: evidence_commit_def)

lemma next_custody:
  assumes "inv_results ib" and "inbox_next ended releasedOnly ctx (Some ib) = (reply, Some ib')"
  shows "custody ib' = custody ib" and "inv_results ib'" and "length (ib_store ib') = length (ib_store ib)"
proof -
  note inv = inv_resultsD [OF assms(1)]
  have inv': "inbox_inv ib'" by (rule next_inv [OF inv(1) assms(2)])
  have "custody ib' = custody ib \<and> length (ib_store ib') = length (ib_store ib) \<and>
    (\<forall>e\<in>set (ib_entries ib'). ee_reserved (ib_store ib' ! e) \<longleftrightarrow> ee_result (ib_store ib' ! e) = None) \<and>
    (\<forall>c e. holds ib' c e \<longrightarrow> dl_result (ib_claims ib' ! c) = ee_result (ib_store ib' ! e))"
  proof (cases "ib' = ib")
    case False
    let ?c = "length (ib_claims ib)"
    from False assms(2) obtain e where ib': "ib' = ib\<lparr>ib_queue := remove1 e (ib_queue ib),
        ib_store := (ib_store ib)[e := (ib_store ib ! e)\<lparr>ee_claim := Some ?c\<rparr>],
        ib_claims := ib_claims ib @ [\<lparr>dl_entry = Some e, dl_result = ee_result (ib_store ib ! e)\<rparr>]\<rparr>"
      by (auto simp: inbox_next_def Let_def split: option.splits if_splits)
    have keep: "ee_result (ib_store ib' ! x) = ee_result (ib_store ib ! x)"
      "ee_reserved (ib_store ib' ! x) = ee_reserved (ib_store ib ! x)" for x
      by (simp_all add: ib' store_nth)
    have "dl_result (ib_claims ib' ! c) = ee_result (ib_store ib' ! x)" if "holds ib' c x" for c x
    proof (cases "c < ?c")
      case True
      then show ?thesis using that inv(2) [of c x] unfolding keep by (simp add: ib' holds_def nth_append)
    next
      case False
      then have "c = ?c" using that by (simp add: ib' holds_def)
      then show ?thesis using that unfolding keep by (simp add: ib' holds_def)
    qed
    moreover have "custody ib' = custody ib" unfolding custody_def keep by (simp add: ib')
    ultimately show ?thesis using inv(5) unfolding keep by (simp add: ib')
  qed (use inv(2, 5) in simp)
  then show "custody ib' = custody ib" "inv_results ib'" "length (ib_store ib') = length (ib_store ib)"
    using inv' by (simp_all add: inv_results_def)
qed

lemma end_custody:
  assumes "inv_results ib" and "c < length (ib_claims ib)" and ib'_def: "ib' = snd (delivery_end ended retry (Some c) ib)"
  shows "inv_results ib' \<and> length (ib_store ib') = length (ib_store ib) \<and>
    (custody ib' = custody ib \<or>
     (\<exists>e r. custody ib e = Some (Some r) \<and> ended r \<and> custody ib' = (custody ib)(e := None)))"
proof -
  note inv = inv_resultsD [OF assms(1)]
  have ended: "inbox_inv ib'" unfolding ib'_def by (rule end_inv [OF inv(1) assms(2)])
  show ?thesis
    using inv(1) assms(2)
  proof (cases rule: delivery_end_cases [where ended = ended and retry = retry])
    case (refused err)
    then show ?thesis using assms(1) by (simp add: ib'_def)
  next
    case (requeued e)
    have keep: "ee_result (ib_store ib' ! x) = ee_result (ib_store ib ! x)"
      "ee_reserved (ib_store ib' ! x) = ee_reserved (ib_store ib ! x)" for x
      by (simp_all add: ib'_def requeued(3) store_nth)
    have "dl_result (ib_claims ib' ! k) = ee_result (ib_store ib' ! x)" if "holds ib' k x" for k x
      using that inv(2) [of k x] unfolding keep
      by (cases "k = c") (auto simp: ib'_def requeued(3) holds_def)
    moreover have "custody ib' = custody ib" unfolding custody_def keep by (simp add: ib'_def requeued(3))
    moreover have "ee_reserved (ib_store ib' ! x) \<longleftrightarrow> ee_result (ib_store ib' ! x) = None" if "x \<in> set (ib_entries ib')" for x
      using that inv(5) [of x] unfolding keep by (simp add: ib'_def requeued(3))
    ultimately show ?thesis using ended unfolding inv_results_def by (auto simp: ib'_def requeued(3))
  next
    case (freed e)
    obtain r where r: "dl_result (ib_claims ib ! c) = Some r" "ended r" using freed(3) by blast
    note held = inv(4) [OF freed(2)]
    have old: "custody ib e = Some (Some r)" using held inv(2) [OF freed(2)] r(1) by (simp add: custody_def)
    have distinct: "distinct (ib_entries ib)" using inv(1) by (simp add: inbox_inv_def inv_custody_def)
    have "custody ib' x = ((custody ib)(e := None)) x" for x
      using distinct by (simp add: ib'_def freed(4) custody_def store_nth)
    then have "custody ib' = (custody ib)(e := None)" by blast
    moreover have "dl_result (ib_claims ib' ! k) = ee_result (ib_store ib' ! x)" if "holds ib' k x" for k x
    proof -
      from that have k: "k \<noteq> c" "holds ib k x"
        using assms(2) by (cases "k = c"; simp add: ib'_def freed(4) holds_def)+
      then have "x \<noteq> e" using inv(4) [OF k(2)] held by auto
      then show ?thesis using inv(2) [OF k(2)] k(1) by (simp add: ib'_def freed(4) store_nth)
    qed
    moreover have "ee_reserved (ib_store ib' ! x) \<longleftrightarrow> ee_result (ib_store ib' ! x) = None" if "x \<in> set (ib_entries ib')" for x
      using that inv(5) [of x] distinct by (simp add: ib'_def freed(4) store_nth)
    moreover have "length (ib_store ib') = length (ib_store ib)" by (simp add: ib'_def freed(4))
    ultimately show ?thesis using ended old r(2) unfolding inv_results_def by blast
  qed
qed

end
