(* ===== verification/Operation_World.thy ===== *)
theory Operation_World
  imports Operation_Begin Operation_Custody
begin

text \<open>
  Runtimes together with the inboxes their endpoints report to, which they may share, and the callers between the sections of
  \<^verbatim>\<open>beginContexts\<close>: the steps of all of them, the invariant that ties them together, and its preservation.
\<close>

section \<open>Steps\<close>

text \<open>The steps of a runtime that are not part of an admission.\<close>

inductive call_step :: "'v runtime \<Rightarrow> 'v runtime \<Rightarrow> bool" where
  cs_shutdown: "call_step rt (shutdown_runtime cause rt)"
| cs_waiter_ctx: "p < length (rt_waiters (rn_gate rt)) \<Longrightarrow>
    call_step rt (rt\<lparr>rn_gate := (rn_gate rt)\<lparr>rt_waiters :=
      (rt_waiters (rn_gate rt))[p := (rt_waiters (rn_gate rt) ! p)\<lparr>wt_ctx := ctx\<rparr>]\<rparr>\<rparr>)"
| cs_base: "call_step rt (rt\<lparr>rn_gate := (rn_gate rt)\<lparr>rt_base := ctx\<rparr>\<rparr>)"
| cs_hold: "Call_Hold (Some n) rt = (held, rt') \<Longrightarrow> n < length (rn_nodes rt) \<Longrightarrow> call_step rt rt'"
| cs_release: "Guard_Release (Some k) rt = (err, rt') \<Longrightarrow> k < length (rn_guards rt) \<Longrightarrow> call_step rt rt'"
| cs_leave: "rn_guards rt ! k = GuardLeaving n \<Longrightarrow> k < length (rn_guards rt) \<Longrightarrow>
    call_step rt (snd (guard_leave k n rt))"
| cs_returned: "n < length (rn_nodes rt) \<Longrightarrow> nd_running (rn_nodes rt ! n) \<Longrightarrow>
    call_step rt (snd (node_returned False n rt))"
| cs_resolve: "Resolve_enter (Some n) rt = (err, rt') \<Longrightarrow> n < length (rn_nodes rt) \<Longrightarrow> call_step rt rt'"
| cs_publish: "n < length (rn_nodes rt) \<Longrightarrow> nd_resolving (rn_nodes rt ! n) \<Longrightarrow>
    call_step rt (snd (Resolve_publish copy outcome n rt))"
| cs_finish: "n < length (rn_nodes rt) \<Longrightarrow> nd_finishing (rn_nodes rt ! n) \<Longrightarrow> \<not> nd_released (rn_nodes rt ! n) \<Longrightarrow>
    call_step rt (snd (finish_one released n rt))"
| cs_cancel: "call_step rt (update_node n (\<lambda>nd. nd\<lparr>nd_ctx := cancel_ctx cause (nd_ctx nd)\<rparr>) rt)"
| cs_source: "nd_running (rn_nodes rt ! n) \<Longrightarrow> call_step rt (using_capture name generation lease n rt)"

lemma call_step_runtime: "call_step rt rt' \<Longrightarrow> runtime_step (rt, entering) (rt', entering)"
  by (induction rule: call_step.induct) (auto intro: runtime_step.intros simp: using_capture_def)

section \<open>Callers in the queue\<close>

text \<open>The bytes a caller that has not come back from \<^verbatim>\<open>acquire\<close> asked for.\<close>

definition waiting_of :: "gate \<Rightarrow> nat \<Rightarrow> int option" where
  "waiting_of g p =
     (if p < length (rt_waiters g) \<and> \<not> wt_left (rt_waiters g ! p) then Some (wt_bytes (rt_waiters g ! p)) else None)"

lemma waiting_of_cong:
  assumes "length (rt_waiters g') = length (rt_waiters g)"
    and "\<And>p. p < length (rt_waiters g) \<Longrightarrow> wt_left (rt_waiters g' ! p) = wt_left (rt_waiters g ! p) \<and>
      wt_bytes (rt_waiters g' ! p) = wt_bytes (rt_waiters g ! p)"
  shows "waiting_of g' = waiting_of g"
proof
  show "waiting_of g' p = waiting_of g p" for p using assms(1) assms(2) [of p] by (auto simp: waiting_of_def)
qed

lemma update_field: "f x = f (xs ! p) \<Longrightarrow> f (xs[p := x] ! q) = f (xs ! q)"
  by (cases "p < length xs"; cases "q = p") (simp_all add: list_update_beyond)

lemma promote_loop_waiting: "waiting_of (promote_loop g) = waiting_of g"
proof (induction g rule: promote_loop.induct)
  case (1 g)
  have head: "waiting_of (promote_head p g) = waiting_of g" for p
    by (rule waiting_of_cong) (simp_all add: promote_head_def Let_def update_field)
  show ?case
    using 1 head by (cases "rt_queue g") (simp_all add: promote_loop.simps [of g])
qed

lemma gate_waiting [simp]:
  "waiting_of (promoteLocked g) = waiting_of g" "waiting_of (closeDoneLocked g) = waiting_of g"
  "waiting_of (releasePermitLocked b g) = waiting_of g"
proof -
  show close: "waiting_of (closeDoneLocked g) = waiting_of g" for g
    by (rule waiting_of_cong) (simp_all add: closeDoneLocked_def)
  show promote: "waiting_of (promoteLocked g) = waiting_of g" for g
    by (simp add: promoteLocked_def promote_loop_waiting)
  show "waiting_of (releasePermitLocked b g) = waiting_of g"
    unfolding releasePermitLocked_def by (simp add: close promote) (rule waiting_of_cong, simp_all)
qed

lemma refused_waiters:
  "waiting_of (g\<lparr>rt_waiters := fold (\<lambda>p ws. ws[p := refuse_waiter cause h (ws ! p)]) ps (rt_waiters g)\<rparr>) = waiting_of g"
proof (induction ps arbitrary: g)
  case (Cons p ps)
  let ?g = "g\<lparr>rt_waiters := (rt_waiters g)[p := refuse_waiter cause h (rt_waiters g ! p)]\<rparr>"
  have "waiting_of ?g = waiting_of g"
    by (rule waiting_of_cong) (simp_all add: refuse_waiter_def update_field)
  then show ?case using Cons.IH [of ?g] by simp
qed simp

lemma waiting_of_frame: "rt_waiters g' = rt_waiters g \<Longrightarrow> waiting_of g' = waiting_of g"
  by (rule waiting_of_cong) simp_all

lemma shutdown_waiting [simp]: "waiting_of (shutdown_gate cause g) = waiting_of g"
proof (cases "rt_closing g")
  case False
  let ?ws = "fold (\<lambda>p ws. ws[p := refuse_waiter cause g (ws ! p)]) (rt_queue g) (rt_waiters g)"
  have "waiting_of (g\<lparr>rt_closing := True, rt_waiters := ?ws, rt_queue := [], rt_queued_bytes := 0\<rparr>) =
    waiting_of (g\<lparr>rt_waiters := ?ws\<rparr>)" by (rule waiting_of_frame) simp
  then show ?thesis using False by (simp add: shutdown_gate_def refused_waiters)
qed (simp add: shutdown_gate_def)

lemma enter_waiting:
  assumes "acquire_enter ctx bytes g = (result, g')"
  shows "waiting_of g' = (case result of Inr (Some p) \<Rightarrow> (waiting_of g)(p := Some bytes) | _ \<Rightarrow> waiting_of g)"
    and "result = Inr (Some p) \<Longrightarrow> waiting_of g p = None"
  using assms by (cases rule: acquire_enter_cases; auto simp: waiting_of_def fun_eq_iff nth_append)+

lemma return_waiting:
  assumes "inv_waiters g" and "waiting_of g p = Some bytes" and "acquire_return p g = (result, g')"
  shows "waiting_of g' = (if result = None then waiting_of g else (waiting_of g)(p := None))"
    and "wt_bytes (rt_waiters g ! p) = bytes" and "p < length (rt_waiters g)" and "\<not> wt_left (rt_waiters g ! p)"
proof -
  show p: "wt_bytes (rt_waiters g ! p) = bytes" "p < length (rt_waiters g)" "\<not> wt_left (rt_waiters g ! p)"
    using assms(2) by (simp_all add: waiting_of_def split: if_splits)
  have left: "waiting_of (g\<lparr>rt_waiters := (rt_waiters g)[p := (rt_waiters g ! p)\<lparr>wt_left := True\<rparr>]\<rparr>) = (waiting_of g)(p := None)"
    using p by (auto simp: waiting_of_def fun_eq_iff nth_list_update)
  have frame: "waiting_of (h\<lparr>rt_queue := q, rt_queued_bytes := b\<rparr>) = waiting_of h" for h q b
    by (rule waiting_of_cong) simp_all
  show "waiting_of g' = (if result = None then waiting_of g else (waiting_of g)(p := None))"
    using assms(1) p(2, 3) assms(3)
  proof (cases rule: acquire_return_cases)
    case (withdrawn err)
    have "g' = promoteLocked ((g\<lparr>rt_waiters := (rt_waiters g)[p := (rt_waiters g ! p)\<lparr>wt_left := True\<rparr>]\<rparr>)
      \<lparr>rt_queue := remove1 p (rt_queue g), rt_queued_bytes := rt_queued_bytes g - wt_bytes (rt_waiters g ! p)\<rparr>)"
      using withdrawn(3) by simp
    then show ?thesis using withdrawn(1) by (simp add: frame left)
  qed (simp_all add: left)
qed


lemma canFinish_frame [simp]:
  "length (rn_nodes (snd (canFinishLocked n rt))) = length (rn_nodes rt)" "rn_gate (snd (canFinishLocked n rt)) = rn_gate rt"
  by (simp_all add: canFinishLocked_def Let_def)

lemma finish_one_frame [simp]:
  "length (rn_nodes (snd (finish_one released n rt))) = length (rn_nodes rt)"
  "waiting_of (rn_gate (snd (finish_one released n rt))) = waiting_of (rn_gate rt)"
  by (simp_all add: finish_one_def Let_def split_beta split: option.splits)

lemma length_fold_update: "length (fold (\<lambda>i xs. xs[i := f (xs ! i)]) is xs) = length xs"
  by (induction "is" arbitrary: xs) simp_all

lemma call_step_frame:
  fixes rt rt' :: "'v runtime"
  assumes "call_step rt rt'"
  shows "length (rn_nodes rt') = length (rn_nodes rt) \<and> waiting_of (rn_gate rt') = waiting_of (rn_gate rt)"
  using assms
proof (induction rule: call_step.induct)
  case (cs_shutdown rt cause)
  show ?case
    using length_fold_update [where f = "\<lambda>x :: 'v node. x\<lparr>nd_ctx := cancel_ctx cause (nd_ctx x)\<rparr>"]
    by (simp add: shutdown_runtime_def)
next
  case (cs_waiter_ctx p rt ctx)
  show ?case by simp (rule waiting_of_cong, simp_all add: update_field)
next
  case (cs_base rt ctx)
  show ?case by simp (rule waiting_of_frame, simp)
next
  case (cs_hold n rt held rt')
  then show ?case by (auto simp: Call_Hold_def Let_def split: if_splits)
next
  case (cs_release k rt err rt')
  then show ?case by (auto simp: Guard_Release_def split: guard_state.splits)
next
  case (cs_resolve n rt err rt')
  then show ?case by (auto simp: Resolve_enter_def Let_def split: if_splits)
qed (simp_all add: guard_leave_def node_returned_def Resolve_publish_def Let_def using_capture_def)

definition work_ended :: "'v runtime \<Rightarrow> nat \<Rightarrow> bool" where
  "work_ended rt r \<longleftrightarrow> r < length (rn_nodes rt) \<and> nd_released (rn_nodes rt ! r)"

definition world_ended :: "'v world \<Rightarrow> nat \<times> nat \<Rightarrow> bool" where
  "world_ended w r = work_ended (wd_runtimes w (fst r)) (snd r)"

inductive world_step :: "'v world \<Rightarrow> 'v world \<Rightarrow> bool" where
  wd_begin: "begin_reserve (Some ep) ctx lifetime request parent w = (result, w') \<Longrightarrow>
    ep_inbox ep < length (wd_inboxes w) \<Longrightarrow>
    (\<And>k p. parent = ChildOf k p \<Longrightarrow> p < length (rn_nodes (wd_runtimes w k))) \<Longrightarrow> world_step w w'"
| wd_acquire: "a < length (wd_admissions w) \<Longrightarrow> ad_stage (wd_admissions w ! a) = Reserved \<Longrightarrow>
    world_step w (begin_acquire ctx a w)"
| wd_wait: "a < length (wd_admissions w) \<Longrightarrow> ad_stage (wd_admissions w ! a) = InQueue p \<Longrightarrow>
    world_step w (begin_wait p a w)"
| wd_commit: "a < length (wd_admissions w) \<Longrightarrow> ad_stage (wd_admissions w ! a) = Permitted \<Longrightarrow>
    world_step w (begin_commit ctx lifetime a w)"
| wd_abort: "a < length (wd_admissions w) \<Longrightarrow> ad_stage (wd_admissions w ! a) = Failed err \<Longrightarrow>
    world_step w (begin_abort err a w)"
| wd_call: "call_step (wd_runtimes w k) rt \<Longrightarrow> world_step w (w\<lparr>wd_runtimes := (wd_runtimes w)(k := rt)\<rparr>)"
| wd_next: "i < length (wd_inboxes w) \<Longrightarrow>
    inbox_next (world_ended w) releasedOnly ctx (Some (wd_inboxes w ! i)) = (reply, Some ib) \<Longrightarrow>
    world_step w (w\<lparr>wd_inboxes := (wd_inboxes w)[i := ib]\<rparr>)"
| wd_end: "i < length (wd_inboxes w) \<Longrightarrow> c < length (ib_claims (wd_inboxes w ! i)) \<Longrightarrow>
    world_step w (w\<lparr>wd_inboxes := (wd_inboxes w)
      [i := snd (delivery_end (world_ended w) retry (Some c) (wd_inboxes w ! i))]\<rparr>)"
| wd_seal: "i < length (wd_inboxes w) \<Longrightarrow> Inbox_Seal (Some (wd_inboxes w ! i)) = (err, Some ib) \<Longrightarrow>
    world_step w (w\<lparr>wd_inboxes := (wd_inboxes w)[i := ib]\<rparr>)"

definition world_initial :: "'v world \<Rightarrow> bool" where
  "world_initial w \<longleftrightarrow> (\<forall>k. \<exists>ctx opts observers. Runtime_New ctx opts observers = Inr (wd_runtimes w k)) \<and>
     (\<forall>ib\<in>set (wd_inboxes w). inbox_initial ib) \<and> wd_admissions w = []"

section \<open>Invariant\<close>

definition in_progress :: "begin_stage \<Rightarrow> bool" where
  "in_progress stage \<longleftrightarrow> (case stage of Accepted _ \<Rightarrow> False | Refused _ \<Rightarrow> False | _ \<Rightarrow> True)"

definition has_permit :: "caller \<Rightarrow> bool" where
  "has_permit ad \<longleftrightarrow> ad_parent ad = None \<and> ad_stage ad = Permitted"

abbreviation ad_inbox :: "caller \<Rightarrow> nat" where
  "ad_inbox ad \<equiv> ep_inbox (ad_endpoint ad)"

abbreviation ad_runtime :: "caller \<Rightarrow> nat" where
  "ad_runtime ad \<equiv> ep_runtime (ad_endpoint ad)"

text \<open>The permits that callers of a runtime hold and have not yet passed on to a node.\<close>

definition permits :: "nat \<Rightarrow> caller list \<Rightarrow> int multiset" where
  "permits k ads = mset (map (\<lambda>ad. req_work_bytes (ad_request ad)) (filter (\<lambda>ad. has_permit ad \<and> ad_runtime ad = k) ads))"

definition place_of :: "caller \<Rightarrow> nat \<times> nat" where
  "place_of ad = (ad_inbox ad, ad_entry ad)"

text \<open>What an admission at each stage owns: a reservation while it is in progress and the place in the queue
  it waits for; once accepted the record of its node, at least until the node is released; nothing once
  refused.\<close>

definition stage_ok :: "'v runtime \<Rightarrow> (nat \<times> nat) option option \<Rightarrow> caller \<Rightarrow> bool" where
  "stage_ok rt kept ad \<longleftrightarrow>
     (case ad_stage ad of
        Accepted n \<Rightarrow> n < length (rn_nodes rt) \<and>
          (kept = Some (Some (ad_runtime ad, n)) \<or> kept = None \<and> nd_released (rn_nodes rt ! n))
      | Refused _ \<Rightarrow> kept = None
      | InQueue p \<Rightarrow> kept = Some None \<and> ad_parent ad = None \<and>
          waiting_of (rn_gate rt) p = Some (req_work_bytes (ad_request ad))
      | _ \<Rightarrow> kept = Some None)"

definition admission_ok :: "(nat \<Rightarrow> 'v runtime) \<Rightarrow> (nat \<times> nat) inbox list \<Rightarrow> caller \<Rightarrow> bool" where
  "admission_ok rts ibs ad \<longleftrightarrow> ad_inbox ad < length ibs \<and> ad_entry ad < length (ib_store (ibs ! ad_inbox ad)) \<and>
     validRequest (ad_request ad) (ad_parent ad \<noteq> None) \<and>
     (\<forall>p. ad_parent ad = Some p \<longrightarrow> p < length (rn_nodes (rts (ad_runtime ad)))) \<and>
     stage_ok (rts (ad_runtime ad)) (custody (ibs ! ad_inbox ad) (ad_entry ad)) ad"

definition is_named :: "begin_stage \<Rightarrow> bool" where
  "is_named stage \<longleftrightarrow> (case stage of Accepted _ \<Rightarrow> True | InQueue _ \<Rightarrow> True | _ \<Rightarrow> False)"

text \<open>No two admissions share a record, a node or a place in the queue; every record, node and place in the
  queue has its admission.\<close>

definition unshared :: "caller list \<Rightarrow> bool" where
  "unshared ads \<longleftrightarrow> (\<forall>a < length ads. \<forall>b < length ads. a \<noteq> b \<longrightarrow>
     place_of (ads ! a) \<noteq> place_of (ads ! b) \<and>
     (is_named (ad_stage (ads ! a)) \<and> ad_runtime (ads ! a) = ad_runtime (ads ! b) \<longrightarrow>
        ad_stage (ads ! a) \<noteq> ad_stage (ads ! b)))"

definition owned_by :: "(nat \<Rightarrow> 'v runtime) \<Rightarrow> (nat \<times> nat) inbox list \<Rightarrow> caller list \<Rightarrow> bool" where
  "owned_by rts ibs ads \<longleftrightarrow>
     (\<forall>k n. n < length (rn_nodes (rts k)) \<longrightarrow>
        (\<exists>a < length ads. ad_runtime (ads ! a) = k \<and> ad_stage (ads ! a) = Accepted n)) \<and>
     (\<forall>k p. waiting_of (rn_gate (rts k)) p \<noteq> None \<longrightarrow>
        (\<exists>a < length ads. ad_runtime (ads ! a) = k \<and> ad_stage (ads ! a) = InQueue p)) \<and>
     (\<forall>i e. i < length ibs \<and> custody (ibs ! i) e \<noteq> None \<longrightarrow> (\<exists>a < length ads. place_of (ads ! a) = (i, e)))"

definition world_inv :: "'v world \<Rightarrow> bool" where
  "world_inv w \<longleftrightarrow> (\<forall>k. runtime_inv (wd_runtimes w k, permits k (wd_admissions w))) \<and>
     (\<forall>i < length (wd_inboxes w). inv_results (wd_inboxes w ! i)) \<and>
     (\<forall>a < length (wd_admissions w). admission_ok (wd_runtimes w) (wd_inboxes w) (wd_admissions w ! a)) \<and>
     unshared (wd_admissions w) \<and> owned_by (wd_runtimes w) (wd_inboxes w) (wd_admissions w)"

lemma world_invD:
  assumes "world_inv w"
  shows "runtime_inv (wd_runtimes w k, permits k (wd_admissions w))"
    and "i < length (wd_inboxes w) \<Longrightarrow> inv_results (wd_inboxes w ! i)"
    and "a < length (wd_admissions w) \<Longrightarrow> admission_ok (wd_runtimes w) (wd_inboxes w) (wd_admissions w ! a)"
    and "unshared (wd_admissions w)" and "owned_by (wd_runtimes w) (wd_inboxes w) (wd_admissions w)"
  using assms by (simp_all add: world_inv_def)

text \<open>An admission stays as it is while the runtime moves on and its record is kept.\<close>

lemma admission_ok_frame:
  assumes "admission_ok rts ibs ad" and "\<And>k. all_evolve (rts k) (rts' k)" and "length ibs' = length ibs"
    and "length (ib_store (ibs ! ad_inbox ad)) \<le> length (ib_store (ibs' ! ad_inbox ad))"
    and "custody (ibs' ! ad_inbox ad) (ad_entry ad) = custody (ibs ! ad_inbox ad) (ad_entry ad) \<or>
      (\<exists>n. ad_stage ad = Accepted n \<and> nd_released (rn_nodes (rts (ad_runtime ad)) ! n) \<and>
        custody (ibs' ! ad_inbox ad) (ad_entry ad) = None)"
    and "\<And>p. ad_stage ad = InQueue p \<Longrightarrow>
      waiting_of (rn_gate (rts' (ad_runtime ad))) p = waiting_of (rn_gate (rts (ad_runtime ad))) p"
  shows "admission_ok rts' ibs' ad"
proof -
  let ?rt = "rts (ad_runtime ad)" and ?rt' = "rts' (ad_runtime ad)"
  have grown: "length (rn_nodes ?rt) \<le> length (rn_nodes ?rt')"
    "n < length (rn_nodes ?rt) \<Longrightarrow> nd_released (rn_nodes ?rt ! n) \<Longrightarrow> nd_released (rn_nodes ?rt' ! n)" for n
    using assms(2) [of "ad_runtime ad"] by (auto simp: all_evolve_def evolves_def)
  have stage: "stage_ok ?rt (custody (ibs ! ad_inbox ad) (ad_entry ad)) ad"
    using assms(1) by (simp add: admission_ok_def)
  have "stage_ok ?rt' (custody (ibs' ! ad_inbox ad) (ad_entry ad)) ad"
  proof (cases "ad_stage ad")
    case (Accepted n)
    then show ?thesis using stage assms(5) grown by (auto simp: stage_ok_def)
  qed (use stage assms(5, 6) in \<open>auto simp: stage_ok_def\<close>)
  then show ?thesis using assms(1, 3, 4) grown(1) by (auto simp: admission_ok_def)
qed

lemma unshared_update:
  assumes "unshared ads" and "a < length ads" and "place_of ad = place_of (ads ! a)"
    and "\<And>b. b < length ads \<Longrightarrow> b \<noteq> a \<Longrightarrow> is_named (ad_stage ad) \<Longrightarrow> ad_runtime (ads ! b) = ad_runtime ad \<Longrightarrow>
      ad_stage (ads ! b) \<noteq> ad_stage ad"
  shows "unshared (ads[a := ad])"
  unfolding unshared_def
proof (intro allI impI)
  let ?apart = "\<lambda>x y. place_of x \<noteq> place_of y \<and>
    (is_named (ad_stage x) \<and> ad_runtime x = ad_runtime y \<longrightarrow> ad_stage x \<noteq> ad_stage y)"
  fix x y
  assume xy: "x < length (ads[a := ad])" "y < length (ads[a := ad])" "x \<noteq> y"
  then have "?apart (ads ! x) (ads ! y)"
    using assms(1) by (simp add: unshared_def)
  then show "?apart (ads[a := ad] ! x) (ads[a := ad] ! y)"
    using xy assms(2, 3) assms(4) [of x] assms(4) [of y] by (auto simp: nth_list_update)
qed

section \<open>Steps of an admission\<close>

lemma permits_update:
  assumes "a < length ads" and "ad_runtime ad = ad_runtime (ads ! a)"
  shows "permits k (ads[a := ad]) =
    (if ad_runtime ad = k
     then permits k ads - (if has_permit (ads ! a) then {#req_work_bytes (ad_request (ads ! a))#} else {#}) +
       (if has_permit ad then {#req_work_bytes (ad_request ad)#} else {#})
     else permits k ads)"
  unfolding permits_def using assms(2) by (subst mset_filter_update [OF assms(1)]) simp

lemma permits_member:
  assumes "a < length ads" and "has_permit (ads ! a)"
  shows "req_work_bytes (ad_request (ads ! a)) \<in># permits (ad_runtime (ads ! a)) ads"
  using assms by (force simp: permits_def in_set_conv_nth)

text \<open>Who owns what, when one admission changes its stage.\<close>

lemma owned_by_update:
  fixes rts :: "nat \<Rightarrow> 'v runtime" and rt' :: "'v runtime"
  assumes owned: "owned_by rts ibs ads" and a: "a < length ads" and ad: "ad = ads ! a"
    and progress: "in_progress (ad_stage ad)" and ad': "ad' = ad\<lparr>ad_stage := stage\<rparr>"
    and i: "ad_inbox ad < length ibs"
    and ib': "custody ib' = (custody (ibs ! ad_inbox ad))(ad_entry ad := kept)"
    and nodes: "\<And>n. n < length (rn_nodes rt') \<Longrightarrow> n < length (rn_nodes (rts (ad_runtime ad))) \<or> stage = Accepted n"
    and queue: "\<And>p. waiting_of (rn_gate rt') p \<noteq> None \<Longrightarrow>
      waiting_of (rn_gate (rts (ad_runtime ad))) p \<noteq> None \<and> ad_stage ad \<noteq> InQueue p \<or> stage = InQueue p"
  shows "owned_by (rts(ad_runtime ad := rt')) (ibs[ad_inbox ad := ib']) (ads[a := ad'])"
  unfolding owned_by_def
proof (intro conjI allI impI)
  let ?ads = "ads[a := ad']" let ?ibs = "ibs[ad_inbox ad := ib']" let ?rts = "rts(ad_runtime ad := rt')"
  have keep: "\<exists>b < length ?ads. P (?ads ! b)" if "\<exists>b < length ads. P (ads ! b)" "\<not> P ad" for P
    using that ad by (metis length_list_update nth_list_update_neq)
  have here: "\<exists>b < length ?ads. P (?ads ! b)" if "P ad'" for P
    using that a by (intro exI [of _ a]) simp
  show "\<exists>b < length ?ads. ad_runtime (?ads ! b) = k \<and> ad_stage (?ads ! b) = Accepted n"
    if "n < length (rn_nodes (?rts k))" for k n
  proof (cases "k = ad_runtime ad \<and> stage = Accepted n")
    case True
    then show ?thesis by (intro here) (simp add: ad')
  next
    case False
    then have "n < length (rn_nodes (rts k))" using nodes [of n] that by (auto split: if_splits)
    then have "\<exists>b < length ads. ad_runtime (ads ! b) = k \<and> ad_stage (ads ! b) = Accepted n"
      using owned by (auto simp: owned_by_def)
    then show ?thesis by (rule keep) (use progress in \<open>auto simp: in_progress_def\<close>)
  qed
  show "\<exists>b < length ?ads. ad_runtime (?ads ! b) = k \<and> ad_stage (?ads ! b) = InQueue p"
    if "waiting_of (rn_gate (?rts k)) p \<noteq> None" for k p
  proof (cases "k = ad_runtime ad \<and> stage = InQueue p")
    case True
    then show ?thesis by (intro here) (simp add: ad')
  next
    case False
    then have q: "waiting_of (rn_gate (rts k)) p \<noteq> None" "\<not> (ad_runtime ad = k \<and> ad_stage ad = InQueue p)"
      using queue [of p] that by (auto split: if_splits)
    then have "\<exists>b < length ads. ad_runtime (ads ! b) = k \<and> ad_stage (ads ! b) = InQueue p"
      using owned unfolding owned_by_def by blast
    then show ?thesis by (rule keep) (rule q(2))
  qed
  show "\<exists>b < length ?ads. place_of (?ads ! b) = (k, e)" if "k < length ?ibs \<and> custody (?ibs ! k) e \<noteq> None" for k e
  proof (cases "place_of ad = (k, e)")
    case True
    then show ?thesis by (intro here) (simp add: ad' place_of_def)
  next
    case False
    then have "custody (ibs ! k) e \<noteq> None" "k < length ibs"
      using that i by (auto simp: nth_list_update ib' place_of_def split: if_splits)
    then have "\<exists>b < length ads. place_of (ads ! b) = (k, e)" using owned unfolding owned_by_def by blast
    then show ?thesis by (rule keep) (use False in simp)
  qed
qed

text \<open>One admission moves to another stage, together with its record and its runtime.\<close>

lemma stage_step:
  fixes w :: "'v world" and rt' :: "'v runtime"
  assumes "world_inv w" and a: "a < length (wd_admissions w)" and ad: "ad = wd_admissions w ! a"
    and progress: "in_progress (ad_stage ad)" and ad': "ad' = ad\<lparr>ad_stage := stage\<rparr>"
    and rt: "rt = wd_runtimes w (ad_runtime ad)"
    and rt': "runtime_inv (rt', permits (ad_runtime ad) ((wd_admissions w)[a := ad']))" and evolve: "all_evolve rt rt'"
    and ib': "inv_results ib'" "length (ib_store ib') = length (ib_store (wd_inboxes w ! ad_inbox ad))"
      "custody ib' = (custody (wd_inboxes w ! ad_inbox ad))(ad_entry ad := kept)"
    and stage: "stage_ok rt' kept ad'"
    and others: "\<And>b p. b < length (wd_admissions w) \<Longrightarrow> b \<noteq> a \<Longrightarrow> ad_runtime (wd_admissions w ! b) = ad_runtime ad \<Longrightarrow>
      ad_stage (wd_admissions w ! b) = InQueue p \<Longrightarrow> waiting_of (rn_gate rt') p = waiting_of (rn_gate rt) p"
    and fresh: "\<And>b. b < length (wd_admissions w) \<Longrightarrow> b \<noteq> a \<Longrightarrow> is_named stage \<Longrightarrow>
      ad_runtime (wd_admissions w ! b) = ad_runtime ad \<Longrightarrow> ad_stage (wd_admissions w ! b) \<noteq> stage"
    and nodes: "\<And>n. n < length (rn_nodes rt') \<Longrightarrow> n < length (rn_nodes rt) \<or> stage = Accepted n"
    and queue: "\<And>p. waiting_of (rn_gate rt') p \<noteq> None \<Longrightarrow>
      waiting_of (rn_gate rt) p \<noteq> None \<and> ad_stage ad \<noteq> InQueue p \<or> stage = InQueue p"
  shows "world_inv (w\<lparr>wd_runtimes := (wd_runtimes w)(ad_runtime ad := rt'), wd_inboxes := (wd_inboxes w)[ad_inbox ad := ib'],
    wd_admissions := (wd_admissions w)[a := ad']\<rparr>)"
proof -
  note inv = world_invD [OF assms(1)]
  let ?ads = "wd_admissions w" let ?ibs = "wd_inboxes w" let ?i = "ad_inbox ad"
  let ?ads' = "?ads[a := ad']" let ?ibs' = "?ibs[?i := ib']" let ?rts' = "(wd_runtimes w)(ad_runtime ad := rt')"
  have old: "admission_ok (wd_runtimes w) ?ibs ad" using inv(3) [OF a] ad by simp
  then have i: "?i < length ?ibs" by (simp add: admission_ok_def)
  have place: "place_of ad' = place_of (?ads ! a)" by (simp add: ad' ad place_of_def)
  have apart: "place_of (?ads ! b) \<noteq> place_of ad" if "b < length ?ads" "b \<noteq> a" for b
    using inv(4) that a ad unfolding unshared_def by blast
  have moves: "all_evolve (wd_runtimes w k) (?rts' k)" for k using evolve rt by simp
  have "admission_ok ?rts' ?ibs' (?ads' ! b)" if b: "b < length ?ads'" for b
  proof (cases "b = a")
    case True
    have "p < length (rn_nodes rt')" if "ad_parent ad = Some p" for p
      using old that evolve rt by (auto simp: admission_ok_def all_evolve_def)
    then show ?thesis using True a old stage i by (simp add: admission_ok_def ad' ib'(2, 3))
  next
    case False
    then have b': "b < length ?ads" "?ads' ! b = ?ads ! b" using b by simp_all
    have "custody (?ibs' ! ad_inbox (?ads ! b)) (ad_entry (?ads ! b)) =
        custody (?ibs ! ad_inbox (?ads ! b)) (ad_entry (?ads ! b))"
      using apart [OF b'(1) False] i by (auto simp: nth_list_update place_of_def ib'(3))
    moreover have "length (ib_store (?ibs ! ad_inbox (?ads ! b))) \<le> length (ib_store (?ibs' ! ad_inbox (?ads ! b)))"
      using i by (simp add: nth_list_update ib'(2))
    ultimately show ?thesis
      unfolding b'(2) using others [OF b'(1) False] rt by (intro admission_ok_frame [OF inv(3) [OF b'(1)] moves]) simp_all
  qed
  moreover have "unshared ?ads'"
    using unshared_update [OF inv(4) a place] fresh by (simp add: ad')
  moreover have "inv_results (?ibs' ! k)" if "k < length ?ibs'" for k
    using that inv(2) ib'(1) i by (simp add: nth_list_update)
  moreover have "owned_by ?rts' ?ibs' ?ads'"
    by (rule owned_by_update [OF inv(5) a ad progress ad' i ib'(3) nodes [unfolded rt] queue [unfolded rt]])
  moreover have "runtime_inv (?rts' k, permits k ?ads')" for k
    using rt' inv(1) [of k] by (cases "k = ad_runtime ad") (simp_all add: permits_update [OF a] ad' ad)
  ultimately show ?thesis by (simp add: world_inv_def)
qed

lemma request_bytes: "validRequest request False \<Longrightarrow> 1 \<le> req_work_bytes request"
  unfolding validRequest_def by (simp only: if_False split: if_splits) linarith

text \<open>An admission in progress keeps its reservation.\<close>

lemma progress_kept:
  assumes "world_inv w" and "a < length (wd_admissions w)" and "ad = wd_admissions w ! a" and "in_progress (ad_stage ad)"
  shows "custody (wd_inboxes w ! ad_inbox ad) (ad_entry ad) = Some None" and "ad_inbox ad < length (wd_inboxes w)"
    and "inv_results (wd_inboxes w ! ad_inbox ad)" and "validRequest (ad_request ad) (ad_parent ad \<noteq> None)"
    and "ad_parent ad = Some p \<Longrightarrow> p < length (rn_nodes (wd_runtimes w (ad_runtime ad)))"
proof -
  note inv = world_invD [OF assms(1)]
  have ok: "admission_ok (wd_runtimes w) (wd_inboxes w) ad" using inv(3) [OF assms(2)] assms(3) by simp
  then show "custody (wd_inboxes w ! ad_inbox ad) (ad_entry ad) = Some None"
    using assms(4) by (simp add: admission_ok_def stage_ok_def in_progress_def split: begin_stage.splits)
  show i: "ad_inbox ad < length (wd_inboxes w)" and "validRequest (ad_request ad) (ad_parent ad \<noteq> None)"
    and "ad_parent ad = Some p \<Longrightarrow> p < length (rn_nodes (wd_runtimes w (ad_runtime ad)))" using ok by (simp_all add: admission_ok_def)
  show "inv_results (wd_inboxes w ! ad_inbox ad)" by (rule inv(2) [OF i])
qed

text \<open>A step that leaves the records alone.\<close>

lemma runtime_stage_step:
  fixes w :: "'v world" and rt' :: "'v runtime"
  assumes "world_inv w" and a: "a < length (wd_admissions w)" and ad: "ad = wd_admissions w ! a"
    and rt: "rt = wd_runtimes w (ad_runtime ad)"
    and progress: "in_progress (ad_stage ad)" "in_progress stage"
    and rt': "runtime_inv (rt', permits (ad_runtime ad) ((wd_admissions w)[a := ad\<lparr>ad_stage := stage\<rparr>]))"
    and nodes: "rn_nodes rt' = rn_nodes rt"
    and queue: "\<And>p. waiting_of (rn_gate rt') p =
      (if stage = InQueue p then Some (req_work_bytes (ad_request ad))
       else if ad_stage ad = InQueue p then None else waiting_of (rn_gate rt) p)"
    and root: "\<And>p. stage = InQueue p \<Longrightarrow> ad_parent ad = None \<and> waiting_of (rn_gate rt) p = None"
  shows "world_inv (set_stage a stage (w\<lparr>wd_runtimes := (wd_runtimes w)(ad_runtime ad := rt')\<rparr>))"
proof -
  note kept = progress_kept [OF assms(1) a ad progress(1)]
  let ?ad = "ad\<lparr>ad_stage := stage\<rparr>" and ?ib = "wd_inboxes w ! ad_inbox ad"
  have other: "stage \<noteq> InQueue p \<and> ad_stage ad \<noteq> InQueue p"
    if "b < length (wd_admissions w)" "b \<noteq> a" "ad_runtime (wd_admissions w ! b) = ad_runtime ad"
      "ad_stage (wd_admissions w ! b) = InQueue p" for b p
  proof
    have "waiting_of (rn_gate rt) p \<noteq> None"
      using world_invD(3) [OF assms(1) that(1)] that(3, 4) rt by (simp add: admission_ok_def stage_ok_def)
    then show "stage \<noteq> InQueue p" using root [of p] by auto
    have "\<not> (is_named (ad_stage (wd_admissions w ! b)) \<and> ad_stage (wd_admissions w ! b) = ad_stage ad)"
      using world_invD(4) [OF assms(1)] that(1, 2, 3) a unfolding unshared_def ad by blast
    then show "ad_stage ad \<noteq> InQueue p" using that(4) by (auto simp: is_named_def)
  qed
  have "world_inv (w\<lparr>wd_runtimes := (wd_runtimes w)(ad_runtime ad := rt'), wd_inboxes := (wd_inboxes w)[ad_inbox ad := ?ib],
    wd_admissions := (wd_admissions w)[a := ?ad]\<rparr>)"
  proof (rule stage_step [OF assms(1) a ad progress(1) refl rt rt' _ kept(3) refl])
    show "all_evolve rt rt'" by (simp add: nodes)
    show "custody ?ib = (custody ?ib)(ad_entry ad := Some None)" using kept(1) by (simp add: fun_upd_idem)
    show "stage_ok rt' (Some None) ?ad"
    proof (cases stage)
      case (InQueue p)
      then show ?thesis using root [OF InQueue] queue [of p] by (simp add: stage_ok_def)
    qed (use progress(2) in \<open>simp_all add: stage_ok_def in_progress_def\<close>)
  next
    fix b p assume b: "b < length (wd_admissions w)" "b \<noteq> a" "ad_runtime (wd_admissions w ! b) = ad_runtime ad"
      "ad_stage (wd_admissions w ! b) = InQueue p"
    then show "waiting_of (rn_gate rt') p = waiting_of (rn_gate rt) p" using queue [of p] other [OF b] by simp
  next
    fix b assume b: "b < length (wd_admissions w)" "b \<noteq> a" "is_named stage" "ad_runtime (wd_admissions w ! b) = ad_runtime ad"
    then obtain p where "stage = InQueue p"
      using progress(2) by (auto simp: is_named_def in_progress_def split: begin_stage.splits)
    then show "ad_stage (wd_admissions w ! b) \<noteq> stage" using other [OF b(1, 2, 4)] by auto
  next
    fix p assume "waiting_of (rn_gate rt') p \<noteq> None"
    then show "waiting_of (rn_gate rt) p \<noteq> None \<and> ad_stage ad \<noteq> InQueue p \<or> stage = InQueue p"
      unfolding queue [of p] by (simp split: if_splits)
  qed (simp add: nodes)
  then show ?thesis by (simp add: set_stage_def ad)
qed

lemma begin_acquire_inv:
  fixes w :: "'v world"
  assumes "world_inv w" and a: "a < length (wd_admissions w)" and "ad_stage (wd_admissions w ! a) = Reserved"
  shows "world_inv (begin_acquire ctx a w)"
proof -
  define ad where "ad = wd_admissions w ! a"
  define rt where "rt = wd_runtimes w (ad_runtime ad)"
  note inv = world_invD(1) [OF assms(1), of "ad_runtime ad", folded rt_def]
  have old: "ad_stage ad = Reserved" "in_progress (ad_stage ad)" using assms(3) by (simp_all add: ad_def in_progress_def)
  note kept = progress_kept [OF assms(1) a ad_def old(2)]
  note step = runtime_stage_step [OF assms(1) a ad_def rt_def old(2)]
  have permits: "permits (ad_runtime ad) ((wd_admissions w)[a := ad\<lparr>ad_stage := stage\<rparr>]) =
      permits (ad_runtime ad) (wd_admissions w) +
      (if ad_parent ad = None \<and> stage = Permitted then {#req_work_bytes (ad_request ad)#} else {#})" for stage
    using old by (simp add: permits_update [OF a] has_permit_def flip: ad_def)
  show ?thesis
  proof (cases "ad_parent ad")
    case (Some p)
    have "world_inv (set_stage a Permitted (w\<lparr>wd_runtimes := (wd_runtimes w)(ad_runtime ad := rt)\<rparr>))"
      by (rule step) (use inv old Some in \<open>simp_all add: in_progress_def permits\<close>)
    then show ?thesis using Some by (simp add: begin_acquire_def Let_def rt_def flip: ad_def)
  next
    case None
    let ?bytes = "req_work_bytes (ad_request ad)"
    obtain result g where enter: "acquire_enter ctx ?bytes (rn_gate rt) = (result, g)" by fastforce
    have bytes: "1 \<le> ?bytes" using request_bytes kept(4) None by simp
    note moved = step_runtime_inv [OF ru_enter [OF enter bytes] inv]
    note queue = enter_waiting [OF enter]
    define stage where "stage = (case result of Inl err \<Rightarrow> Failed err | Inr None \<Rightarrow> Permitted | Inr (Some p) \<Rightarrow> InQueue p)"
    have "world_inv (set_stage a stage (w\<lparr>wd_runtimes := (wd_runtimes w)(ad_runtime ad := rt\<lparr>rn_gate := g\<rparr>)\<rparr>))"
    proof (rule step)
      show "in_progress stage" by (simp add: stage_def in_progress_def split: sum.splits option.splits)
      have "stage = Permitted \<longleftrightarrow> result = Inr None" by (simp add: stage_def split: sum.splits option.splits)
      then show "runtime_inv (rt\<lparr>rn_gate := g\<rparr>, permits (ad_runtime ad) ((wd_admissions w)[a := ad\<lparr>ad_stage := stage\<rparr>]))"
        using moved None by (auto simp: permits)
    next
      show "waiting_of (rn_gate (rt\<lparr>rn_gate := g\<rparr>)) p =
        (if stage = InQueue p then Some ?bytes
         else if ad_stage ad = InQueue p then None else waiting_of (rn_gate rt) p)" for p
        using queue(1) old(1) by (cases result; cases "projr result") (simp_all add: stage_def)
    next
      fix p assume "stage = InQueue p"
      then have "result = Inr (Some p)" by (simp add: stage_def split: sum.splits option.splits)
      then show "ad_parent ad = None \<and> waiting_of (rn_gate rt) p = None" using queue(2) None by simp
    qed simp
    then show ?thesis using None enter by (simp add: begin_acquire_def Let_def stage_def rt_def flip: ad_def)
  qed
qed

lemma begin_wait_inv:
  fixes w :: "'v world"
  assumes "world_inv w" and a: "a < length (wd_admissions w)" and "ad_stage (wd_admissions w ! a) = InQueue p"
  shows "world_inv (begin_wait p a w)"
proof -
  define ad where "ad = wd_admissions w ! a"
  define rt where "rt = wd_runtimes w (ad_runtime ad)"
  note inv = world_invD(1) [OF assms(1), of "ad_runtime ad", folded rt_def]
  have old: "ad_stage ad = InQueue p" "in_progress (ad_stage ad)" using assms(3) by (simp_all add: ad_def in_progress_def)
  note step = runtime_stage_step [OF assms(1) a ad_def rt_def old(2)]
  let ?g = "rn_gate rt" and ?bytes = "req_work_bytes (ad_request ad)"
  have waiting: "ad_parent ad = None" "waiting_of ?g p = Some ?bytes"
    using world_invD(3) [OF assms(1) a] old(1) by (simp_all add: admission_ok_def stage_ok_def rt_def flip: ad_def)
  obtain reply g where return: "acquire_return p ?g = (reply, g)" by fastforce
  have "inv_waiters ?g" using gate_invD(1) [OF runtime_gate [OF inv]] .
  note queue = return_waiting [OF this waiting(2) return]
  note moved = step_runtime_inv [OF ru_return [OF return queue(3, 4)] inv]
  show ?thesis
  proof (cases reply)
    case None
    then show ?thesis using assms(1) return by (simp add: begin_wait_def Let_def rt_def flip: ad_def)
  next
    case (Some result)
    define stage where "stage = (case result of None \<Rightarrow> Permitted | Some err \<Rightarrow> Failed err)"
    have "permits (ad_runtime ad) ((wd_admissions w)[a := ad\<lparr>ad_stage := stage\<rparr>]) =
        permits (ad_runtime ad) (wd_admissions w) + (if result = None then {#?bytes#} else {#})"
      using old waiting by (simp add: permits_update [OF a] has_permit_def stage_def flip: ad_def split: option.splits)
    then have "world_inv (set_stage a stage (w\<lparr>wd_runtimes := (wd_runtimes w)(ad_runtime ad := rt\<lparr>rn_gate := g\<rparr>)\<rparr>))"
      using moved queue(1) Some old queue(2)
      by (intro step; cases result) (simp_all add: stage_def in_progress_def)
    then show ?thesis using Some return by (simp add: begin_wait_def Let_def stage_def rt_def flip: ad_def)
  qed
qed

lemma publish_event_inv: "runtime_inv (rt, entering) \<Longrightarrow> runtime_inv (publish_event obs e rt, entering)"
  by (simp add: runtime_inv_def runtime_core_def nodes_ok_def roots_ok_def)

lemma newNode_frame:
  assumes "newNodeLocked lifetime request parent observer rt = (Inr n, rt')"
  shows "n = length (rn_nodes rt)" and "length (rn_nodes rt') = Suc n" and "rn_gate rt' = rn_gate rt"
  using assms by (cases rule: newNode_cases; cases parent; simp)+

text \<open>Giving up: the permit of a root goes back, the reservation stays until it is aborted.\<close>

lemma begin_fail_inv:
  fixes w :: "'v world"
  assumes "world_inv w" and a: "a < length (wd_admissions w)" and ad: "ad = wd_admissions w ! a" "ad_stage ad = Permitted"
    and rt: "rt = wd_runtimes w (ad_runtime ad)"
    and rt': "rt' = (if ad_parent ad = None
      then rt\<lparr>rn_gate := releasePermitLocked (req_work_bytes (ad_request ad)) (rn_gate rt)\<rparr> else rt)"
  shows "world_inv (set_stage a (Failed err) (w\<lparr>wd_runtimes := (wd_runtimes w)(ad_runtime ad := rt')\<rparr>))"
proof (rule runtime_stage_step [OF assms(1) a ad(1) rt])
  note inv = world_invD(1) [OF assms(1), of "ad_runtime ad", folded rt]
  have permits: "permits (ad_runtime ad) ((wd_admissions w)[a := ad\<lparr>ad_stage := Failed err\<rparr>]) =
      permits (ad_runtime ad) (wd_admissions w) -
      (if ad_parent ad = None then {#req_work_bytes (ad_request ad)#} else {#})"
    using ad(2) by (simp add: permits_update [OF a] has_permit_def flip: ad(1))
  have "ad_parent ad = None \<Longrightarrow> req_work_bytes (ad_request ad) \<in># permits (ad_runtime ad) (wd_admissions w)"
    using permits_member [OF a] ad(2) by (simp add: has_permit_def flip: ad(1))
  then show "runtime_inv (rt', permits (ad_runtime ad) ((wd_admissions w)[a := ad\<lparr>ad_stage := Failed err\<rparr>]))"
    using inv step_runtime_inv [OF ru_abandon inv] unfolding permits rt' by simp
qed (use ad(2) rt' in \<open>simp_all add: in_progress_def\<close>)

lemma begin_accept_inv:
  fixes w :: "'v world"
  assumes "world_inv w" and a: "a < length (wd_admissions w)" and ad: "ad = wd_admissions w ! a" "ad_stage ad = Permitted"
    and rt: "rt = wd_runtimes w (ad_runtime ad)"
    and node: "newNodeLocked lifetime (ad_request ad) (ad_parent ad) observer rt = (Inr n, rt')"
  shows "world_inv (set_stage a (Accepted n) (w\<lparr>wd_runtimes := (wd_runtimes w)(ad_runtime ad := publish_event observer e rt'),
    wd_inboxes := (wd_inboxes w)[ad_inbox ad :=
      evidence_commit (ad_entry ad) (ad_runtime ad, n) (wd_inboxes w ! ad_inbox ad)]\<rparr>))"
proof -
  note inv = world_invD(1) [OF assms(1), of "ad_runtime ad", folded rt]
  have progress: "in_progress (ad_stage ad)" using ad(2) by (simp add: in_progress_def)
  note kept = progress_kept [OF assms(1) a ad(1) progress]
  note grown = newNode_frame [OF node]
  let ?rt = "publish_event observer e rt'" and ?ad = "ad\<lparr>ad_stage := Accepted n\<rparr>"
  let ?permits = "permits (ad_runtime ad)" and ?ib = "wd_inboxes w ! ad_inbox ad"
  have permits: "?permits ((wd_admissions w)[a := ?ad]) = ?permits (wd_admissions w) -
      (if ad_parent ad = None then {#req_work_bytes (ad_request ad)#} else {#})"
    using ad(2) by (simp add: permits_update [OF a] has_permit_def flip: ad(1))
  have "runtime_inv (rt', ?permits ((wd_admissions w)[a := ?ad]))"
  proof (cases "ad_parent ad")
    case None
    then have "req_work_bytes (ad_request ad) \<in># ?permits (wd_admissions w)"
      using permits_member [OF a] ad(2) by (simp add: has_permit_def flip: ad(1))
    then show ?thesis
      using step_runtime_inv [OF ru_root inv, of lifetime _ observer n rt'] node kept(4) None unfolding permits by simp
  next
    case (Some p)
    then show ?thesis
      using step_runtime_inv [OF ru_child inv, of lifetime _ p observer n rt'] node kept(4) kept(5) [folded rt]
      unfolding permits by simp
  qed
  then have moved: "runtime_inv (?rt, ?permits ((wd_admissions w)[a := ?ad]))" by (rule publish_event_inv)
  have evolve: "all_evolve rt ?rt"
    using newNodeLocked_evolve [OF node] by (simp add: all_evolve_def)
  have "world_inv (w\<lparr>wd_runtimes := (wd_runtimes w)(ad_runtime ad := ?rt), wd_inboxes := (wd_inboxes w)[ad_inbox ad :=
      evidence_commit (ad_entry ad) (ad_runtime ad, n) ?ib], wd_admissions := (wd_admissions w)[a := ?ad]\<rparr>)"
  proof (rule stage_step [OF assms(1) a ad(1) progress refl rt moved evolve])
    show "ad_stage (wd_admissions w ! b) \<noteq> Accepted n"
      if "b < length (wd_admissions w)" "ad_runtime (wd_admissions w ! b) = ad_runtime ad" for b
      using world_invD(3) [OF assms(1) that(1)] that(2) grown(1) rt by (auto simp: admission_ok_def stage_ok_def)
  next
    show "waiting_of (rn_gate ?rt) p \<noteq> None \<Longrightarrow>
      waiting_of (rn_gate rt) p \<noteq> None \<and> ad_stage ad \<noteq> InQueue p \<or> Accepted n = InQueue p" for p
      using ad(2) by (simp add: grown(3))
  qed (use commit_custody [OF kept(3, 1), of "(ad_runtime ad, n)"] grown in \<open>auto simp: stage_ok_def\<close>)
  then show ?thesis by (simp add: set_stage_def flip: ad(1))
qed

lemma begin_commit_inv:
  fixes w :: "'v world"
  assumes "world_inv w" and a: "a < length (wd_admissions w)" and "ad_stage (wd_admissions w ! a) = Permitted"
  shows "world_inv (begin_commit ctx lifetime a w)"
proof -
  define ad where "ad = wd_admissions w ! a"
  define rt where "rt = wd_runtimes w (ad_runtime ad)"
  have ad: "ad_stage ad = Permitted" using assms(3) by (simp add: ad_def)
  define attempt where "attempt = (if ctx_err ctx \<noteq> None
      then (Inl (failureOf operation_ErrWait ''begin'' (rn_name rt) no_operation [ctx_err ctx, ctx_cause ctx]), rt)
      else newNodeLocked lifetime (ad_request ad) (ad_parent ad) (ep_observer (ad_endpoint ad)) rt)"
  obtain result rt' where attempt: "attempt = (result, rt')" by fastforce
  show ?thesis
  proof (cases result)
    case (Inl err)
    have "world_inv (set_stage a (Failed err) (if ad_parent ad = None then w\<lparr>wd_runtimes := (wd_runtimes w)(ad_runtime ad :=
        rt\<lparr>rn_gate := releasePermitLocked (req_work_bytes (ad_request ad)) (rn_gate rt)\<rparr>)\<rparr> else w))"
      using begin_fail_inv [OF assms(1) a ad_def ad rt_def refl, of err] by (cases "ad_parent ad") (simp_all add: rt_def)
    then show ?thesis using attempt Inl unfolding begin_commit_def Let_def attempt_def rt_def ad_def by simp
  next
    case (Inr n)
    then have "newNodeLocked lifetime (ad_request ad) (ad_parent ad) (ep_observer (ad_endpoint ad)) rt = (Inr n, rt')"
      using attempt by (simp add: attempt_def split: if_splits)
    from begin_accept_inv [OF assms(1) a ad_def ad rt_def this] show ?thesis
      using attempt Inr unfolding begin_commit_def Let_def attempt_def rt_def ad_def by simp
  qed
qed

lemma begin_abort_inv:
  fixes w :: "'v world"
  assumes "world_inv w" and a: "a < length (wd_admissions w)" and "ad_stage (wd_admissions w ! a) = Failed err"
  shows "world_inv (begin_abort err a w)"
proof -
  define ad where "ad = wd_admissions w ! a"
  note inv = world_invD [OF assms(1)]
  have ad: "ad_stage ad = Failed err" "in_progress (ad_stage ad)" using assms(3) by (simp_all add: ad_def in_progress_def)
  note kept = progress_kept [OF assms(1) a ad_def ad(2)]
  let ?ad = "ad\<lparr>ad_stage := Refused err\<rparr>"
  let ?k = "ad_runtime ad"
  have "permits ?k ((wd_admissions w)[a := ?ad]) = permits ?k (wd_admissions w)"
    using ad(1) by (simp add: permits_update [OF a] has_permit_def flip: ad_def)
  then have moved: "runtime_inv (wd_runtimes w ?k, permits ?k ((wd_admissions w)[a := ?ad]))" using inv(1) by simp
  have "world_inv (w\<lparr>wd_runtimes := (wd_runtimes w)(?k := wd_runtimes w ?k), wd_inboxes := (wd_inboxes w)[ad_inbox ad :=
      evidence_abort (ad_entry ad) (wd_inboxes w ! ad_inbox ad)], wd_admissions := (wd_admissions w)[a := ?ad]\<rparr>)"
    by (rule stage_step [OF assms(1) a ad_def ad(2) refl refl moved _ abort_custody(2, 3, 1) [OF kept(3, 1)]])
      (simp_all add: stage_ok_def is_named_def ad(1))
  then show ?thesis by (simp add: begin_abort_def set_stage_def Let_def flip: ad_def)
qed

lemma unshared_append:
  assumes "unshared ads" and "\<And>b. b < length ads \<Longrightarrow> place_of (ads ! b) \<noteq> place_of ad" and "\<not> is_named (ad_stage ad)"
  shows "unshared (ads @ [ad])"
  unfolding unshared_def
proof (intro allI impI)
  fix x y assume xy: "x < length (ads @ [ad])" "y < length (ads @ [ad])" "x \<noteq> y"
  consider "x < length ads" "y < length ads" | "x = length ads" "y < length ads" | "x < length ads" "y = length ads"
    using xy by (auto simp: less_Suc_eq)
  then show "place_of ((ads @ [ad]) ! x) \<noteq> place_of ((ads @ [ad]) ! y) \<and>
    (is_named (ad_stage ((ads @ [ad]) ! x)) \<and> ad_runtime ((ads @ [ad]) ! x) = ad_runtime ((ads @ [ad]) ! y) \<longrightarrow>
       ad_stage ((ads @ [ad]) ! x) \<noteq> ad_stage ((ads @ [ad]) ! y))"
  proof cases
    case 1
    then show ?thesis using assms(1) xy(3) by (simp add: nth_append unshared_def)
  next
    case 2
    then show ?thesis using assms(2) [of y] assms(3) by (auto simp: nth_append)
  next
    case 3
    then show ?thesis using assms(2) [of x] assms(3) by (auto simp: nth_append)
  qed
qed

lemma owned_by_append:
  assumes "owned_by rts ibs ads"
    and "\<And>k x. k < length ibs' \<Longrightarrow> custody (ibs' ! k) x \<noteq> None \<Longrightarrow> (k, x) \<noteq> place_of ad \<Longrightarrow>
      k < length ibs \<and> custody (ibs ! k) x \<noteq> None"
  shows "owned_by rts ibs' (ads @ [ad])"
  unfolding owned_by_def
proof (intro conjI allI impI)
  have keep: "\<exists>b < length (ads @ [ad]). P ((ads @ [ad]) ! b)" if "\<exists>b < length ads. P (ads ! b)" for P
    using that by (auto simp: nth_append intro: less_SucI)
  show "\<exists>b < length (ads @ [ad]). ad_runtime ((ads @ [ad]) ! b) = k \<and> ad_stage ((ads @ [ad]) ! b) = Accepted n"
    if "n < length (rn_nodes (rts k))" for k n
    by (rule keep) (use assms(1) that in \<open>simp add: owned_by_def\<close>)
  show "\<exists>b < length (ads @ [ad]). ad_runtime ((ads @ [ad]) ! b) = k \<and> ad_stage ((ads @ [ad]) ! b) = InQueue p"
    if "waiting_of (rn_gate (rts k)) p \<noteq> None" for k p
    by (rule keep) (use assms(1) that in \<open>simp add: owned_by_def\<close>)
  show "\<exists>b < length (ads @ [ad]). place_of ((ads @ [ad]) ! b) = (k, x)" if "k < length ibs' \<and> custody (ibs' ! k) x \<noteq> None" for k x
  proof (cases "(k, x) = place_of ad")
    case False
    then have "k < length ibs \<and> custody (ibs ! k) x \<noteq> None" using assms(2) that by blast
    then show ?thesis by (intro keep) (use assms(1) in \<open>simp add: owned_by_def\<close>)
  qed (rule exI [of _ "length ads"], simp)
qed

text \<open>A new admission.\<close>

lemma begin_reserve_inv:
  fixes w :: "'v world"
  assumes "world_inv w" and "begin_reserve (Some ep) ctx lifetime request parent w = (result, w')"
    and i: "ep_inbox ep < length (wd_inboxes w)"
    and parent: "\<And>k p. parent = ChildOf k p \<Longrightarrow> p < length (rn_nodes (wd_runtimes w k))"
  shows "world_inv w'"
proof (cases result)
  case (Inl err)
  then have "w' = w" using assms(2) by (auto simp: begin_reserve_def Let_def split: if_splits prod.splits sum.splits)
  then show ?thesis using assms(1) by simp
next
  case (Inr a)
  note inv = world_invD [OF assms(1)]
  let ?ib = "wd_inboxes w ! ep_inbox ep"
  obtain e handle where reserve: "reserve (req_evidence_bytes request) (Some ?ib) = (Inr e, handle)"
    and valid: "validRequest request (parent \<noteq> NoParent)" "\<not> foreign_scope parent (ep_runtime ep)"
    and w': "w' = w\<lparr>wd_inboxes := (wd_inboxes w)[ep_inbox ep := the handle], wd_admissions := wd_admissions w @
      [\<lparr>ad_endpoint = ep, ad_request = request, ad_parent = scope_node parent, ad_entry = e, ad_stage = Reserved\<rparr>]\<rparr>"
    using assms(2) Inr by (auto simp: begin_reserve_def Let_def split: if_splits prod.splits sum.splits)
  obtain ib' where ib': "handle = Some ib'" "e = length (ib_store ?ib)" "length (ib_store ib') = Suc e"
    "custody ib' = (custody ?ib)(e := Some None)" "inv_results ib'"
    by (rule reserve_custody [OF inv(2) [OF i] reserve])
  let ?ads = "wd_admissions w" and ?ibs = "(wd_inboxes w)[ep_inbox ep := ib']"
  define ad where "ad = \<lparr>ad_endpoint = ep, ad_request = request, ad_parent = scope_node parent, ad_entry = e,
    ad_stage = Reserved\<rparr>"
  have child: "ad_parent ad \<noteq> None \<longleftrightarrow> parent \<noteq> NoParent"
    by (cases parent) (simp_all add: ad_def scope_node_def)
  have new: "admission_ok (wd_runtimes w) ?ibs ad"
    using i parent valid unfolding admission_ok_def child
    by (auto simp: ad_def scope_node_def foreign_scope_def stage_ok_def ib'(3, 4) split: parent_scope.splits)
  have apart: "place_of (?ads ! b) \<noteq> place_of ad" if "b < length ?ads" for b
    using inv(3) [OF that] by (auto simp: admission_ok_def place_of_def ad_def ib'(2))
  have old: "admission_ok (wd_runtimes w) ?ibs (?ads ! b)" if b: "b < length ?ads" for b
  proof (rule admission_ok_frame [OF inv(3) [OF b]])
    show "custody (?ibs ! ad_inbox (?ads ! b)) (ad_entry (?ads ! b)) = custody (wd_inboxes w ! ad_inbox (?ads ! b)) (ad_entry (?ads ! b)) \<or>
      (\<exists>n. ad_stage (?ads ! b) = Accepted n \<and> nd_released (rn_nodes (wd_runtimes w (ad_runtime (?ads ! b))) ! n) \<and>
        custody (?ibs ! ad_inbox (?ads ! b)) (ad_entry (?ads ! b)) = None)"
      using apart [OF b] i by (auto simp: nth_list_update place_of_def ad_def ib'(4))
  qed (use i ib'(2, 3) in \<open>simp_all add: nth_list_update\<close>)
  have "unshared (?ads @ [ad])"
    by (rule unshared_append [OF inv(4) apart]) (simp_all add: ad_def is_named_def)
  moreover have "owned_by (wd_runtimes w) ?ibs (?ads @ [ad])"
  proof (rule owned_by_append [OF inv(5)])
    fix k x assume "k < length ?ibs" "custody (?ibs ! k) x \<noteq> None" "(k, x) \<noteq> place_of ad"
    then show "k < length (wd_inboxes w) \<and> custody (wd_inboxes w ! k) x \<noteq> None"
      using i by (auto simp: nth_list_update place_of_def ad_def ib'(4) split: if_splits)
  qed
  moreover have "permits k (?ads @ [ad]) = permits k ?ads" for k by (simp add: permits_def has_permit_def ad_def)
  moreover have "inv_results (?ibs ! k)" if "k < length ?ibs" for k
    using that inv(2) ib'(5) i by (simp add: nth_list_update)
  moreover have "admission_ok (wd_runtimes w) ?ibs ((?ads @ [ad]) ! b)" if "b < length (?ads @ [ad])" for b
    using that old new by (cases "b < length ?ads") (auto simp: nth_append less_Suc_eq)
  ultimately show ?thesis using inv(1) by (simp add: w' ib'(1) world_inv_def flip: ad_def)
qed

text \<open>Steps of the runtime and of the inboxes that no admission takes.\<close>

lemma call_step_inv:
  fixes w :: "'v world"
  assumes "world_inv w" and "call_step (wd_runtimes w k) rt"
  shows "world_inv (w\<lparr>wd_runtimes := (wd_runtimes w)(k := rt)\<rparr>)"
proof -
  note inv = world_invD [OF assms(1)]
  let ?rts = "(wd_runtimes w)(k := rt)"
  note step = call_step_runtime [OF assms(2), of "permits k (wd_admissions w)"]
  note frame = call_step_frame [OF assms(2)]
  have evolve: "all_evolve (wd_runtimes w j) (?rts j)" for j using step_evolves [OF step inv(1)] by simp
  have same: "length (rn_nodes (?rts j)) = length (rn_nodes (wd_runtimes w j))"
    "waiting_of (rn_gate (?rts j)) = waiting_of (rn_gate (wd_runtimes w j))" for j by (simp_all add: frame)
  have "admission_ok ?rts (wd_inboxes w) (wd_admissions w ! a)" if "a < length (wd_admissions w)" for a
    by (rule admission_ok_frame [OF inv(3) [OF that] evolve]) (simp_all add: frame)
  moreover have "owned_by ?rts (wd_inboxes w) (wd_admissions w)"
    using inv(5) unfolding owned_by_def same .
  moreover have "runtime_inv (?rts j, permits j (wd_admissions w))" for j
    using step_runtime_inv [OF step inv(1)] inv(1) [of j] by simp
  ultimately show ?thesis
    using inv(2, 4) by (simp add: world_inv_def)
qed

lemma inbox_step_inv:
  fixes w :: "'v world"
  assumes "world_inv w" and i: "i < length (wd_inboxes w)" and "inv_results ib"
    and "length (ib_store ib) = length (ib_store (wd_inboxes w ! i))"
    and kept: "custody ib = custody (wd_inboxes w ! i) \<or> (\<exists>e r. custody (wd_inboxes w ! i) e = Some (Some r) \<and>
      world_ended w r \<and> custody ib = (custody (wd_inboxes w ! i))(e := None))"
  shows "world_inv (w\<lparr>wd_inboxes := (wd_inboxes w)[i := ib]\<rparr>)"
proof -
  note inv = world_invD [OF assms(1)]
  let ?ibs = "(wd_inboxes w)[i := ib]"
  have "admission_ok (wd_runtimes w) ?ibs ad" if "a < length (wd_admissions w)" "ad = wd_admissions w ! a" for a ad
  proof -
    have ok: "admission_ok (wd_runtimes w) (wd_inboxes w) ad" using inv(3) that by simp
    show ?thesis
    proof (rule admission_ok_frame [OF ok])
      show "custody (?ibs ! ad_inbox ad) (ad_entry ad) = custody (wd_inboxes w ! ad_inbox ad) (ad_entry ad) \<or>
        (\<exists>n. ad_stage ad = Accepted n \<and> nd_released (rn_nodes (wd_runtimes w (ad_runtime ad)) ! n) \<and>
          custody (?ibs ! ad_inbox ad) (ad_entry ad) = None)"
      proof (cases "custody (?ibs ! ad_inbox ad) (ad_entry ad) = custody (wd_inboxes w ! ad_inbox ad) (ad_entry ad)")
        case False
        then have "ad_inbox ad = i" by (cases "ad_inbox ad = i") simp_all
        with False kept i obtain r where r: "custody (wd_inboxes w ! ad_inbox ad) (ad_entry ad) = Some (Some r)"
          "world_ended w r" and gone: "custody (?ibs ! ad_inbox ad) (ad_entry ad) = None"
          by (auto split: if_splits)
        then obtain n where "ad_stage ad = Accepted n" "r = (ad_runtime ad, n)"
          using ok r(1) by (auto simp: admission_ok_def stage_ok_def split: begin_stage.splits)
        then show ?thesis using r(2) gone by (simp add: world_ended_def work_ended_def)
      qed simp
    qed (use i assms(4) in \<open>simp_all add: nth_list_update\<close>)
  qed
  moreover have "custody (?ibs ! k) e \<noteq> None \<Longrightarrow> custody (wd_inboxes w ! k) e \<noteq> None" for k e
    using kept i by (cases "k = i") (auto split: if_splits)
  then have "owned_by (wd_runtimes w) ?ibs (wd_admissions w)"
    using inv(5) unfolding owned_by_def by (metis length_list_update)
  moreover have "inv_results (?ibs ! k)" if "k < length ?ibs" for k
    using that inv(2) assms(3) i by (simp add: nth_list_update)
  ultimately show ?thesis using inv(1, 4) by (simp add: world_inv_def)
qed

lemma seal_custody:
  assumes "inv_results ib" and "Inbox_Seal (Some ib) = (err, Some ib')"
  shows "inv_results ib'" "custody ib' = custody ib" "ib_store ib' = ib_store ib"
proof -
  have ib': "ib' = ib\<lparr>ib_closed := True\<rparr>" using assms(2) by (simp add: Inbox_Seal_def)
  have "inbox_inv ib'" by (rule inboxes.step_inv [OF inv_resultsD(1) [OF assms(1)] ib_seal [OF assms(2)]])
  then show "inv_results ib'" using inv_resultsD(2, 5) [OF assms(1)] by (simp add: ib' inv_results_def holds_def)
qed (use assms(2) in \<open>auto simp: Inbox_Seal_def custody_def\<close>)

lemma world_initial_inv: "world_initial w \<Longrightarrow> world_inv w"
proof -
  assume initial: "world_initial w"
  then have none: "wd_admissions w = []" by (simp add: world_initial_def)
  have runtime: "runtime_inv (wd_runtimes w k, {#}) \<and> rn_nodes (wd_runtimes w k) = [] \<and>
      rt_waiters (rn_gate (wd_runtimes w k)) = []" for k
  proof -
    obtain ctx opts observers where new: "Runtime_New ctx opts observers = Inr (wd_runtimes w k)"
      using initial unfolding world_initial_def by blast
    then show ?thesis
      using Runtime_New_inv [OF new]
      by (auto simp: Runtime_New_def operation_New_def Let_def split: sum.splits option.splits if_splits
          dest!: sym [of _ "wd_runtimes w k"])
  qed
  have "inv_results ib \<and> custody ib = (\<lambda>e. None)" if "ib \<in> set (wd_inboxes w)" for ib
  proof -
    have ib: "inbox_initial ib" using initial that by (simp add: world_initial_def)
    then have "ib_entries ib = []" "ib_claims ib = []"
      by (auto simp: inbox_initial_def NewInbox_def Let_def split: if_splits)
    then show ?thesis using inboxes.initial_inv [OF ib] by (simp add: inv_results_def holds_def custody_def fun_eq_iff)
  qed
  then have "\<forall>i < length (wd_inboxes w). inv_results (wd_inboxes w ! i) \<and> custody (wd_inboxes w ! i) = (\<lambda>e. None)" by simp
  then show "world_inv w"
    using runtime none
    by (simp add: world_inv_def permits_def unshared_def owned_by_def waiting_of_def)
qed

lemma world_step_inv:
  assumes "world_inv w" and "world_step w w'"
  shows "world_inv w'"
  using assms(2, 1)
proof (induction rule: world_step.induct)
  case (wd_next i w releasedOnly ctx reply ib)
  note claimed = next_custody [OF world_invD(2) [OF wd_next(3, 1)] wd_next(2)]
  show ?case by (rule inbox_step_inv [OF wd_next(3, 1) claimed(2, 3)]) (simp add: claimed(1))
next
  case (wd_end i w c retry)
  from end_custody [OF world_invD(2) [OF wd_end(3, 1)] wd_end(2) refl]
  show ?case by (intro inbox_step_inv [OF wd_end(3, 1)]) blast+
next
  case (wd_seal i w err ib)
  note sealed = seal_custody [OF world_invD(2) [OF wd_seal(3, 1)] wd_seal(2)]
  show ?case by (rule inbox_step_inv [OF wd_seal(3, 1) sealed(1)]) (simp_all add: sealed)
qed (blast intro: begin_reserve_inv begin_acquire_inv begin_wait_inv begin_commit_inv begin_abort_inv call_step_inv)+

interpretation worlds: transition_system world_initial world_step world_inv
  by unfold_locales (rule world_initial_inv, assumption, rule world_step_inv)

end
