(* ===== verification/World_Behaviour.thy ===== *)
theory World_Behaviour
  imports Operation_World
begin

text \<open>
  What holds of accepted operations, refused callers and their evidence in every reachable state of the runtimes
  and the inboxes they report to.
\<close>

section \<open>What admissions guarantee\<close>

lemma record_owner:
  assumes "world_inv w" and "i < length (wd_inboxes w)" and "custody (wd_inboxes w ! i) e = Some r"
  obtains a where "a < length (wd_admissions w)" "place_of (wd_admissions w ! a) = (i, e)"
    "stage_ok (wd_runtimes w (ad_runtime (wd_admissions w ! a))) (Some r) (wd_admissions w ! a)"
proof -
  obtain a where a: "a < length (wd_admissions w)" "place_of (wd_admissions w ! a) = (i, e)"
    using world_invD(5) [OF assms(1)] assms(2, 3) unfolding owned_by_def by blast
  moreover have "stage_ok (wd_runtimes w (ad_runtime (wd_admissions w ! a))) (Some r) (wd_admissions w ! a)"
    using world_invD(3) [OF assms(1) a(1)] a(2) assms(3) by (simp add: admission_ok_def place_of_def)
  ultimately show thesis by (rule that)
qed

lemma record_accepted:
  assumes "world_inv w" and "i < length (wd_inboxes w)" and "custody (wd_inboxes w ! i) e = Some (Some (k, n))"
  obtains a where "a < length (wd_admissions w)" "place_of (wd_admissions w ! a) = (i, e)"
    "ad_runtime (wd_admissions w ! a) = k" "ad_stage (wd_admissions w ! a) = Accepted n"
    "n < length (rn_nodes (wd_runtimes w k))"
proof -
  obtain a where a: "a < length (wd_admissions w)" "place_of (wd_admissions w ! a) = (i, e)"
    "stage_ok (wd_runtimes w (ad_runtime (wd_admissions w ! a))) (Some (Some (k, n))) (wd_admissions w ! a)"
    by (rule record_owner [OF assms])
  then have "ad_runtime (wd_admissions w ! a) = k" "ad_stage (wd_admissions w ! a) = Accepted n"
    "n < length (rn_nodes (wd_runtimes w k))"
    by (auto simp: stage_ok_def split: begin_stage.splits)
  then show thesis using that a(1, 2) by blast
qed

lemma accepted_once:
  assumes "world_inv w" and "a < length (wd_admissions w)" and "b < length (wd_admissions w)"
    and "ad_runtime (wd_admissions w ! a) = ad_runtime (wd_admissions w ! b)"
    and "ad_stage (wd_admissions w ! a) = Accepted n" and "ad_stage (wd_admissions w ! b) = Accepted n"
  shows "a = b"
proof (rule ccontr)
  assume "a \<noteq> b"
  then have "is_named (ad_stage (wd_admissions w ! a)) \<longrightarrow> ad_stage (wd_admissions w ! a) \<noteq> ad_stage (wd_admissions w ! b)"
    using world_invD(4) [OF assms(1)] assms(2, 3, 4) unfolding unshared_def by blast
  then show False using assms(5, 6) by (simp add: is_named_def)
qed

text \<open>Where a record can be found.\<close>

lemma record_place:
  assumes "inv_results ib" and "custody ib e = Some (Some r)"
  shows "e \<in> set (ib_queue ib) \<or> (\<exists>c. holds ib c e)" and "ee_result (ib_store ib ! e) = Some r"
proof -
  have e: "e \<in> set (ib_entries ib)" "ee_result (ib_store ib ! e) = Some r"
    using assms(2) by (simp_all add: custody_def split: if_splits)
  then show "ee_result (ib_store ib ! e) = Some r" by simp
  have "\<not> ee_reserved (ib_store ib ! e)" using inv_resultsD(5) [OF assms(1) e(1)] e(2) by simp
  then show "e \<in> set (ib_queue ib) \<or> (\<exists>c. holds ib c e)"
    using inbox_invD(1, 2) [OF inv_resultsD(1) [OF assms(1)]] e(1) by (auto simp: inv_custody_def inv_claims_def)
qed

text \<open>C36: accepted work keeps its evidence. In every reachable state of the runtimes and the inboxes their
  endpoints report to, shared or not, whatever callers are being admitted, work is finishing and deliveries are
  being settled: the record of an operation that has not been released is in custody, queued or held by a
  delivery; no operation has two records; and every record that is not a reservation belongs to an accepted
  operation of its runtime.\<close>

theorem evidence_until_released:
  fixes w :: "'v world"
  assumes "reach world_initial world_step w"
  shows "(\<forall>k. \<forall>n < length (rn_nodes (wd_runtimes w k)). \<not> nd_released (rn_nodes (wd_runtimes w k) ! n) \<longrightarrow>
      (\<exists>i < length (wd_inboxes w). \<exists>e. ee_result (ib_store (wd_inboxes w ! i) ! e) = Some (k, n) \<and>
         (e \<in> set (ib_queue (wd_inboxes w ! i)) \<or> (\<exists>c. holds (wd_inboxes w ! i) c e)))) \<and>
    (\<forall>i < length (wd_inboxes w). \<forall>e k n. custody (wd_inboxes w ! i) e = Some (Some (k, n)) \<longrightarrow>
       n < length (rn_nodes (wd_runtimes w k)) \<and>
       (\<forall>i' < length (wd_inboxes w). \<forall>e'. custody (wd_inboxes w ! i') e' = Some (Some (k, n)) \<longrightarrow> i' = i \<and> e' = e))"
proof (intro conjI allI impI)
  note inv = worlds.reach_inv [OF assms]
  let ?rts = "wd_runtimes w" and ?ads = "wd_admissions w"
  {
    fix k n assume n: "n < length (rn_nodes (?rts k))" "\<not> nd_released (rn_nodes (?rts k) ! n)"
    then obtain a where a: "a < length ?ads" "ad_runtime (?ads ! a) = k" "ad_stage (?ads ! a) = Accepted n"
      using world_invD(5) [OF inv] unfolding owned_by_def by blast
    let ?i = "ad_inbox (?ads ! a)" and ?e = "ad_entry (?ads ! a)"
    have i: "?i < length (wd_inboxes w)" and kept: "custody (wd_inboxes w ! ?i) ?e = Some (Some (k, n))"
      using world_invD(3) [OF inv a(1)] a(2, 3) n(2) by (auto simp: admission_ok_def stage_ok_def)
    show "\<exists>i < length (wd_inboxes w). \<exists>e. ee_result (ib_store (wd_inboxes w ! i) ! e) = Some (k, n) \<and>
         (e \<in> set (ib_queue (wd_inboxes w ! i)) \<or> (\<exists>c. holds (wd_inboxes w ! i) c e))"
      using i record_place [OF world_invD(2) [OF inv i] kept] by blast
  next
    fix i e k n assume r: "i < length (wd_inboxes w)" "custody (wd_inboxes w ! i) e = Some (Some (k, n))"
    obtain a where a: "a < length ?ads" "place_of (?ads ! a) = (i, e)" "ad_runtime (?ads ! a) = k"
      "ad_stage (?ads ! a) = Accepted n" "n < length (rn_nodes (?rts k))" by (rule record_accepted [OF inv r])
    show "n < length (rn_nodes (?rts k))" by (rule a(5))
    fix i' e' assume r': "i' < length (wd_inboxes w)" "custody (wd_inboxes w ! i') e' = Some (Some (k, n))"
    obtain b where b: "b < length ?ads" "place_of (?ads ! b) = (i', e')" "ad_runtime (?ads ! b) = k"
      "ad_stage (?ads ! b) = Accepted n" by (rule record_accepted [OF inv r'])
    have "a = b" by (rule accepted_once [OF inv a(1) b(1) _ a(4) b(4)]) (simp add: a(3) b(3))
    then show "i' = i" "e' = e" using a(2) b(2) by simp_all
  }
qed

definition is_accepted :: "begin_stage \<Rightarrow> bool" where
  "is_accepted stage \<longleftrightarrow> (case stage of Accepted _ \<Rightarrow> True | _ \<Rightarrow> False)"

lemma accepted_nodes:
  fixes w :: "'v world"
  assumes "world_inv w"
  shows "length (filter (\<lambda>ad. ad_runtime ad = k \<and> is_accepted (ad_stage ad)) (wd_admissions w)) =
    length (rn_nodes (wd_runtimes w k))"
proof -
  let ?ads = "wd_admissions w" and ?nodes = "rn_nodes (wd_runtimes w k)"
  let ?S = "{a. a < length ?ads \<and> ad_runtime (?ads ! a) = k \<and> is_accepted (ad_stage (?ads ! a))}"
  define node where "node a = (case ad_stage (?ads ! a) of Accepted n \<Rightarrow> n | _ \<Rightarrow> 0)" for a
  have node: "ad_stage (?ads ! a) = Accepted (node a)" if "a \<in> ?S" for a
    using that by (auto simp: node_def is_accepted_def split: begin_stage.splits)
  have inj: "inj_on node ?S"
  proof (rule inj_onI)
    fix a b assume ab: "a \<in> ?S" "b \<in> ?S" and same: "node a = node b"
    show "a = b" by (rule accepted_once [OF assms _ _ _ node [OF ab(1)]]) (use ab node [OF ab(2)] same in simp_all)
  qed
  have "node ` ?S = {..<length ?nodes}"
  proof
    show "node ` ?S \<subseteq> {..<length ?nodes}"
    proof (rule image_subsetI)
      fix a assume a: "a \<in> ?S"
      then have "admission_ok (wd_runtimes w) (wd_inboxes w) (?ads ! a)" by (intro world_invD(3) [OF assms]) simp
      then show "node a \<in> {..<length ?nodes}" using node [OF a] a by (auto simp: admission_ok_def stage_ok_def)
    qed
    show "{..<length ?nodes} \<subseteq> node ` ?S"
    proof
      fix n assume "n \<in> {..<length ?nodes}"
      then obtain a where "a < length ?ads" "ad_runtime (?ads ! a) = k" "ad_stage (?ads ! a) = Accepted n"
        using world_invD(5) [OF assms] unfolding owned_by_def by blast
      then show "n \<in> node ` ?S" by (intro image_eqI [of _ _ a]) (simp_all add: node_def is_accepted_def)
    qed
  qed
  then have "card ?S = length ?nodes" using card_image [OF inj] by simp
  then show ?thesis by (simp add: length_filter_conv_card)
qed

lemma no_reservation:
  assumes "world_inv w" and i: "i < length (wd_inboxes w)"
    and "\<forall>ad\<in>set (wd_admissions w). ad_inbox ad = i \<longrightarrow> \<not> in_progress (ad_stage ad)"
  shows "ib_pending (wd_inboxes w ! i) = 0"
proof -
  let ?ib = "wd_inboxes w ! i"
  note inv = world_invD(2) [OF assms(1) i]
  have "\<not> ee_reserved (ib_store ?ib ! e)" if e: "e \<in> set (ib_entries ?ib)" for e
  proof
    assume "ee_reserved (ib_store ?ib ! e)"
    then have "custody ?ib e = Some None" using inv_resultsD(5) [OF inv e] e by (simp add: custody_def)
    from record_owner [OF assms(1) i this] obtain a where a: "a < length (wd_admissions w)"
      "place_of (wd_admissions w ! a) = (i, e)"
      "stage_ok (wd_runtimes w (ad_runtime (wd_admissions w ! a))) (Some None) (wd_admissions w ! a)" .
    then have "in_progress (ad_stage (wd_admissions w ! a))"
      by (auto simp: stage_ok_def in_progress_def split: begin_stage.splits)
    then show False using assms(3) a(1, 2) by (simp add: place_of_def)
  qed
  then show ?thesis
    using inbox_invD(3) [OF inv_resultsD(1) [OF inv]] by (simp add: inv_counts_def reserved_of_def)
qed

lemma no_waiter:
  assumes "world_inv w" and "\<forall>ad\<in>set (wd_admissions w). ad_runtime ad = k \<longrightarrow> \<not> in_progress (ad_stage ad)"
    and "x \<in> set (rt_waiters (rn_gate (wd_runtimes w k)))"
  shows "wt_left x"
proof (rule ccontr)
  assume "\<not> wt_left x"
  then obtain p where "waiting_of (rn_gate (wd_runtimes w k)) p \<noteq> None"
    using assms(3) by (metis in_set_conv_nth option.distinct(1) waiting_of_def)
  then obtain a where "a < length (wd_admissions w)" "ad_runtime (wd_admissions w ! a) = k"
    "ad_stage (wd_admissions w ! a) = InQueue p"
    using world_invD(5) [OF assms(1)] unfolding owned_by_def by blast
  moreover from this(1, 2) have "\<not> in_progress (ad_stage (wd_admissions w ! a))" using assms(2) by simp
  ultimately show False by (simp add: in_progress_def)
qed

lemma runtime_transactional:
  fixes w :: "'v world"
  assumes "world_inv w" and idle: "\<forall>ad\<in>set (wd_admissions w). ad_runtime ad = k \<longrightarrow> \<not> in_progress (ad_stage ad)"
    and rt: "rt = wd_runtimes w k"
  shows "rt_queue (rn_gate rt) = [] \<and> rt_active (rn_gate rt) = int (length (filter root_live (rn_nodes rt))) \<and>
    rt_work_bytes (rn_gate rt) = (\<Sum>x\<leftarrow>filter root_live (rn_nodes rt). req_work_bytes (nd_request x))"
proof -
  let ?g = "rn_gate rt"
  note gate = gate_invD [OF runtime_gate [OF world_invD(1) [OF assms(1), of k, folded rt]]]
  have left: "wt_left x" if "x \<in> set (rt_waiters ?g)" for x by (rule no_waiter [OF assms(1, 2) that [unfolded rt]])
  then have "owed_count (rt_waiters ?g) = 0" "owed_bytes (rt_waiters ?g) = 0"
    by (simp_all add: owed_count_def owed_bytes_def owed_def cong: map_cong)
  moreover have "p \<notin> set (rt_queue ?g)" for p
    using queued_waiter(1, 3) [OF gate(1), of p] left by (auto simp: in_set_conv_nth)
  then have "rt_queue ?g = []" by (metis list.set_intros(1) neq_Nil_conv)
  moreover have "filter (\<lambda>ad. has_permit ad \<and> ad_runtime ad = k) (wd_admissions w) = []"
    using idle by (auto simp: filter_empty_conv has_permit_def in_progress_def)
  then have "permits k (wd_admissions w) = {#}" by (simp add: permits_def)
  moreover have "size (roots_held (rn_nodes rt)) = length (filter root_live (rn_nodes rt))"
    "sum_mset (roots_held (rn_nodes rt)) = (\<Sum>x\<leftarrow>filter root_live (rn_nodes rt). req_work_bytes (nd_request x))"
    unfolding roots_held_def by (simp_all only: size_mset length_map sum_mset_sum_list)
  ultimately show ?thesis using gate(3) by (simp add: inv_permits_def)
qed

text \<open>C37: admission is transactional. When no caller that reports to an inbox is between the start and the end of
  an admission, nothing is left there of the refused ones: the inbox holds no reservation. When no caller of a
  runtime is, its queue is empty and the permits in use are exactly those of its unreleased root operations, in
  number and in bytes. A runtime has as many operations as accepted callers.\<close>

theorem admission_transactional:
  fixes w :: "'v world"
  assumes "reach world_initial world_step w"
  shows "(\<forall>i < length (wd_inboxes w). (\<forall>ad\<in>set (wd_admissions w). ad_inbox ad = i \<longrightarrow> \<not> in_progress (ad_stage ad)) \<longrightarrow>
      ib_pending (wd_inboxes w ! i) = 0) \<and>
    (\<forall>k rt. rt = wd_runtimes w k \<and> (\<forall>ad\<in>set (wd_admissions w). ad_runtime ad = k \<longrightarrow> \<not> in_progress (ad_stage ad)) \<longrightarrow>
      rt_queue (rn_gate rt) = [] \<and> rt_active (rn_gate rt) = int (length (filter root_live (rn_nodes rt))) \<and>
      rt_work_bytes (rn_gate rt) = (\<Sum>x\<leftarrow>filter root_live (rn_nodes rt). req_work_bytes (nd_request x))) \<and>
    (\<forall>k. length (rn_nodes (wd_runtimes w k)) =
      length (filter (\<lambda>ad. ad_runtime ad = k \<and> is_accepted (ad_stage ad)) (wd_admissions w)))"
proof (intro conjI allI impI)
  note inv = worlds.reach_inv [OF assms]
  show "ib_pending (wd_inboxes w ! i) = 0"
    if "i < length (wd_inboxes w)" "\<forall>ad\<in>set (wd_admissions w). ad_inbox ad = i \<longrightarrow> \<not> in_progress (ad_stage ad)" for i
    by (rule no_reservation [OF inv that])
  fix k
  show "length (rn_nodes (wd_runtimes w k)) =
      length (filter (\<lambda>ad. ad_runtime ad = k \<and> is_accepted (ad_stage ad)) (wd_admissions w))"
    by (rule accepted_nodes [OF inv, symmetric])
  fix rt assume idle: "rt = wd_runtimes w k \<and>
      (\<forall>ad\<in>set (wd_admissions w). ad_runtime ad = k \<longrightarrow> \<not> in_progress (ad_stage ad))"
  note whole = runtime_transactional [OF inv conjunct2 [OF idle] conjunct1 [OF idle]]
  show "rt_queue (rn_gate rt) = []" by (rule conjunct1 [OF whole])
  show "rt_active (rn_gate rt) = int (length (filter root_live (rn_nodes rt)))"
    "rt_work_bytes (rn_gate rt) = (\<Sum>x\<leftarrow>filter root_live (rn_nodes rt). req_work_bytes (nd_request x))"
    using conjunct2 [OF whole] by (rule conjunct1, rule conjunct2)
qed

text \<open>The records of a runtime whose work has all been released.\<close>

lemma find_exists: "x \<in> set xs \<Longrightarrow> P x \<Longrightarrow> \<exists>y. List.find P xs = Some y"
  by (induction xs) auto

lemma ended_delivered:
  assumes "e \<in> set (ib_queue ib)" and "ee_result (ib_store ib ! e) = Some r" and "ended r"
  shows "\<exists>c ib'. Inbox_NextReleased ended (Some live_ctx) (Some ib) = (Some (Inr c), Some ib')"
proof -
  let ?P = "\<lambda>e. \<not> True \<or> (case ee_result (ib_store ib ! e) of None \<Rightarrow> False | Some r \<Rightarrow> ended r)"
  obtain x where "List.find ?P (ib_queue ib) = Some x" using find_exists [of e "ib_queue ib" ?P] assms by auto
  then show ?thesis by (simp add: Inbox_NextReleased_def inbox_next_def live_ctx_def Let_def)
qed

lemma ended_acknowledged:
  assumes "inv_results ib" and "holds ib c e" and "ee_result (ib_store ib ! e) = Some r" and "ended r"
  shows "\<exists>ib'. Delivery_Ack ended (Some c) ib = (None, ib') \<and> custody ib' e = None"
proof -
  note held = inv_resultsD(2, 4) [OF assms(1, 2)]
  have "c < length (ib_claims ib)" "dl_entry (ib_claims ib ! c) = Some e" using assms(2) by (simp_all add: holds_def)
  moreover have "distinct (ib_entries ib)" using inbox_invD(1) [OF inv_resultsD(1) [OF assms(1)]] by (simp add: inv_custody_def)
  ultimately show ?thesis using assms(3, 4) held by (simp add: Delivery_Ack_def delivery_end_def Let_def custody_def)
qed


section \<open>One call from admission to settled evidence\<close>

definition ex_endpoint :: endpoint where
  "ex_endpoint = \<lparr>ep_runtime = 0, ep_inbox = 0, ep_observer = None\<rparr>"

definition ex_world :: "nat world" where
  "ex_world = \<lparr>wd_runtimes = (\<lambda>_. ex_runtime), wd_inboxes = [ex_inbox], wd_admissions = []\<rparr>"

definition ex_admission :: "begin_stage \<Rightarrow> caller" where
  "ex_admission stage = \<lparr>ad_endpoint = ex_endpoint, ad_request = ex_request, ad_parent = None, ad_entry = 0,
     ad_stage = stage\<rparr>"

definition ex_reserved :: "(nat \<times> nat) inbox" where
  "ex_reserved = ex_inbox\<lparr>ib_outstanding := 1, ib_pending := 1, ib_bytes := 1, ib_entries := [0],
     ib_store := [ex_entry\<lparr>ee_bytes := 1\<rparr>]\<rparr>"

definition ex_recorded :: "(nat \<times> nat) inbox" where
  "ex_recorded = ex_inbox\<lparr>ib_outstanding := 1, ib_bytes := 1, ib_queue := [0], ib_entries := [0],
     ib_store := [ex_entry\<lparr>ee_bytes := 1, ee_result := Some (0, 0), ee_reserved := False\<rparr>]\<rparr>"

definition ex_accepted :: "nat world" where
  "ex_accepted = \<lparr>wd_runtimes = (\<lambda>_. ex_runtime)(0 := ex_begun), wd_inboxes = [ex_recorded], wd_admissions = [ex_admission (Accepted 0)]\<rparr>"

definition ex_settled :: "nat world" where
  "ex_settled = ex_accepted\<lparr>wd_runtimes := (\<lambda>_. ex_runtime)(0 := ex_released)\<rparr>"

lemmas ex_world_defs = ex_endpoint_def ex_world_def ex_admission_def ex_reserved_def ex_recorded_def ex_inbox_defs

lemma ex_world_reached: "reach world_initial world_step ex_world"
proof (rule reach_initial)
  have "Runtime_New (Some live_ctx) ex_options [] = Inr ex_runtime"
    by (simp add: Runtime_New_def operation_New_def ex_options_normal ex_runtime_def ex_gate_def live_ctx_def)
  then show "world_initial ex_world" using ex_inbox_start by (auto simp: world_initial_def ex_world_def)
qed

lemma ex_accepted_reached: "reach world_initial world_step ex_accepted"
proof -
  let ?one = "\<lparr>wd_runtimes = (\<lambda>_. ex_runtime), wd_inboxes = [ex_reserved], wd_admissions = [ex_admission Reserved]\<rparr>"
  let ?two = "\<lparr>wd_runtimes = (\<lambda>_. ex_runtime)(0 := ex_admitted), wd_inboxes = [ex_reserved], wd_admissions = [ex_admission Permitted]\<rparr>"
  have "begin_reserve (Some ex_endpoint) (Some live_ctx) (Some live_ctx) ex_request NoParent ex_world = (Inr 0, ?one)"
    using ex_request_valid
    by (simp add: begin_reserve_def Let_def reserve_def ex_world_defs scope_node_def foreign_scope_def live_ctx_def ex_request_def)
  then have one: "world_step ex_world ?one" by (rule wd_begin) (simp_all add: ex_world_defs)
  have "begin_acquire live_ctx 0 ?one = ?two"
    by (simp add: begin_acquire_def Let_def set_stage_def acquire_enter_def ex_admission_def ex_endpoint_def ex_request_def
        ex_admitted_def ex_runtime_def ex_gate_defs fits_def)
  then have two: "world_step ?one ?two"
    using wd_acquire [of 0 ?one live_ctx] by (simp add: ex_admission_def)
  have node: "newNodeLocked live_ctx ex_request None None ex_admitted = (Inr 0, ex_begun)"
    by (simp add: newNodeLocked_def Let_def ex_admitted_def ex_runtime_def ex_begun_def ex_gate_defs MaxUint64_def)
  have "begin_commit live_ctx live_ctx 0 ?two = ex_accepted"
    by (simp add: begin_commit_def Let_def node set_stage_def ex_accepted_def ex_world_defs evidence_commit_def
        publish_event_def live_ctx_def [THEN arg_cong [of _ _ ctx_err]])
  then have "world_step ?two ex_accepted"
    using wd_commit [of 0 ?two live_ctx live_ctx] by (simp add: ex_admission_def)
  from reach_step [where step = world_step, OF reach_step [where step = world_step,
      OF reach_step [where step = world_step, OF ex_world_reached one] two] this] show ?thesis .
qed

lemma ex_settled_reached: "reach world_initial world_step ex_settled"
proof -
  have "call_step ex_begun ex_finishing"
    unfolding ex_finishing_def by (rule cs_returned) (simp_all add: ex_begun_nodes new_node_def)
  then have one: "world_step ex_accepted (ex_accepted\<lparr>wd_runtimes := (\<lambda>_. ex_runtime)(0 := ex_finishing)\<rparr>)"
    using wd_call [of ex_accepted 0 ex_finishing] by (simp add: ex_accepted_def)
  have "call_step ex_finishing ex_released"
    unfolding ex_released_def by (rule cs_finish) (simp_all add: ex_finishing_node)
  then have "world_step (ex_accepted\<lparr>wd_runtimes := (\<lambda>_. ex_runtime)(0 := ex_finishing)\<rparr>) ex_settled"
    using wd_call [of "ex_accepted\<lparr>wd_runtimes := (\<lambda>_. ex_runtime)(0 := ex_finishing)\<rparr>" 0 ex_released]
    by (simp add: ex_settled_def)
  from reach_step [where step = world_step, OF reach_step [where step = world_step, OF ex_accepted_reached one] this]
  show ?thesis .
qed

theorem evidence_until_released_witness:
  "\<exists>e. ee_result (ib_store ex_recorded ! e) = Some (0, 0) \<and> (e \<in> set (ib_queue ex_recorded) \<or> (\<exists>c. holds ex_recorded c e))"
proof -
  have "0 < length (rn_nodes (wd_runtimes ex_accepted 0))" "\<not> nd_released (rn_nodes (wd_runtimes ex_accepted 0) ! 0)"
    by (simp_all add: ex_accepted_def ex_begun_nodes new_node_def)
  with evidence_until_released [OF ex_accepted_reached] obtain i e where "i < length (wd_inboxes ex_accepted)"
    "ee_result (ib_store (wd_inboxes ex_accepted ! i) ! e) = Some (0, 0)"
    "e \<in> set (ib_queue (wd_inboxes ex_accepted ! i)) \<or> (\<exists>c. holds (wd_inboxes ex_accepted ! i) c e)" by blast
  then show ?thesis by (auto simp: ex_accepted_def)
qed

theorem admission_transactional_witness:
  "rt_active (rn_gate (wd_runtimes ex_accepted 0)) = 1 \<and> ib_pending (wd_inboxes ex_accepted ! 0) = 0"
proof
  note transactional = admission_transactional [OF ex_accepted_reached]
  have idle: "\<forall>ad\<in>set (wd_admissions ex_accepted). ad_runtime ad = 0 \<longrightarrow> \<not> in_progress (ad_stage ad)"
    "\<forall>ad\<in>set (wd_admissions ex_accepted). ad_inbox ad = 0 \<longrightarrow> \<not> in_progress (ad_stage ad)"
    by (simp_all add: ex_accepted_def ex_admission_def in_progress_def)
  have "rt_active (rn_gate (wd_runtimes ex_accepted 0)) = int (length (filter root_live (rn_nodes (wd_runtimes ex_accepted 0))))"
    using conjunct1 [OF conjunct2 [OF transactional], THEN spec, THEN spec, THEN mp, OF conjI, OF refl idle(1)]
    by (rule conjunct1 [OF conjunct2])
  then show "rt_active (rn_gate (wd_runtimes ex_accepted 0)) = 1"
    by (simp add: ex_accepted_def ex_begun_nodes root_live_def new_node_def)
  show "ib_pending (wd_inboxes ex_accepted ! 0) = 0"
    by (rule conjunct1 [OF transactional, THEN spec, THEN mp, THEN mp, OF _ idle(2)]) (simp add: ex_accepted_def)
qed


end
