(* ===== verification/Operation_Using.thy ===== *)
theory Operation_Using
  imports Operation_Begin Resource_Handles
begin

text \<open>
  Operations that borrow a resource (\<^verbatim>\<open>adapters/v1/ownership.go\<close> over \<^verbatim>\<open>resource/v1/lease.go\<close>): the producer of
  \<^verbatim>\<open>usingContexts\<close> acquires a lease of a binding, hands it to its operation, and \<^verbatim>\<open>finish\<close> gives it back before
  it marks the operation released. A runtime and a binding run side by side here.
\<close>

section \<open>Steps\<close>

text \<open>Where a borrowing operation is: its producer has the lease in a local variable, the operation has recorded
  it, its release has been claimed, its release has returned, the operation is released.\<close>

datatype use_stage = Acquired | Captured | Leaving | Left "gerr option" | Ended

record lease_user =
  use_node :: nat
  use_lease :: nat
  use_stage :: use_stage

record ('c, 't, 'v) using_state =
  us_runtime :: "'v runtime"
  us_entering :: "int multiset"
  us_binding :: "('c, 't) binding"
  us_users :: "lease_user list"

definition set_use :: "nat \<Rightarrow> use_stage \<Rightarrow> ('c, 't, 'v) using_state \<Rightarrow> ('c, 't, 'v) using_state" where
  "set_use u stage st = st\<lparr>us_users := (us_users st)[u := (us_users st ! u)\<lparr>use_stage := stage\<rparr>]\<rparr>"

text \<open>\<^verbatim>\<open>source.Acquire\<close> in the producer of operation \<open>n\<close>.\<close>

definition use_acquire ::
  "scope_env \<Rightarrow> 'c binding_options \<Rightarrow> go_ctx option \<Rightarrow> go_ctx \<Rightarrow> nat \<Rightarrow> ('c, 't, 'v) using_state \<Rightarrow>
     gerr option \<times> ('c, 't, 'v) using_state" where
  "use_acquire env opts early late n st =
     (case acquire env opts early late (us_binding st) of
        (Inl err, b) \<Rightarrow> (Some err, st\<lparr>us_binding := b\<rparr>)
      | (Inr l, b) \<Rightarrow> (None, st\<lparr>us_binding := b,
          us_users := us_users st @ [\<lparr>use_node = n, use_lease = l, use_stage = Acquired\<rparr>]\<rparr>))"

text \<open>The locked section that records the source and its release.\<close>

definition use_capture :: "string \<Rightarrow> nat \<Rightarrow> ('c, 't, 'v) using_state \<Rightarrow> ('c, 't, 'v) using_state" where
  "use_capture name u st =
     (let x = us_users st ! u in
      set_use u Captured (st\<lparr>us_runtime := using_capture name (lease_Generation (use_lease x) (us_binding st))
        (use_lease x) (use_node x) (us_runtime st)\<rparr>))"

text \<open>The call of \<^verbatim>\<open>releaseSource\<close> in \<^verbatim>\<open>finish\<close>, in the two sections of \<^verbatim>\<open>Lease.Release\<close>, and the section that follows.\<close>

definition use_claim :: "nat \<Rightarrow> ('c, 't, 'v) using_state \<Rightarrow> ('c, 't, 'v) using_state" where
  "use_claim u st =
     (case release_claim (use_lease (us_users st ! u)) (us_binding st) of
        (err, b) \<Rightarrow> set_use u (if err = None then Leaving else Left err) (st\<lparr>us_binding := b\<rparr>))"

definition use_return :: "nat \<Rightarrow> ('c, 't, 'v) using_state \<Rightarrow> ('c, 't, 'v) using_state" where
  "use_return u st =
     set_use u (Left None) (st\<lparr>us_binding := release_return (use_lease (us_users st ! u)) (us_binding st)\<rparr>)"

definition use_finish :: "nat \<Rightarrow> gerr option \<Rightarrow> ('c, 't, 'v) using_state \<Rightarrow> ('c, 't, 'v) using_state" where
  "use_finish u err st =
     set_use u Ended (st\<lparr>us_runtime := snd (finish_one err (use_node (us_users st ! u)) (us_runtime st))\<rparr>)"

text \<open>A step of the runtime that is none of a borrowing operation's own: it does not record a source for it nor
  release it, and the producer that still has its lease in a local variable has not returned.\<close>

definition spares :: "lease_user list \<Rightarrow> 'v runtime \<Rightarrow> 'v runtime \<Rightarrow> bool" where
  "spares users rt rt' \<longleftrightarrow> (\<forall>x\<in>set users.
     nd_release (rn_nodes rt' ! use_node x) = nd_release (rn_nodes rt ! use_node x) \<and>
     nd_source (rn_nodes rt' ! use_node x) = nd_source (rn_nodes rt ! use_node x) \<and>
     nd_released (rn_nodes rt' ! use_node x) = nd_released (rn_nodes rt ! use_node x) \<and>
     (use_stage x = Acquired \<longrightarrow> nd_running (rn_nodes rt' ! use_node x)))"

inductive using_step :: "'c binding_options \<Rightarrow> ('c, 't, 'v) using_state \<Rightarrow> ('c, 't, 'v) using_state \<Rightarrow> bool"
  for opts where
  us_runtime_step: "runtime_step (us_runtime st, us_entering st) (rt, entering) \<Longrightarrow>
    spares (us_users st) (us_runtime st) rt \<Longrightarrow> using_step opts st (st\<lparr>us_runtime := rt, us_entering := entering\<rparr>)"
| us_binding_step: "binding_step opts (us_binding st) b \<Longrightarrow>
    (\<And>x. x \<in> set (us_users st) \<Longrightarrow> b_leases b ! use_lease x = b_leases (us_binding st) ! use_lease x) \<Longrightarrow>
    using_step opts st (st\<lparr>us_binding := b\<rparr>)"
| us_acquire: "use_acquire env opts early late n st = (err, st') \<Longrightarrow> n < length (rn_nodes (us_runtime st)) \<Longrightarrow>
    nd_running (rn_nodes (us_runtime st) ! n) \<Longrightarrow> nd_parent (rn_nodes (us_runtime st) ! n) = None \<Longrightarrow>
    (\<And>x. x \<in> set (us_users st) \<Longrightarrow> use_node x \<noteq> n) \<Longrightarrow> using_step opts st st'"
| us_capture: "u < length (us_users st) \<Longrightarrow> use_stage (us_users st ! u) = Acquired \<Longrightarrow>
    using_step opts st (use_capture name u st)"
| us_claim: "u < length (us_users st) \<Longrightarrow> use_stage (us_users st ! u) = Captured \<Longrightarrow>
    nd_finishing (rn_nodes (us_runtime st) ! use_node (us_users st ! u)) \<Longrightarrow> using_step opts st (use_claim u st)"
| us_return: "u < length (us_users st) \<Longrightarrow> use_stage (us_users st ! u) = Leaving \<Longrightarrow> using_step opts st (use_return u st)"
| us_finish: "u < length (us_users st) \<Longrightarrow> use_stage (us_users st ! u) = Left err \<Longrightarrow>
    using_step opts st (use_finish u err st)"

definition using_initial :: "'c binding_options \<Rightarrow> ('c, 't, 'v) using_state \<Rightarrow> bool" where
  "using_initial opts st \<longleftrightarrow> runtime_initial (us_runtime st, us_entering st) \<and>
     binding_initial opts (us_binding st) \<and> us_users st = []"

section \<open>Invariant\<close>

definition use_ok :: "'v runtime \<Rightarrow> ('c, 't) binding \<Rightarrow> lease_user \<Rightarrow> bool" where
  "use_ok rt b x \<longleftrightarrow> use_node x < length (rn_nodes rt) \<and> use_lease x < length (b_leases b) \<and>
     nd_parent (rn_nodes rt ! use_node x) = None \<and>
     (let nd = rn_nodes rt ! use_node x; lease = b_leases b ! use_lease x;
          recorded = (nd_release nd = LeaseRelease (use_lease x) \<and> src_generation (nd_source nd) = lease_generation lease)
      in case use_stage x of
           Acquired \<Rightarrow> nd_running nd \<and> \<not> nd_released nd \<and> lease_stage lease = Held
         | Captured \<Rightarrow> recorded \<and> \<not> nd_released nd \<and> lease_stage lease = Held
         | Leaving \<Rightarrow> recorded \<and> nd_finishing nd \<and> \<not> nd_released nd \<and> lease_stage lease = Releasing
         | Left err \<Rightarrow> recorded \<and> nd_finishing nd \<and> \<not> nd_released nd \<and> lease_stage lease = Returned \<and> err = None
         | Ended \<Rightarrow> nd_released nd \<and> lease_stage lease = Returned)"

definition using_inv :: "'c binding_options \<Rightarrow> ('c, 't, 'v) using_state \<Rightarrow> bool" where
  "using_inv opts st \<longleftrightarrow> reach runtime_initial runtime_step (us_runtime st, us_entering st) \<and>
     reach (binding_initial opts) (binding_step opts) (us_binding st) \<and>
     (\<forall>x\<in>set (us_users st). use_ok (us_runtime st) (us_binding st) x) \<and>
     distinct (map use_node (us_users st)) \<and> distinct (map use_lease (us_users st))"

lemma using_invD:
  assumes "using_inv opts st"
  shows "reach runtime_initial runtime_step (us_runtime st, us_entering st)"
    and "reach (binding_initial opts) (binding_step opts) (us_binding st)"
    and "x \<in> set (us_users st) \<Longrightarrow> use_ok (us_runtime st) (us_binding st) x"
    and "distinct (map use_node (us_users st))" and "distinct (map use_lease (us_users st))"
    and "runtime_inv (us_runtime st, us_entering st)"
  using assms runtimes.reach_inv [of "(us_runtime st, us_entering st)"] by (simp_all add: using_inv_def)

text \<open>Users that a step of the runtime or of the binding does not touch.\<close>

lemma use_ok_frame:
  assumes "use_ok rt b x" and "all_evolve rt rt'" and "length (b_leases b) \<le> length (b_leases b')"
    and "b_leases b' ! use_lease x = b_leases b ! use_lease x"
    and "nd_release (rn_nodes rt' ! use_node x) = nd_release (rn_nodes rt ! use_node x)"
    and "nd_source (rn_nodes rt' ! use_node x) = nd_source (rn_nodes rt ! use_node x)"
    and "nd_released (rn_nodes rt' ! use_node x) = nd_released (rn_nodes rt ! use_node x)"
    and "use_stage x = Acquired \<Longrightarrow> nd_running (rn_nodes rt' ! use_node x)"
  shows "use_ok rt' b' x"
proof -
  have n: "use_node x < length (rn_nodes rt)" "use_lease x < length (b_leases b)" using assms(1) by (simp_all add: use_ok_def)
  then have "evolves (rn_nodes rt ! use_node x) (rn_nodes rt' ! use_node x)" "use_node x < length (rn_nodes rt')"
    using assms(2) by (auto simp: all_evolve_def)
  then have "nd_parent (rn_nodes rt' ! use_node x) = nd_parent (rn_nodes rt ! use_node x)"
    "nd_finishing (rn_nodes rt ! use_node x) \<longrightarrow> nd_finishing (rn_nodes rt' ! use_node x)"
    by (simp_all add: evolves_def)
  then show ?thesis
    using assms n \<open>use_node x < length (rn_nodes rt')\<close> unfolding use_ok_def Let_def
    by (cases "use_stage x") simp_all
qed

lemma leases_grow:
  assumes "binding_step opts b b'"
  shows "length (b_leases b) \<le> length (b_leases b')"
  using assms
proof (induction rule: binding_step.induct)
  case (step_commit st plan env)
  show ?case by (cases plan) (simp_all add: Let_def split: option.splits)
next
  case (step_retry st env closing ctx sequence sequence' version st')
  then show ?case by (auto simp: retry_locked_def Let_def split: option.splits if_splits prod.splits)
next
  case (step_stop st env cause)
  show ?case by (simp add: stop_def Let_def split: option.splits)
next
  case (step_acquire st env early late)
  show ?case by (simp add: acquire_def Let_def split: option.splits)
next
  case (step_run st env)
  show ?case by (simp add: run_section_def Let_def split: option.splits)
next
  case (step_construct st g env later granted ctx stopped ctx' stopped' built)
  show ?case by (simp add: construct_finish_def Let_def split: option.splits prod.splits)
next
  case (step_clean st g env reported)
  show ?case by (simp add: clean_def Let_def split: option.splits)
qed (simp_all add: release_claim_def release_return_def Let_def awake_def retryCleanup_def)

lemma users_at:
  assumes "using_inv opts st" and "u < length (us_users st)" and "y \<in> set ((us_users st)[u := (us_users st ! u)\<lparr>use_stage := stage\<rparr>])"
  obtains "y = (us_users st ! u)\<lparr>use_stage := stage\<rparr>"
  | "y \<in> set (us_users st)" "use_node y \<noteq> use_node (us_users st ! u)" "use_lease y \<noteq> use_lease (us_users st ! u)"
proof -
  obtain v where v: "v < length (us_users st)" "y = (us_users st)[u := (us_users st ! u)\<lparr>use_stage := stage\<rparr>] ! v"
    using assms(3) by (auto simp: in_set_conv_nth)
  show thesis
  proof (cases "v = u")
    case False
    then have y: "y = us_users st ! v" using v by simp
    moreover have "use_node y \<noteq> use_node (us_users st ! u)" "use_lease y \<noteq> use_lease (us_users st ! u)"
      using using_invD(4, 5) [OF assms(1)] v(1) assms(2) False y by (auto simp: distinct_conv_nth)
    ultimately show thesis using that(2) v(1) by simp
  qed (use v assms(2) that(1) in simp)
qed

text \<open>One user moves to its next stage.\<close>

lemma use_step:
  assumes inv: "using_inv opts st" and u: "u < length (us_users st)" and x: "x = us_users st ! u"
    and rt: "reach runtime_initial runtime_step (rt, us_entering st)" and evolve: "all_evolve (us_runtime st) rt"
    and b: "reach (binding_initial opts) (binding_step opts) b" and len: "length (b_leases b) = length (b_leases (us_binding st))"
    and nodes: "\<And>m. m \<noteq> use_node x \<Longrightarrow> rn_nodes rt ! m = rn_nodes (us_runtime st) ! m"
    and leases: "\<And>l. l \<noteq> use_lease x \<Longrightarrow> b_leases b ! l = b_leases (us_binding st) ! l"
    and new: "use_ok rt b (x\<lparr>use_stage := stage\<rparr>)"
  shows "using_inv opts (set_use u stage (st\<lparr>us_runtime := rt, us_binding := b\<rparr>))"
proof -
  have "use_ok rt b y" if "y \<in> set ((us_users st)[u := x\<lparr>use_stage := stage\<rparr>])" for y
    using inv u that [unfolded x]
  proof (cases rule: users_at)
    case 1
    then show ?thesis using new x by simp
  next
    case 2
    note ok = using_invD(3) [OF inv 2(1)]
    have "use_stage y = Acquired \<Longrightarrow> nd_running (rn_nodes (us_runtime st) ! use_node y)"
      using ok by (simp add: use_ok_def Let_def)
    then show ?thesis by (intro use_ok_frame [OF ok evolve]) (use len leases nodes 2(2, 3) x in simp_all)
  qed
  moreover have "map use_node ((us_users st)[u := x\<lparr>use_stage := stage\<rparr>]) = map use_node (us_users st)"
    "map use_lease ((us_users st)[u := x\<lparr>use_stage := stage\<rparr>]) = map use_lease (us_users st)"
    using u x by (simp_all add: map_update list_update_same_conv)
  ultimately show ?thesis using using_invD(4, 5) [OF inv] rt b by (simp add: using_inv_def set_use_def x)
qed

lemma use_capture_inv:
  assumes inv: "using_inv opts st" and u: "u < length (us_users st)" and stage: "use_stage (us_users st ! u) = Acquired"
  shows "using_inv opts (use_capture name u st)"
proof -
  define x where "x = us_users st ! u"
  have ok: "use_ok (us_runtime st) (us_binding st) x" using using_invD(3) [OF inv] u by (simp add: x_def)
  let ?rt = "using_capture name (lease_Generation (use_lease x) (us_binding st)) (use_lease x) (use_node x) (us_runtime st)"
  have n: "use_node x < length (rn_nodes (us_runtime st))" "nd_running (rn_nodes (us_runtime st) ! use_node x)"
    using ok stage by (simp_all add: use_ok_def Let_def x_def)
  have "runtime_step (us_runtime st, us_entering st) (?rt, us_entering st)"
    unfolding using_capture_def by (rule ru_source [OF n(2)])
  note step = reach_step [where step = runtime_step, OF using_invD(1) [OF inv] this] step_evolves [OF this using_invD(6) [OF inv]]
  have "using_inv opts (set_use u Captured (st\<lparr>us_runtime := ?rt, us_binding := us_binding st\<rparr>))"
    by (rule use_step [OF inv u x_def step(1) _ using_invD(2) [OF inv]])
      (use step(2) ok stage n in \<open>simp_all add: using_capture_def use_ok_def Let_def lease_Generation_def x_def\<close>)
  then show ?thesis by (simp add: use_capture_def Let_def x_def)
qed

lemma use_claim_inv:
  assumes inv: "using_inv opts st" and u: "u < length (us_users st)" and stage: "use_stage (us_users st ! u) = Captured"
    and "nd_finishing (rn_nodes (us_runtime st) ! use_node (us_users st ! u))"
  shows "using_inv opts (use_claim u st)"
proof -
  define x where "x = us_users st ! u"
  have ok: "use_ok (us_runtime st) (us_binding st) x" using using_invD(3) [OF inv] u by (simp add: x_def)
  let ?b = "snd (release_claim (use_lease x) (us_binding st))"
  have held: "use_lease x < length (b_leases (us_binding st))" "lease_stage (b_leases (us_binding st) ! use_lease x) = Held"
    using ok stage by (simp_all add: use_ok_def Let_def x_def)
  have b: "reach (binding_initial opts) (binding_step opts) ?b"
    by (rule reach_step [where step = "binding_step opts", OF using_invD(2) [OF inv] step_claim])
  have "using_inv opts (set_use u Leaving (st\<lparr>us_runtime := us_runtime st, us_binding := ?b\<rparr>))"
    by (rule use_step [OF inv u x_def using_invD(1) [OF inv] _ b])
      (use held ok stage assms(4) in \<open>simp_all add: release_claim_def use_ok_def Let_def x_def\<close>)
  then show ?thesis using held by (simp add: use_claim_def release_claim_def x_def)
qed

lemma use_return_inv:
  assumes inv: "using_inv opts st" and u: "u < length (us_users st)" and stage: "use_stage (us_users st ! u) = Leaving"
  shows "using_inv opts (use_return u st)"
proof -
  define x where "x = us_users st ! u"
  have ok: "use_ok (us_runtime st) (us_binding st) x" using using_invD(3) [OF inv] u by (simp add: x_def)
  let ?b = "release_return (use_lease x) (us_binding st)"
  have l: "use_lease x < length (b_leases (us_binding st))" "lease_stage (b_leases (us_binding st) ! use_lease x) = Releasing"
    using ok stage by (simp_all add: use_ok_def Let_def x_def)
  have b: "reach (binding_initial opts) (binding_step opts) ?b"
    by (rule reach_step [where step = "binding_step opts", OF using_invD(2) [OF inv] step_return [OF l]])
  have "b_leases ?b = (b_leases (us_binding st))[use_lease x := (b_leases (us_binding st) ! use_lease x)\<lparr>lease_stage := Returned\<rparr>]"
    by (simp add: release_return_def Let_def)
  then have "using_inv opts (set_use u (Left None) (st\<lparr>us_runtime := us_runtime st, us_binding := ?b\<rparr>))"
    by (intro use_step [OF inv u x_def using_invD(1) [OF inv] _ b])
      (use l ok stage in \<open>simp_all add: use_ok_def Let_def x_def\<close>)
  then show ?thesis by (simp add: use_return_def x_def)
qed

lemma use_finish_inv:
  assumes inv: "using_inv opts st" and u: "u < length (us_users st)" and stage: "use_stage (us_users st ! u) = Left err"
  shows "using_inv opts (use_finish u err st)"
proof -
  define x where "x = us_users st ! u"
  have ok: "use_ok (us_runtime st) (us_binding st) x" using using_invD(3) [OF inv] u by (simp add: x_def)
  let ?rt = "snd (finish_one err (use_node x) (us_runtime st))"
  have n: "use_node x < length (rn_nodes (us_runtime st))" "nd_finishing (rn_nodes (us_runtime st) ! use_node x)"
    "\<not> nd_released (rn_nodes (us_runtime st) ! use_node x)" "nd_parent (rn_nodes (us_runtime st) ! use_node x) = None"
    using ok stage by (simp_all add: use_ok_def Let_def x_def)
  note step = ru_finish [OF n(1-3), of "us_entering st" err]
  note moved = reach_step [where step = runtime_step, OF using_invD(1) [OF inv] step] step_evolves [OF step using_invD(6) [OF inv]]
  have nodes: "rn_nodes ?rt = (rn_nodes (us_runtime st))[use_node x := ended_node err (rn_nodes (us_runtime st) ! use_node x)]"
    using n(4) by (simp add: finish_one_def Let_def)
  have "using_inv opts (set_use u Ended (st\<lparr>us_runtime := ?rt, us_binding := us_binding st\<rparr>))"
  proof (rule use_step [OF inv u x_def moved(1) _ using_invD(2) [OF inv]])
    have "lease_stage (b_leases (us_binding st) ! use_lease x) = Returned" "use_lease x < length (b_leases (us_binding st))"
      using ok stage by (simp_all add: use_ok_def Let_def x_def)
    then show "use_ok ?rt (us_binding st) (x\<lparr>use_stage := Ended\<rparr>)"
      using n by (simp add: use_ok_def nodes ended_node_def Let_def)
  qed (use moved(2) in \<open>simp_all add: nodes\<close>)
  then show ?thesis by (simp add: use_finish_def x_def)
qed

lemma use_acquire_inv:
  assumes inv: "using_inv opts st" and acquired: "use_acquire env opts early late n st = (err, st')"
    and n: "n < length (rn_nodes (us_runtime st))" "nd_running (rn_nodes (us_runtime st) ! n)"
      "nd_parent (rn_nodes (us_runtime st) ! n) = None"
    and fresh: "\<And>x. x \<in> set (us_users st) \<Longrightarrow> use_node x \<noteq> n"
  shows "using_inv opts st'"
proof -
  obtain result b where ab: "acquire env opts early late (us_binding st) = (result, b)" by fastforce
  have b: "reach (binding_initial opts) (binding_step opts) b"
    using reach_step [where step = "binding_step opts", OF using_invD(2) [OF inv] step_acquire [of _ _ env early late]] ab by simp
  show ?thesis
  proof (cases result)
    case (Inl e)
    then have "b = us_binding st" using ab by (auto simp: acquire_def Let_def split: option.splits if_splits)
    then show ?thesis using acquired inv Inl by (simp add: use_acquire_def ab using_inv_def)
  next
    case (Inr l)
    then obtain g where leases: "b_leases b = b_leases (us_binding st) @ [\<lparr>lease_generation = g,
        lease_value = Option.bind (b_gens (us_binding st) g) gen_value, lease_stage = Held\<rparr>]" and l: "l = length (b_leases (us_binding st))"
      using ab by (auto simp: acquire_def Let_def split: option.splits if_splits)
    let ?x = "\<lparr>use_node = n, use_lease = l, use_stage = Acquired\<rparr>"
    have old: "use_ok (us_runtime st) b y" "use_lease y \<noteq> l" if "y \<in> set (us_users st)" for y
    proof -
      note ok = using_invD(3) [OF inv that]
      then have y: "use_lease y < length (b_leases (us_binding st))" "use_stage y = Acquired \<Longrightarrow> nd_running (rn_nodes (us_runtime st) ! use_node y)"
        by (simp_all add: use_ok_def Let_def)
      then show "use_lease y \<noteq> l" by (simp add: l)
      show "use_ok (us_runtime st) b y" by (rule use_ok_frame [OF ok]) (use y in \<open>simp_all add: leases nth_append\<close>)
    qed
    have "\<not> nd_released (rn_nodes (us_runtime st) ! n)"
      using finishing_free(2) [OF using_invD(6) [OF inv] n(1) released_finishing [OF using_invD(6) [OF inv] n(1)]] n(2) by blast
    then have "use_ok (us_runtime st) b ?x" using n by (simp add: use_ok_def leases l)
    moreover have "st' = st\<lparr>us_binding := b, us_users := us_users st @ [?x]\<rparr>"
      using acquired Inr by (simp add: use_acquire_def ab)
    ultimately show ?thesis
      using old fresh using_invD(1, 4, 5) [OF inv] b by (auto simp: using_inv_def)
  qed
qed

lemma using_step_inv:
  assumes "using_inv opts st" and "using_step opts st st'"
  shows "using_inv opts st'"
  using assms(2, 1)
proof (induction rule: using_step.induct)
  case (us_runtime_step st rt entering)
  note inv = using_invD [OF us_runtime_step(3)]
  have evolve: "all_evolve (us_runtime st) rt" using step_evolves [OF us_runtime_step(1) inv(6)] by simp
  have "use_ok rt (us_binding st) x" if "x \<in> set (us_users st)" for x
    by (rule use_ok_frame [OF inv(3) [OF that] evolve]) (use us_runtime_step(2) that in \<open>auto simp: spares_def\<close>)
  then show ?case
    using reach_step [where step = runtime_step, OF inv(1) us_runtime_step(1)] inv(2, 4, 5) by (simp add: using_inv_def)
next
  case (us_binding_step st b)
  note inv = using_invD [OF us_binding_step(3)]
  have "use_ok (us_runtime st) b x" if "x \<in> set (us_users st)" for x
  proof -
    note ok = inv(3) [OF that]
    then have "use_stage x = Acquired \<Longrightarrow> nd_running (rn_nodes (us_runtime st) ! use_node x)" by (simp add: use_ok_def Let_def)
    then show ?thesis
      using use_ok_frame [OF ok all_evolve_same [OF refl] leases_grow [OF us_binding_step(1)] us_binding_step(2) [OF that]] by simp
  qed
  then show ?case
    using reach_step [where step = "binding_step opts", OF inv(2) us_binding_step(1)] inv(1, 4, 5) by (simp add: using_inv_def)
qed (blast intro: use_acquire_inv use_capture_inv use_claim_inv use_return_inv use_finish_inv)+

interpretation usings: transition_system "using_initial opts" "using_step opts" "using_inv opts"
  for opts :: "'c binding_options"
proof
  show "using_inv opts st" if "using_initial opts st" for st :: "('c, 't, 'v) using_state"
    using that by (auto simp: using_initial_def using_inv_def intro: reach_initial)
qed (rule using_step_inv)

section \<open>A borrowed generation\<close>

lemma working_not_finishing:
  assumes "runtime_inv (rt, entering)" and "n < length (rn_nodes rt)" and "(m, n) \<in> (child_of (rn_nodes rt))\<^sup>*"
    and "nd_running (rn_nodes rt ! m) \<or> nd_resolving (rn_nodes rt ! m) \<or>
      (\<exists>k < length (rn_guards rt). rn_guards rt ! k \<in> {GuardOpen m, GuardLeaving m})"
  shows "\<not> nd_finishing (rn_nodes rt ! n)"
proof
  assume finishing: "nd_finishing (rn_nodes rt ! n)"
  have m: "m < length (rn_nodes rt)"
    using assms(3, 2) by (cases rule: converse_rtranclE) (auto simp: child_of_def)
  have "nd_finishing (rn_nodes rt ! m)"
    using assms(3)
  proof (cases rule: rtranclE)
    case base
    then show ?thesis using finishing by simp
  next
    case (step p)
    have p: "p < length (rn_nodes rt)" using step(2) by (simp add: child_of_def)
    have "nd_released (rn_nodes rt ! p)" by (rule finishing_free(5) [OF assms(1, 2) finishing step(2)])
    then have "nd_released (rn_nodes rt ! m)" by (rule descendants_released [OF assms(1) step(1) p])
    then show ?thesis by (rule released_finishing [OF assms(1) m])
  qed
  then show False using finishing_free(2-4) [OF assms(1) m] assms(4) by blast
qed

lemma held_lease_live:
  assumes "l < length ls" and "lease_stage (ls ! l) = Held"
  shows "0 < live ls (lease_generation (ls ! l))"
  using assms nth_mem [OF assms(1)] unfolding live_def by (auto simp: filter_empty_conv)

text \<open>C39: an operation's borrowed generation outlives its work. In every reachable state of a runtime and a
  binding that its operations borrow from: as long as the submitting stack of a borrowing operation or of any
  operation below it runs, an outcome of theirs is being published, or a guard on them is held, the lease is
  held and gives its value, its generation is owned by the binding and is not being released. When the
  operation is released, the lease has been returned.\<close>

theorem borrowed_while_used:
  fixes st :: "('c, 't, 'v) using_state"
  assumes "reach (using_initial opts) (using_step opts) st" and "x \<in> set (us_users st)"
    and "rt = us_runtime st" and "b = us_binding st" and "lease = b_leases b ! use_lease x"
  shows "(\<forall>m. (m, use_node x) \<in> (child_of (rn_nodes rt))\<^sup>* \<and>
       (nd_running (rn_nodes rt ! m) \<or> nd_resolving (rn_nodes rt ! m) \<or>
        (\<exists>k < length (rn_guards rt). rn_guards rt ! k \<in> {GuardOpen m, GuardLeaving m})) \<longrightarrow>
       lease_Value (use_lease x) b = Inr (lease_value lease) \<and> lease_generation lease \<in> set (owned_gens b) \<and>
       b_coordinator b \<noteq> Cleaning (lease_generation lease)) \<and>
    (nd_released (rn_nodes rt ! use_node x) \<longrightarrow> lease_stage lease = Returned)"
proof (intro conjI allI impI)
  note inv = usings.reach_inv [OF assms(1)]
  note runtime = using_invD(6) [OF inv] and binding = bindings.reach_inv [OF using_invD(2) [OF inv]]
  have ok: "use_ok rt b x" using using_invD(3) [OF inv assms(2)] by (simp add: assms(3, 4))
  then have place: "use_node x < length (rn_nodes rt)" "use_lease x < length (b_leases b)" by (simp_all add: use_ok_def)
  {
    fix m assume m: "(m, use_node x) \<in> (child_of (rn_nodes rt))\<^sup>* \<and>
       (nd_running (rn_nodes rt ! m) \<or> nd_resolving (rn_nodes rt ! m) \<or>
        (\<exists>k < length (rn_guards rt). rn_guards rt ! k \<in> {GuardOpen m, GuardLeaving m}))"
    then have busy: "\<not> nd_finishing (rn_nodes rt ! use_node x)"
      using working_not_finishing [OF runtime, folded assms(3), OF place(1)] by blast
    then have "\<not> nd_released (rn_nodes rt ! use_node x)"
      using released_finishing [OF runtime, folded assms(3), OF place(1)] by blast
    then have held: "lease_stage lease = Held"
      using ok busy by (auto simp: use_ok_def Let_def assms(5) split: use_stage.splits)
    have live: "0 < live (b_leases b) (lease_generation lease)"
      using held_lease_live [OF place(2)] held by (simp add: assms(5))
    show "lease_Value (use_lease x) b = Inr (lease_value lease)"
      using held place(2) by (simp add: lease_Value_def assms(5))
    show "lease_generation lease \<in> set (owned_gens b)"
      using borrow_facts(2) [OF binding, folded assms(4), OF live] by (auto simp: owned_gens_def)
    show "b_coordinator b \<noteq> Cleaning (lease_generation lease)"
      using binding_invD(3) [OF binding, folded assms(4)] live by (auto simp: inv_coordinator_def)
  next
    assume "nd_released (rn_nodes rt ! use_node x)"
    then show "lease_stage lease = Returned"
      using ok by (auto simp: use_ok_def Let_def assms(5) split: use_stage.splits)
  }
qed

section \<open>A query on a borrowed connection\<close>

lemma using_lifts:
  fixes b :: "('c, 't) binding" and rt :: "'v runtime"
  assumes "reach runtime_initial runtime_step (rt, entering)" and "reach (binding_initial opts) (binding_step opts) b"
  shows "reach (using_initial opts) (using_step opts) \<lparr>us_runtime = rt, us_entering = entering, us_binding = b, us_users = []\<rparr>"
proof -
  have start: "reach (using_initial opts) (using_step opts)
      \<lparr>us_runtime = fst re, us_entering = snd re, us_binding = c, us_users = []\<rparr>"
    if "reach runtime_initial runtime_step re" "binding_initial opts c" for re :: "'v runtime \<times> int multiset" and c :: "('c, 't) binding"
    using that(1)
  proof (induction rule: reach.induct)
    case (reach_initial re)
    then show ?case using that(2) by (intro reach.reach_initial) (simp add: using_initial_def)
  next
    case (reach_step re re')
    show ?case
      using reach.reach_step [where step = "using_step opts", OF reach_step(3)
          us_runtime_step [where rt = "fst re'" and entering = "snd re'"]] reach_step(2) by (simp add: spares_def)
  qed
  from assms(2) show ?thesis
  proof (induction rule: reach.induct)
    case (reach_initial c)
    then show ?case using start [OF assms(1)] by simp
  next
    case (reach_step c c')
    show ?case
      using reach.reach_step [where step = "using_step opts", OF reach_step(3) us_binding_step [where b = c']] reach_step(2) by simp
  qed
qed

definition ex_using :: "(nat, nat, nat) using_state" where
  "ex_using = use_capture ''db'' 0 \<lparr>us_runtime = ex_begun, us_entering = {#}, us_binding = ex_borrowed,
     us_users = [\<lparr>use_node = 0, use_lease = 0, use_stage = Acquired\<rparr>]\<rparr>"

lemma ex_using_reached: "reach (using_initial ex_opts) (using_step ex_opts) ex_using"
proof -
  let ?idle = "\<lparr>us_runtime = ex_begun, us_entering = {#}, us_binding = ex_waiting, us_users = []\<rparr> :: (nat, nat, nat) using_state"
  let ?busy = "\<lparr>us_runtime = ex_begun, us_entering = {#}, us_binding = ex_borrowed,
     us_users = [\<lparr>use_node = 0, use_lease = 0, use_stage = Acquired\<rparr>]\<rparr> :: (nat, nat, nat) using_state"
  have "fst (acquire ex_env ex_opts (Some live_ctx) live_ctx ex_waiting) = Inr 0"
    by (simp add: acquire_def ex_waiting_eq ex_states live_ctx_def ex_env_def ex_opts_def borrows_of_def ex_generation_def)
  then have "use_acquire ex_env ex_opts (Some live_ctx) live_ctx 0 ?idle = (None, ?busy)"
    by (cases "acquire ex_env ex_opts (Some live_ctx) live_ctx ex_waiting") (simp add: use_acquire_def ex_borrowed_def)
  then have one: "using_step ex_opts ?idle ?busy"
    by (rule us_acquire) (simp_all add: ex_begun_nodes new_node_def)
  have two: "using_step ex_opts ?busy ex_using" unfolding ex_using_def by (rule us_capture) simp_all
  have "reach (using_initial ex_opts) (using_step ex_opts) ?idle" 
    by (rule using_lifts [OF ex_begun_reached reach_step [where step = "binding_step ex_opts", OF ex_reached(2) ex_steps(5)]])
  from reach_step [where step = "using_step ex_opts", OF reach_step [where step = "using_step ex_opts", OF this one] two]
  show ?thesis .
qed

theorem borrowed_while_used_witness:
  "lease_Value 0 (us_binding ex_using) = Inr (Some 42) \<and> b_coordinator (us_binding ex_using) \<noteq> Cleaning 1"
proof -
  have user: "\<lparr>use_node = 0, use_lease = 0, use_stage = Captured\<rparr> \<in> set (us_users ex_using)"
    and running: "nd_running (rn_nodes (us_runtime ex_using) ! 0)"
    by (simp_all add: ex_using_def use_capture_def set_use_def using_capture_def ex_begun_nodes new_node_def)
  have lease: "b_leases (us_binding ex_using) ! 0 = \<lparr>lease_generation = 1, lease_value = Some 42, lease_stage = Held\<rparr>"
    by (simp add: ex_using_def use_capture_def set_use_def ex_borrowed_eq)
  from borrowed_while_used [OF ex_using_reached user refl refl refl] running lease show ?thesis by force
qed

end
