(* ===== verification/Operation_Ranges.thy ===== *)
theory Operation_Ranges
  imports Operation_Steps
begin

text \<open>
  The counters of \<^verbatim>\<open>adapters/v1/runtime.go\<close> stay within the machine integers the code keeps them in.
\<close>

section \<open>Machine ranges\<close>

lemma canFinishLocked_options [simp]:
  "rn_gate (snd (canFinishLocked n rt)) = rn_gate rt" "rn_sequence (snd (canFinishLocked n rt)) = rn_sequence rt"
  by (simp_all add: canFinishLocked_def Let_def)

lemma finish_one_options [simp]:
  "rt_options (rn_gate (snd (finish_one released n rt))) = rt_options (rn_gate rt)"
  "rn_sequence (snd (finish_one released n rt)) = rn_sequence rt"
  by (simp_all add: finish_one_def Let_def split_beta gate_frame split: option.splits)

text \<open>Options never change; the sequence stops below the largest 64-bit value.\<close>

definition ranged :: "'v runtime \<times> int multiset \<Rightarrow> bool" where
  "ranged re \<longleftrightarrow> runtime_inv re \<and> rn_sequence (fst re) \<le> MaxUint64 \<and>
     (\<exists>opts. operation_normalize opts = Inr (rt_options (rn_gate (fst re))))"

lemma newNodeLocked_range:
  assumes "newNodeLocked lifetime request parent observer rt = (result, rt')" and "rn_sequence rt \<le> MaxUint64"
  shows "rt_options (rn_gate rt') = rt_options (rn_gate rt) \<and> rn_sequence rt' \<le> MaxUint64"
proof (cases "rn_sequence rt = MaxUint64")
  case True
  then have "rt' = rt" using assms(1) by (auto simp: newNodeLocked_def Let_def split: if_splits option.splits)
  then show ?thesis using assms(2) by simp
next
  case False
  from assms(1) show ?thesis
    by (cases rule: newNode_cases; cases parent) (use assms(2) False in simp_all)
qed

lemma step_ranged:
  assumes "runtime_step re re'" and "ranged re"
  shows "rt_options (rn_gate (fst re')) = rt_options (rn_gate (fst re)) \<and> rn_sequence (fst re') \<le> MaxUint64"
  using assms
proof (induction rule: runtime_step.induct)
  case (ru_root lifetime request observer rt n rt' entering)
  then show ?case using newNodeLocked_range [OF ru_root(1)] by (simp add: ranged_def)
next
  case (ru_child lifetime request p observer rt n rt' entering)
  then show ?case using newNodeLocked_range [OF ru_child(1)] by (simp add: ranged_def)
next
  case (ru_hold n rt held rt' entering)
  then show ?case by (auto simp: ranged_def Call_Hold_def Let_def split: if_splits)
next
  case (ru_release k rt err rt' entering)
  then show ?case by (auto simp: ranged_def Guard_Release_def split: guard_state.splits)
next
  case (ru_resolve n rt err rt' entering)
  then show ?case by (auto simp: ranged_def Resolve_enter_def Let_def split: if_splits)
qed (simp_all add: ranged_def gate_frame shutdown_runtime_def guard_leave_def node_returned_def Resolve_publish_def Let_def)

lemma reach_ranged: "reach runtime_initial runtime_step re \<Longrightarrow> ranged re"
proof (induction rule: reach.induct)
  case (reach_initial re)
  then obtain ctx opts observers where new: "Runtime_New ctx opts observers = Inr (fst re)" by (auto simp: runtime_initial_def)
  then have "rn_sequence (fst re) = 0" "\<exists>opts. operation_normalize opts = Inr (rt_options (rn_gate (fst re)))"
    by (auto simp: Runtime_New_def operation_New_def Let_def split: sum.splits option.splits if_splits dest!: sym [of _ "fst re"])
  then show ?case using runtimes.initial_inv [OF reach_initial] by (simp add: ranged_def)
next
  case (reach_step re re')
  have inv: "runtime_inv re" using reach_step(3) by (simp add: ranged_def)
  show ?case
    using step_ranged [OF reach_step(2, 3)] runtimes.step_inv [OF inv reach_step(2)] reach_step(3) by (simp add: ranged_def)
qed

lemma kids_le_kin:
  assumes "runtime_inv (rt, entering)" and "n < length (rn_nodes rt)"
  shows "kids (rn_nodes rt) n \<le> kin (rn_nodes rt) (nd_root (rn_nodes rt ! n))"
  unfolding kids_def kin_def
proof (rule sum_list_mono)
  fix x assume "x \<in> set (rn_nodes rt)"
  then obtain m where m: "m < length (rn_nodes rt)" "x = rn_nodes rt ! m" by (metis in_set_conv_nth)
  have "nd_root x = nd_root (rn_nodes rt ! n)" if "nd_parent x = Some n"
    using node_inv(2) [OF assms(1) m(1)] that m(2) by (simp add: linked_def)
  then show "(of_bool (nd_parent x = Some n \<and> \<not> nd_released x) :: int)
      \<le> of_bool (nd_parent x \<noteq> None \<and> nd_root x = nd_root (rn_nodes rt ! n) \<and> \<not> nd_released x)" by auto
qed

lemma sum_mset_pos: "(\<And>b. b \<in># M \<Longrightarrow> 1 \<le> b) \<Longrightarrow> 0 \<le> sum_mset M" for M :: "int multiset"
  by (induction M) fastforce+

lemma depth_pos:
  assumes "runtime_inv (rt, entering)" and "n < length (rn_nodes rt)"
  shows "1 \<le> nd_depth (rn_nodes rt ! n)"
  using assms(2)
proof (induction n rule: less_induct)
  case (less n)
  show ?case
  proof (cases "nd_parent (rn_nodes rt ! n)")
    case None
    then show ?thesis using node_inv(2) [OF assms(1) less(2)] by (simp add: linked_def)
  next
    case (Some p)
    then have "p < n" "nd_depth (rn_nodes rt ! n) = nd_depth (rn_nodes rt ! p) + 1"
      using node_inv(2) [OF assms(1) less(2)] by (simp_all add: linked_def)
    then show ?thesis using less(1) [of p] less(2) by simp
  qed
qed

lemma node_typed:
  assumes "ranged (rt, entering)" and n: "n < length (rn_nodes rt)"
  shows "nd_sequence (rn_nodes rt ! n) \<le> MaxUint64" and "nd_depth (rn_nodes rt ! n) \<in> {1..32}"
    and "nd_guards (rn_nodes rt ! n) \<in> {0..65536}" and "nd_refs (rn_nodes rt ! n) \<in> {0..65538}"
    and "nd_children (rn_nodes rt ! n) \<in> {0..4095}" and "nd_family (rn_nodes rt ! n) \<in> {0..4096}"
proof -
  have inv: "runtime_inv (rt, entering)" and seq: "rn_sequence rt \<le> MaxUint64" using assms(1) by (simp_all add: ranged_def)
  obtain opts where opts: "operation_normalize opts = Inr (rt_options (rn_gate rt))" using assms(1) by (auto simp: ranged_def)
  note bounds = operation_normalize_Inr [OF opts]
  let ?x = "rn_nodes rt ! n" and ?r = "nd_root (rn_nodes rt ! n)"
  note ok = node_inv(1) [OF inv n] and link = node_inv(2) [OF inv n]
  have "rn_sequence rt = length (rn_nodes rt)" using inv by (simp add: runtime_inv_def runtime_core_def roots_ok_def)
  then show "nd_sequence ?x \<le> MaxUint64" using link n seq by (simp add: linked_def)
  show "nd_depth ?x \<in> {1..32}" using depth_pos [OF inv n] ok bounds(8) by (simp add: node_ok_def)
  have guards: "0 \<le> nd_guards ?x" "nd_guards ?x \<le> 65536" using ok bounds(9) counts_nonneg(3) by (simp_all add: node_ok_def)
  then show "nd_guards ?x \<in> {0..65536}" by simp
  have "nd_refs ?x = of_bool (nd_running ?x) + nd_guards ?x + of_bool (nd_resolving ?x)" using ok by (simp add: node_ok_def)
  then show "nd_refs ?x \<in> {0..65538}" using guards by auto
  have r: "?r < length (rn_nodes rt)" "nd_parent (rn_nodes rt ! ?r) = None" using link n by (auto simp: linked_def)
  have "1 + kin (rn_nodes rt) ?r \<le> 4096" using node_inv(1) [OF inv r(1)] r(2) bounds(7) by (simp add: node_ok_def)
  then show "nd_children ?x \<in> {0..4095}"
    using kids_le_kin [OF inv n] ok counts_nonneg(1) by (simp add: node_ok_def)
  have "0 \<le> nd_family ?x" using ok counts_nonneg(2) [of "rn_nodes rt" n] by (simp add: node_ok_def)
  then show "nd_family ?x \<in> {0..4096}" using ok bounds(7) by (simp add: node_ok_def)
qed



end
