(* ===== verification/Spec2Isabelle.thy ===== *)
theory Spec2Isabelle
  imports Operation_Handles Operation_Observer Operation_Receipt World_Behaviour Operation_Using Operation_Ranges
begin

text \<open>Verification of the public core of Fathomry (\<^verbatim>\<open>src/\<close>), a Go framework for data workflows whose
  components own their configuration, their errors, their resources and their calls explicitly.

  \<^bold>\<open>The program's parts.\<close> Four packages form the core on which every public adapter is built.
  \<^verbatim>\<open>failure/v1\<close> gives every error a 32-bit code, a declaration and a catalog of declarations.
  \<^verbatim>\<open>settings/v1\<close> publishes immutable snapshots of configuration and reads subsections of them by path.
  \<^verbatim>\<open>resource/v1\<close> turns a selected subsection into a running instance: a binding builds generations of the
  instance in its coordinator goroutine, lends the active one, retires superseded ones and releases each when
  its last borrower has returned; a scope applies one snapshot to all its bindings, may watch a store, and shuts
  all of them down. \<^verbatim>\<open>adapters/v1\<close> runs work on behalf of callers: a runtime admits operations up to its
  capacity, queues the rest, tracks a tree of child operations and guards, settles each outcome once, joins all
  work on close, and keeps a record of every accepted operation in an evidence inbox until a consumer settles it.
  Settings reads feed resource updates, an operation may hold a resource lease for its lifetime, and all of them
  report errors as failures of \<^verbatim>\<open>failure/v1\<close>.

  \<^bold>\<open>Conventions.\<close> A Go string or byte slice is a \<^typ>\<open>string\<close> of bytes; \<^verbatim>\<open>runes\<close> decodes UTF-8.
  A \<^verbatim>\<open>uint64\<close> counter is a \<^typ>\<open>nat\<close> with its wrap or saturation at \<open>MaxUint64\<close> written out, a code is
  a 32-bit word, and \<^verbatim>\<open>int\<close>/\<^verbatim>\<open>int64\<close> are \<^typ>\<open>int\<close> where the code bounds them. A Go
  \<^verbatim>\<open>error\<close> is a \<open>gerr option\<close>, a nil pointer is \<^term>\<open>None\<close>, a fallible function returns a sum whose
  left side is the error. A context is what the code observes of it: its error and its cause. A goroutine or a
  call that blocks is cut where it releases the mutex: each locked section, and each unlocked stretch with one
  observable effect, is one step of an inductive relation, so every interleaving of the real program that
  respects the mutexes is a run of the model. A blocked call is the result \<^term>\<open>None\<close>. Code outside
  \<^verbatim>\<open>src/\<close> enters only as parameters: the callback a caller passes, what a constructor returns, whether a
  receipt has ended.

  \<^bold>\<open>Theories.\<close>
  \<^item> \<^verbatim>\<open>Prelude\<close>: bytes and UTF-8, 64-bit counters, list lemmas, the locale \<open>transition_system\<close> (a step
    relation with an invariant; its facts are used by every state machine below).
  \<^item> \<^verbatim>\<open>Failure_Code\<close>, \<^verbatim>\<open>Failure_Error\<close>, \<^verbatim>\<open>Failure_Catalog\<close>: code.go, allocations.go,
    domains.go, definitions.go, error.go, details.go, catalog.go. Codes split and join bijectively, their text form round-trips, an
    occurrence carries its causes, a catalog accepts exactly the coherent sets of declarations and answers every
    query from them. The locale \<open>declarations\<close> of \<^verbatim>\<open>Failure_Error\<close> states what a package's declarations
    promise about the errors made from them.
  \<^item> \<^verbatim>\<open>Details\<close>: the detail records the clients attach to their errors. \<^verbatim>\<open>Failure_Error\<close>,
    \<^verbatim>\<open>Settings_Read\<close>, \<^verbatim>\<open>Resource_Options\<close> and \<^verbatim>\<open>Operation_Options\<close> interpret
    \<open>declarations\<close>, each for the declarations of its package.
  \<^item> \<^verbatim>\<open>Settings_Read\<close>, \<^verbatim>\<open>Settings_Store\<close>: read.go, settings.go, store.go, default.go. Paths are
    canonical, a read selects exactly the named subsection, publication is ordered, an installed default stays.
  \<^item> \<^verbatim>\<open>Resource_Options\<close>, \<^verbatim>\<open>Resource_Binding\<close>, \<^verbatim>\<open>Resource_Invariant\<close>,
    \<^verbatim>\<open>Resource_Steps\<close>, \<^verbatim>\<open>Resource_Behaviour\<close>: options.go, binding.go, lease.go. The binding as a record,
    one function per locked section, the invariant, its preservation, and the properties: no release while
    borrowed, bounds, adoption of the current selection only, no forgotten target, no lost wakeup, bounded draining.
  \<^item> \<^verbatim>\<open>Resource_Watch\<close>, \<^verbatim>\<open>Resource_Scope\<close>, \<^verbatim>\<open>Scope_Behaviour\<close>, \<^verbatim>\<open>Resource_Handles\<close>: watch.go,
    scope.go, update.go, diagnostics.go. Every entry of a reachable scope is a reachable binding, an update applies to all
    bindings or none, completed shutdown has released everything.
  \<^item> \<^verbatim>\<open>Operation_Options\<close>, \<^verbatim>\<open>Operation_Observer\<close>, \<^verbatim>\<open>Operation_Evidence\<close>: options.go, error.go, observer.go,
    evidence.go of adapters/v1. Events are conserved, the inbox refines a ledger of records each of which is
    reserved, queued or claimed by exactly one delivery.
  \<^item> \<^verbatim>\<open>Operation_Admission\<close>, \<^verbatim>\<open>Operation_Runtime\<close>, \<^verbatim>\<open>Operation_Counts\<close>,
    \<^verbatim>\<open>Operation_Steps\<close>, \<^verbatim>\<open>Operation_Receipt\<close>: runtime.go, call.go. The admission gate alone (first come
    first served, no idle capacity), the operation tree with its counters, and the properties: a released
    operation has no running descendant, close returns only after the join, each outcome settles once,
    \<^verbatim>\<open>finish\<close> terminates, a receipt observes what was resolved. A wait is given the states its two selects and
    its snapshot see, three moments of a run, so work that ends in between is covered; \<open>Runtime_Close_wait\<close> is the
    second select of a \<^verbatim>\<open>Close\<close> that found work still running.
  \<^item> \<^verbatim>\<open>Operation_Custody\<close>, \<^verbatim>\<open>Operation_Begin\<close>, \<^verbatim>\<open>Operation_World\<close>,
    \<^verbatim>\<open>World_Behaviour\<close>, \<^verbatim>\<open>Operation_Handles\<close>: the admission of \<^verbatim>\<open>beginContexts\<close> in call.go, cut
    where it takes and returns the locks of the inbox and of the runtime, and the remaining handles of call.go and
    lifetime.go. A state holds any number of runtimes, any number of inboxes that they may share, and the callers
    under way; a receipt in an inbox is a pair of its runtime and its operation. Accepted work keeps its record
    until it is released, a refused admission leaves nothing behind, a closed runtime's records can be settled.
    \<open>begin_stage\<close>, \<open>caller\<close> and \<open>world\<close> are the program counter and the joint state of these steps, not
    types of the code. Observers are kept per runtime.
  \<^item> \<^verbatim>\<open>Operation_Using\<close>: ownership.go. An operation with a borrowed resource over a binding and a runtime
    together: the lease is held and its generation kept for as long as anything below the operation works.
  \<^item> \<^verbatim>\<open>Operation_Ranges\<close>: every counter of a runtime stays inside its Go type.

  \<^bold>\<open>Termination and bounds.\<close> No definition uses fuel. Loops that the code runs under a lock are structural or have
  a termination proof (\<open>promote_loop\<close> by the length of the queue); \<open>cancellation\<close> climbs to parents that were made earlier, and
  \<open>cancellation_walk\<close> shows that the guard which says so always holds; \<open>finish\<close>, which climbs the operation tree, is a partial function
  proved to return in every reachable state. Coordinator loops are steps; \<open>drain_bound\<close> bounds the number of steps to exit.

  \<^bold>\<open>Not modelled.\<close> The concrete adapters and the private integrations call third-party clients (databases,
  brokers, browsers, HTTP stacks, telemetry exporters) and take their behaviour from them; the vendored
  libraries are not part of the framework. The port packages are declarations without behaviour.
  An error of foreign code that has an \<^verbatim>\<open>Is\<close> method of its own is matched by identity only. The step that
  records the source of an operation accepts any generation number, which allows more runs than the code has.
  Goroutine scheduling fairness, data copying by reflection and wall-clock time are not modelled.\<close>

end
